(* ===== verification/Prelude.thy ===== *)
theory Prelude
  imports Main "HOL-Library.AList" "HOL-Library.Char_ord" "HOL-Library.List_Lexorder"
    "HOL-Library.Multiset" "HOL-Library.Sublist" "HOL-Library.Word"
begin

text \<open>
  What every component of the model shares: the Go values the server computes with (byte strings,
  64-bit integers, maps with an arbitrary iteration order, \<^verbatim>\<open>(value, error)\<close> results and
  panics), the few standard-library functions that several components call
  (\<^verbatim>\<open>strconv.FormatInt\<close>, \<^verbatim>\<open>sort.Slice\<close>, \<^verbatim>\<open>hex.EncodeToString\<close>), and the generic lemmas
  about them that carry the proofs of the components.
\<close>

section \<open>Types\<close>

text \<open>
  A Go \<^verbatim>\<open>string\<close> and a \<^verbatim>\<open>[]byte\<close> are both lists of bytes: a HOL \<^typ>\<open>char\<close> is a byte, and
  the order of the library theories \<open>Char_ord\<close> and \<open>List_Lexorder\<close> is Go's bytewise
  comparison of strings. A \<^verbatim>\<open>time.Time\<close> is its number of nanoseconds since the epoch.
\<close>

type_synonym bytes = string
type_synonym i64 = "64 word"
type_synonym time = int
type_synonym ('k, 'v) gomap = "('k \<times> 'v) list"

text \<open>
  The sentinel errors of \<^verbatim>\<open>internal/store/store.go\<close>, an error that is only a text
  (\<^verbatim>\<open>errors.New\<close>, an operating-system error), and \<^verbatim>\<open>fmt.Errorf("...: %w", err)\<close>.
\<close>

datatype err =
    ErrBucketExists
  | ErrNoBucket
  | ErrNoKey
  | ErrNotLeader
  | ErrInvalidUploadID
  | ErrText string
  | ErrWrap string err

text \<open>\<^verbatim>\<open>err.Error()\<close> and \<^verbatim>\<open>errors.Is\<close>.\<close>

fun err_Error :: "err \<Rightarrow> string" where
  "err_Error ErrBucketExists = ''BucketAlreadyExists''"
| "err_Error ErrNoBucket = ''NoSuchBucket''"
| "err_Error ErrNoKey = ''NoSuchKey''"
| "err_Error ErrNotLeader = ''not the Raft leader''"
| "err_Error ErrInvalidUploadID = ''InvalidUploadID''"
| "err_Error (ErrText s) = s"
| "err_Error (ErrWrap s e) = s @ '': '' @ err_Error e"

fun errors_Is :: "err \<Rightarrow> err \<Rightarrow> bool" where
  "errors_Is (ErrWrap s e) target = (ErrWrap s e = target \<or> errors_Is e target)"
| "errors_Is e target = (e = target)"

text \<open>
  The result of a Go call: it returns a value, it returns an error, or it panics. A panic is a
  value of the model, so that a theorem can say that a call does or does not end in one.
\<close>

datatype 'a outcome = Ok 'a | Err err | Panic string

section \<open>Standard-library functions\<close>

text \<open>\<^verbatim>\<open>strconv.FormatInt(i, 10)\<close>.\<close>

fun nat_digits :: "nat \<Rightarrow> string" where
  "nat_digits n =
     (if n < 10 then [''0123456789'' ! n]
      else nat_digits (n div 10) @ [''0123456789'' ! (n mod 10)])"

definition FormatInt :: "int \<Rightarrow> string" where
  "FormatInt i = (if i < 0 then CHR ''-'' # nat_digits (nat (- i)) else nat_digits (nat i))"

definition digit_val :: "char \<Rightarrow> nat" where
  "digit_val c = of_char c - 48"

definition digits_val :: "string \<Rightarrow> nat" where
  "digits_val ds = foldl (\<lambda>a c. 10 * a + digit_val c) 0 ds"

text \<open>\<^verbatim>\<open>hex.EncodeToString\<close>: two lower-case digits for each byte.\<close>

definition hex_digit :: "nat \<Rightarrow> char" where
  "hex_digit n = ''0123456789abcdef'' ! n"

fun hex_EncodeToString :: "bytes \<Rightarrow> string" where
  "hex_EncodeToString [] = []"
| "hex_EncodeToString (c # cs) =
     hex_digit (of_char c div 16) # hex_digit (of_char c mod 16) # hex_EncodeToString cs"

text \<open>
  \<^verbatim>\<open>sort.Slice\<close> with the caller's \<open>less\<close>. The library promises a permutation that is in order;
  it does not promise stability. The lemma \<open>slice_order.sort_slice_unique\<close> below shows that where
  \<open>less\<close> separates any two elements, every result the library may return is this one.
\<close>

fun slice_insert :: "('a \<Rightarrow> 'a \<Rightarrow> bool) \<Rightarrow> 'a \<Rightarrow> 'a list \<Rightarrow> 'a list" where
  "slice_insert lt x [] = [x]"
| "slice_insert lt x (y # ys) =
     (if lt y x then y # slice_insert lt x ys else x # y # ys)"

fun sort_slice :: "('a \<Rightarrow> 'a \<Rightarrow> bool) \<Rightarrow> 'a list \<Rightarrow> 'a list" where
  "sort_slice lt [] = []"
| "sort_slice lt (x # xs) = slice_insert lt x (sort_slice lt xs)"

text \<open>
  The backing array after \<^verbatim>\<open>append(xs[:i], xs[i+1:]...)\<close>: the tail moves down by one cell in
  place, and the last cell keeps its old contents. The slice that \<^verbatim>\<open>append\<close> returns is the array
  without that last cell.
\<close>

definition slice_shift :: "'a list \<Rightarrow> nat \<Rightarrow> 'a list" where
  "slice_shift xs i = take i xs @ drop (Suc i) xs @ [last xs]"

definition slice_delete :: "'a list \<Rightarrow> nat \<Rightarrow> 'a list" where
  "slice_delete xs i = take (length xs - 1) (slice_shift xs i)"

text \<open>A read of a \<^verbatim>\<open>map[string]bool\<close>: a missing key reads \<^verbatim>\<open>false\<close>.\<close>

definition map_bool :: "(string, bool) gomap \<Rightarrow> string \<Rightarrow> bool" where
  "map_bool m k = (map_of m k = Some True)"

section \<open>Generic lemmas\<close>

named_theorems go_simps \<open>rewrite rules of the Go standard library and of Go maps\<close>

subsection \<open>Maps\<close>

lemmas gomap_simps [simp] = AList.update_conv' AList.delete_conv'
lemmas gomap_distinct [simp, intro] = AList.distinct_update AList.distinct_delete

lemma map_bool_update [simp]: "map_bool (AList.update k v m) k' = (if k' = k then v else map_bool m k')"
  by (auto simp: map_bool_def)

lemma map_bool_delete [simp]: "map_bool (AList.delete k m) k' = (k' \<noteq> k \<and> map_bool m k')"
  by (auto simp: map_bool_def)

lemma map_bool_Nil [simp]: "\<not> map_bool [] k"
  by (simp add: map_bool_def)

lemma map_bool_all_true: "map_bool (map (\<lambda>b. (f b, True)) bs) k \<longleftrightarrow> k \<in> f ` set bs"
  by (induction bs) (auto simp: map_bool_def)

lemma Nil_less_iff [simp]: "[] < (s :: 'a :: linorder list) \<longleftrightarrow> s \<noteq> []"
  by (cases s) auto

subsection \<open>Decimal numbers\<close>

declare nat_digits.simps [simp del]

lemma digit_char_val: "n < 10 \<Longrightarrow> digit_val (''0123456789'' ! n) = n"
proof -
  have "\<forall>n < 10. digit_val (''0123456789'' ! n) = n"
    by (simp add: digit_val_def All_less_Suc numeral_eq_Suc)
  then show "n < 10 \<Longrightarrow> digit_val (''0123456789'' ! n) = n" by blast
qed

lemma digits_val_snoc: "digits_val (ds @ [c]) = 10 * digits_val ds + digit_val c"
  by (simp add: digits_val_def)

lemma digits_val_nat_digits [simp]: "digits_val (nat_digits n) = n"
proof (induction n rule: nat_digits.induct)
  case (1 n)
  show ?case
  proof (cases "n < 10")
    case True
    then show ?thesis
      by (subst nat_digits.simps) (simp add: digits_val_def digit_char_val)
  next
    case False
    with "1.IH" have "digits_val (nat_digits (n div 10)) = n div 10" by simp
    with False show ?thesis
      by (subst nat_digits.simps) (simp add: digits_val_snoc digit_char_val)
  qed
qed

lemma nat_digits_inject [simp]: "nat_digits m = nat_digits n \<longleftrightarrow> m = n"
  by (metis digits_val_nat_digits)

lemma nat_digits_chars: "set (nat_digits n) \<subseteq> set ''0123456789''"
proof (induction n rule: nat_digits.induct)
  case (1 n)
  have digit: "k < 10 \<Longrightarrow> ''0123456789'' ! k \<in> set ''0123456789''" for k
    by (rule nth_mem) simp
  show ?case
  proof (cases "n < 10")
    case True
    then show ?thesis using digit [of n] by (subst nat_digits.simps) simp
  next
    case False
    with "1.IH" show ?thesis using digit [of "n mod 10"] by (subst nat_digits.simps) simp
  qed
qed

lemma nat_digits_no_minus: "CHR ''-'' \<notin> set (nat_digits n)"
  using nat_digits_chars [of n] by auto

lemma nat_digits_nonempty [simp]: "nat_digits n \<noteq> []"
  by (subst nat_digits.simps) simp

lemma FormatInt_nonempty [simp]: "FormatInt i \<noteq> []"
  by (simp add: FormatInt_def)

lemma FormatInt_inject [simp]: "FormatInt i = FormatInt j \<longleftrightarrow> i = j"
proof -
  have "CHR ''-'' # ds \<noteq> nat_digits n" for ds n
    using nat_digits_no_minus [of n] by (metis list.set_intros(1))
  note minus = this this [symmetric]
  show ?thesis
    by (auto simp: FormatInt_def minus nat_eq_iff2 split: if_splits)
qed

lemma FormatInt_digit [go_simps]: "0 \<le> i \<Longrightarrow> i < 10 \<Longrightarrow> FormatInt i = [''0123456789'' ! nat i]"
  by (simp add: FormatInt_def nat_digits.simps nat_less_iff)

subsection \<open>Hexadecimal digests\<close>

lemma length_hex_EncodeToString [simp]: "length (hex_EncodeToString bs) = 2 * length bs"
  by (induction bs) auto

lemma hex_chars: "set (hex_EncodeToString bs) \<subseteq> set ''0123456789abcdef''"
proof -
  have digit: "n < 16 \<Longrightarrow> hex_digit n \<in> set ''0123456789abcdef''" for n
    unfolding hex_digit_def by (rule nth_mem) simp
  have "of_char c div 16 < (16::nat)" for c :: char
    using nat_of_char_less_256 [of c] by arith
  then have "(\<And>n. n < 16 \<Longrightarrow> hex_digit n \<in> D) \<Longrightarrow> set (hex_EncodeToString bs) \<subseteq> D" for D
    by (induction bs) auto
  then show ?thesis using digit .
qed

lemma hex_digit_inject: "m < 16 \<Longrightarrow> n < 16 \<Longrightarrow> hex_digit m = hex_digit n \<longleftrightarrow> m = n"
proof -
  have "distinct ''0123456789abcdef''" by simp
  then show "m < 16 \<Longrightarrow> n < 16 \<Longrightarrow> hex_digit m = hex_digit n \<longleftrightarrow> m = n"
    unfolding hex_digit_def by (subst nth_eq_iff_index_eq) simp_all
qed

lemma hex_byte_inject:
  "hex_digit (of_char c div 16) = hex_digit (of_char d div 16) \<and>
   hex_digit (of_char c mod 16) = hex_digit (of_char d mod 16) \<longleftrightarrow> c = d"
proof -
  have bound: "of_char x div 16 < (16::nat)" for x :: char
    using nat_of_char_less_256 [of x] by arith
  have "of_char c = (of_char d :: nat)"
    if "of_char c div 16 = (of_char d div 16 :: nat)" and "of_char c mod 16 = (of_char d mod 16 :: nat)"
    using that by (metis div_mult_mod_eq)
  then show ?thesis
    by (auto simp: hex_digit_inject bound)
qed

lemma hex_EncodeToString_inject [simp]: "hex_EncodeToString xs = hex_EncodeToString ys \<longleftrightarrow> xs = ys"
proof (induction xs arbitrary: ys)
  case Nil
  then show ?case by (cases ys) auto
next
  case (Cons x xs)
  then show ?case using hex_byte_inject [of x] by (cases ys) auto
qed

subsection \<open>Slices\<close>

lemma slice_delete_eq [simp]: "i < length xs \<Longrightarrow> slice_delete xs i = take i xs @ drop (Suc i) xs"
  by (simp add: slice_delete_def slice_shift_def)

lemma length_slice_shift [simp]: "i < length xs \<Longrightarrow> length (slice_shift xs i) = length xs"
  by (auto simp: slice_shift_def)

lemma slice_shift_nth:
  assumes "i < length xs"
  shows "slice_shift xs i ! i = (if Suc i < length xs then xs ! Suc i else xs ! i)"
proof (cases "Suc i < length xs")
  case True
  then show ?thesis by (simp add: slice_shift_def nth_append)
next
  case False
  with assms have "Suc i = length xs" by simp
  then have "xs \<noteq> []" and "i = length xs - 1" by auto
  then show ?thesis
    by (simp add: slice_shift_def nth_append last_conv_nth)
qed

lemma last_take_nth:
  assumes "0 < k" and "k \<le> length xs"
  shows "last (take k xs) = xs ! (k - 1)"
proof -
  have "take k xs \<noteq> []" using assms by auto
  then show ?thesis using assms by (simp add: last_conv_nth min_def)
qed

subsection \<open>The contract of sort.Slice\<close>

text \<open>
  What \<^verbatim>\<open>sort.Slice\<close> asks of its callers (a strict weak order) and what it gives back. Every
  comparison function the server passes to it is an interpretation of this locale.
\<close>

locale slice_order =
  fixes lt :: "'a \<Rightarrow> 'a \<Rightarrow> bool"
  assumes lt_asym: "lt x y \<Longrightarrow> \<not> lt y x"
    and le_trans: "\<not> lt y x \<Longrightarrow> \<not> lt z y \<Longrightarrow> \<not> lt z x"
begin

lemma mset_slice_insert: "mset (slice_insert lt x xs) = add_mset x (mset xs)"
  by (induction xs) auto

lemma mset_sort_slice: "mset (sort_slice lt xs) = mset xs"
  by (induction xs) (auto simp: mset_slice_insert)

lemma set_sort_slice: "set (sort_slice lt xs) = set xs"
  using mset_sort_slice by (metis set_mset_mset)

lemma length_sort_slice: "length (sort_slice lt xs) = length xs"
  using mset_sort_slice by (metis size_mset)

lemma slice_insert_ordered:
  "sorted_wrt (\<lambda>a b. \<not> lt b a) xs \<Longrightarrow> sorted_wrt (\<lambda>a b. \<not> lt b a) (slice_insert lt x xs)"
proof (induction xs)
  case Nil
  then show ?case by simp
next
  case (Cons y ys)
  have elems: "set (slice_insert lt x ys) = insert x (set ys)"
    using mset_slice_insert [of x ys] by (metis set_mset_add_mset_insert set_mset_mset)
  show ?case
    using Cons by (auto simp: elems dest: lt_asym le_trans [of y x])
qed

lemma sort_slice_ordered: "sorted_wrt (\<lambda>a b. \<not> lt b a) (sort_slice lt xs)"
  by (induction xs) (auto intro: slice_insert_ordered)

lemma ordered_unique:
  assumes "mset xs = mset ys"
    and "sorted_wrt (\<lambda>a b. \<not> lt b a) xs" and "sorted_wrt (\<lambda>a b. \<not> lt b a) ys"
    and "\<And>x y. x \<in> set xs \<Longrightarrow> y \<in> set xs \<Longrightarrow> \<not> lt x y \<Longrightarrow> \<not> lt y x \<Longrightarrow> x = y"
  shows "xs = ys"
  using assms
proof (induction xs arbitrary: ys)
  case Nil
  then show ?case by simp
next
  case (Cons x xs)
  then obtain y zs where ys: "ys = y # zs"
    by (cases ys) auto
  have "y \<in> set (x # xs)" and "x \<in> set ys"
    using Cons.prems(1) ys by (metis list.set_intros(1) set_mset_mset)+
  with Cons.prems(2-4) ys have "x = y"
    by (metis list.set_intros(1) set_ConsD sorted_wrt.simps(2))
  moreover have "xs = zs"
    using Cons.prems ys \<open>x = y\<close> by (intro Cons.IH) auto
  ultimately show ?case using ys by simp
qed

text \<open>Whatever order the elements arrive in, and whichever algorithm sorts them.\<close>

lemma sort_slice_unique:
  assumes "mset zs = mset xs" and "sorted_wrt (\<lambda>a b. \<not> lt b a) zs"
    and "\<And>x y. x \<in> set xs \<Longrightarrow> y \<in> set xs \<Longrightarrow> \<not> lt x y \<Longrightarrow> \<not> lt y x \<Longrightarrow> x = y"
  shows "zs = sort_slice lt xs"
proof (rule ordered_unique)
  show "mset zs = mset (sort_slice lt xs)" using assms(1) mset_sort_slice by simp
  show "sorted_wrt (\<lambda>a b. \<not> lt b a) zs" by fact
  show "sorted_wrt (\<lambda>a b. \<not> lt b a) (sort_slice lt xs)" by (rule sort_slice_ordered)
  have "set zs = set xs" using assms(1) by (metis set_mset_mset)
  then show "\<And>x y. x \<in> set zs \<Longrightarrow> y \<in> set zs \<Longrightarrow> \<not> lt x y \<Longrightarrow> \<not> lt y x \<Longrightarrow> x = y"
    using assms(3) by blast
qed

lemma sort_slice_perm:
  assumes "mset xs = mset ys"
    and "\<And>x y. x \<in> set xs \<Longrightarrow> y \<in> set xs \<Longrightarrow> \<not> lt x y \<Longrightarrow> \<not> lt y x \<Longrightarrow> x = y"
  shows "sort_slice lt xs = sort_slice lt ys"
proof (rule sort_slice_unique)
  show "mset (sort_slice lt xs) = mset ys" using assms(1) mset_sort_slice by simp
  show "sorted_wrt (\<lambda>a b. \<not> lt b a) (sort_slice lt xs)" by (rule sort_slice_ordered)
  have "set xs = set ys" using assms(1) by (metis set_mset_mset)
  then show "\<And>x y. x \<in> set ys \<Longrightarrow> y \<in> set ys \<Longrightarrow> \<not> lt x y \<Longrightarrow> \<not> lt y x \<Longrightarrow> x = y"
    using assms(2) by blast
qed

end

text \<open>A comparison of a key in a linear order, the shape of most of the server's comparisons.\<close>

lemma slice_order_key: "slice_order (\<lambda>a b. f a < (f b :: 'b :: linorder))"
  by unfold_locales auto

end
