(* ===== verification/Json.thy ===== *)
theory Json
  imports Prelude
begin

text \<open>
  What the server uses of \<^verbatim>\<open>encoding/json\<close>. Log entries, bucket records and snapshots are JSON
  documents; the model keeps them as trees (the text of a document is not modelled). A timestamp
  is a leaf of its own for the RFC 3339 string that \<^verbatim>\<open>time.Time\<close> encodes to. The encoder
  replaces every byte of a string that is not part of valid UTF-8 by U+FFFD, which is what makes
  round trips depend on the validity of keys; the replacement is modelled byte by byte.
\<close>

section \<open>Documents\<close>

datatype json =
    JNull
  | JBool bool
  | JInt int
  | JStr string
  | JTime time
  | JArr "json list"
  | JObj "(string \<times> json) list"

section \<open>Strings: replacement of invalid UTF-8\<close>

definition utf8_cont :: "char \<Rightarrow> bool" where
  "utf8_cont c = (128 \<le> (of_char c :: nat) \<and> (of_char c :: nat) < 192)"

text \<open>
  The number of bytes of the rune at the head of a string, 0 when there is no valid encoding
  there (the case in which \<^verbatim>\<open>utf8.DecodeRune\<close> returns \<^verbatim>\<open>RuneError\<close> and width 1).
\<close>

fun rune_len :: "string \<Rightarrow> nat" where
  "rune_len [] = 0"
| "rune_len (c # s) =
     (let x = (of_char c :: nat);
          lo = (if x = 224 then 160 else if x = 240 then 144 else 128);
          hi = (if x = 237 then 159 else if x = 244 then 143 else 191)
      in if x < 128 then 1
         else case s of
           [] \<Rightarrow> 0
         | c1 # s1 \<Rightarrow>
             if (of_char c1 :: nat) < lo \<or> hi < (of_char c1 :: nat) then 0
             else if 194 \<le> x \<and> x \<le> 223 then 2
             else case s1 of
               [] \<Rightarrow> 0
             | c2 # s2 \<Rightarrow>
                 if \<not> utf8_cont c2 then 0
                 else if 224 \<le> x \<and> x \<le> 239 then 3
                 else case s2 of
                   [] \<Rightarrow> 0
                 | c3 # s3 \<Rightarrow> if utf8_cont c3 \<and> 240 \<le> x \<and> x \<le> 244 then 4 else 0)"

definition rune_error :: string where
  "rune_error = [char_of (239::nat), char_of (191::nat), char_of (189::nat)]"

function utf8_coerce :: "string \<Rightarrow> string" where
  "utf8_coerce [] = []"
| "utf8_coerce (c # s) =
     (let n = rune_len (c # s)
      in if n = 0 then rune_error @ utf8_coerce s
         else take n (c # s) @ utf8_coerce (drop (n - 1) s))"
  by pat_completeness auto
termination
  by (relation "measure length") auto

definition valid_utf8 :: "string \<Rightarrow> bool" where
  "valid_utf8 s = (utf8_coerce s = s)"

section \<open>Encoding and decoding\<close>

definition json_string :: "string \<Rightarrow> json" where
  "json_string s = JStr (utf8_coerce s)"

text \<open>A Go map is encoded as an object whose keys are sorted.\<close>

definition json_key_less :: "string \<times> 'a \<Rightarrow> string \<times> 'a \<Rightarrow> bool" where
  "json_key_less p q = (fst p < fst q)"

definition json_map :: "('a \<Rightarrow> json) \<Rightarrow> (string, 'a) gomap \<Rightarrow> json" where
  "json_map enc m = JObj (map (\<lambda>(k, v). (utf8_coerce k, enc v)) (sort_slice json_key_less m))"

text \<open>
  Decoding into a struct: a missing field and \<^verbatim>\<open>null\<close> leave the zero value, a repeated field
  takes its last value, a field of another type is an error (every caller drops the partly filled
  struct when there is one). Names are compared exactly: \<^verbatim>\<open>encoding/json\<close> also takes names that
  differ in case, which the documents read here, all written by this program, never have.
\<close>

definition type_error :: err where
  "type_error = ErrText ''json: cannot unmarshal''"

definition json_field :: "string \<Rightarrow> (string \<times> json) list \<Rightarrow> json option" where
  "json_field name fs = map_of (rev fs) name"

fun dec_string :: "json option \<Rightarrow> err + string" where
  "dec_string None = Inr ''''"
| "dec_string (Some JNull) = Inr ''''"
| "dec_string (Some (JStr s)) = Inr s"
| "dec_string _ = Inl type_error"

fun dec_int64 :: "json option \<Rightarrow> err + int" where
  "dec_int64 None = Inr 0"
| "dec_int64 (Some JNull) = Inr 0"
| "dec_int64 (Some (JInt i)) =
     (if - (2 ^ 63) \<le> i \<and> i < 2 ^ 63 then Inr i else Inl type_error)"
| "dec_int64 _ = Inl type_error"

fun dec_bool :: "json option \<Rightarrow> err + bool" where
  "dec_bool None = Inr False"
| "dec_bool (Some JNull) = Inr False"
| "dec_bool (Some (JBool b)) = Inr b"
| "dec_bool _ = Inl type_error"

fun dec_time :: "time \<Rightarrow> json option \<Rightarrow> err + time" where
  "dec_time zero None = Inr zero"
| "dec_time zero (Some JNull) = Inr zero"
| "dec_time zero (Some (JTime t)) = Inr t"
| "dec_time zero _ = Inl type_error"

text \<open>The zero value of \<^verbatim>\<open>time.Time\<close> is 1 January of the year 1, in nanoseconds.\<close>

definition zero_time :: time where
  "zero_time = - 62135596800 * 10 ^ 9"

fun dec_entries :: "(json \<Rightarrow> err + 'a) \<Rightarrow> (string \<times> json) list \<Rightarrow> (string, 'a) gomap
    \<Rightarrow> err + (string, 'a) gomap" where
  "dec_entries dec [] acc = Inr acc"
| "dec_entries dec ((k, j) # r) acc =
     (case dec j of Inl e \<Rightarrow> Inl e | Inr v \<Rightarrow> dec_entries dec r (AList.update k v acc))"

fun dec_map :: "(json \<Rightarrow> err + 'a) \<Rightarrow> json option \<Rightarrow> err + (string, 'a) gomap" where
  "dec_map dec None = Inr []"
| "dec_map dec (Some JNull) = Inr []"
| "dec_map dec (Some (JObj fs)) = dec_entries dec fs []"
| "dec_map dec _ = Inl type_error"

fun dec_elems :: "(json \<Rightarrow> err + 'a) \<Rightarrow> json list \<Rightarrow> err + 'a list" where
  "dec_elems dec [] = Inr []"
| "dec_elems dec (j # r) =
     (case dec j of Inl e \<Rightarrow> Inl e
      | Inr v \<Rightarrow> (case dec_elems dec r of Inl e \<Rightarrow> Inl e | Inr vs \<Rightarrow> Inr (v # vs)))"

fun dec_slice :: "(json \<Rightarrow> err + 'a) \<Rightarrow> json option \<Rightarrow> err + 'a list" where
  "dec_slice dec None = Inr []"
| "dec_slice dec (Some JNull) = Inr []"
| "dec_slice dec (Some (JArr js)) = dec_elems dec js"
| "dec_slice dec _ = Inl type_error"

section \<open>Lemmas\<close>

subsection \<open>Replacement keeps valid strings and is idempotent\<close>

declare utf8_coerce.simps(2) [simp del] rune_len.simps(2) [simp del]

lemma rune_len_take:
  assumes "rune_len s = n" and "n \<noteq> 0"
  shows "n \<le> length s \<and> rune_len (take n s @ t) = n"
proof (cases s)
  case Nil
  with assms show ?thesis by simp
next
  case (Cons c r)
  with assms show ?thesis
    by (auto simp: rune_len.simps Let_def split: if_splits list.splits)
qed

lemma utf8_coerce_rune:
  assumes "rune_len s = n" and "n \<noteq> 0"
  shows "utf8_coerce (take n s @ t) = take n s @ utf8_coerce t"
proof -
  have len: "n \<le> length s" and rl: "rune_len (take n s @ t) = n"
    using rune_len_take [OF assms] by auto
  obtain c r where s: "take n s @ t = c # r" and n: "n = Suc (n - 1)"
    using assms len by (cases s; cases n) auto
  have "utf8_coerce (c # r) = take n (c # r) @ utf8_coerce (drop (n - 1) r)"
    using rl assms(2) by (simp add: utf8_coerce.simps(2) s)
  moreover have "drop (n - 1) r = drop n (c # r)"
    using n by (metis drop_Suc_Cons)
  ultimately show ?thesis using len by (simp flip: s)
qed

lemma rune_len_rune_error: "rune_len (rune_error @ t) = 3"
  by (simp add: rune_error_def rune_len.simps utf8_cont_def)

lemma utf8_coerce_rune_error: "utf8_coerce (rune_error @ t) = rune_error @ utf8_coerce t"
  using utf8_coerce_rune [of rune_error 3 t] rune_len_rune_error [of "[]"]
  by (simp add: rune_error_def)

lemma utf8_coerce_idem [simp]: "utf8_coerce (utf8_coerce s) = utf8_coerce s"
proof (induction s rule: utf8_coerce.induct)
  case 1
  then show ?case by simp
next
  case (2 c s)
  show ?case
  proof (cases "rune_len (c # s) = 0")
    case True
    then show ?thesis
      using 2 by (simp add: utf8_coerce.simps(2) utf8_coerce_rune_error)
  next
    case False
    then show ?thesis
      using 2 by (simp add: utf8_coerce.simps(2) [of c s] Let_def utf8_coerce_rune)
  qed
qed

lemma valid_utf8_coerce: "valid_utf8 (utf8_coerce s)"
  by (simp add: valid_utf8_def)

lemma valid_utf8D [dest]: "valid_utf8 s \<Longrightarrow> utf8_coerce s = s"
  by (simp add: valid_utf8_def)

lemma utf8_coerce_ascii: "\<forall>c \<in> set s. (of_char c :: nat) < 128 \<Longrightarrow> utf8_coerce s = s"
  by (induction s) (auto simp: utf8_coerce.simps(2) rune_len.simps)

lemma valid_utf8_ascii: "\<forall>c \<in> set s. (of_char c :: nat) < 128 \<Longrightarrow> valid_utf8 s"
  by (simp add: valid_utf8_def utf8_coerce_ascii)

lemma valid_utf8_Nil [simp]: "valid_utf8 []"
  by (simp add: valid_utf8_def)

lemma hex_ascii: "\<forall>c \<in> set (hex_EncodeToString bs). (of_char c :: nat) < 128"
proof -
  have "\<forall>c \<in> set ''0123456789abcdef''. (of_char c :: nat) < 128" by simp
  then show ?thesis using hex_chars by blast
qed

lemma valid_utf8_hex [simp]: "valid_utf8 (hex_EncodeToString bs)"
  using hex_ascii by (rule valid_utf8_ascii)

lemma valid_utf8_nat_digits: "valid_utf8 (nat_digits n)"
proof (rule valid_utf8_ascii)
  have "\<forall>c \<in> set ''0123456789''. (of_char c :: nat) < 128" by simp
  then show "\<forall>c \<in> set (nat_digits n). (of_char c :: nat) < 128"
    using nat_digits_chars by blast
qed

lemma valid_utf8_FormatInt [simp]: "valid_utf8 (FormatInt i)"
proof -
  have "utf8_coerce (CHR ''-'' # s) = CHR ''-'' # utf8_coerce s" for s
    by (simp add: utf8_coerce.simps(2) rune_len.simps)
  then show ?thesis
    using valid_utf8_nat_digits by (simp add: FormatInt_def valid_utf8_def)
qed

subsection \<open>Maps and slices decode to what was encoded\<close>

interpretation json_keys: slice_order json_key_less
  unfolding json_key_less_def by (rule slice_order_key)

lemma dec_entries_map:
  assumes "\<forall>(k, v) \<in> set m. dec (enc v) = Inr (f v) \<and> valid_utf8 k"
  shows "\<exists>r. dec_entries dec (map (\<lambda>(k, v). (utf8_coerce k, enc v)) m) acc = Inr r \<and>
           map_of r = map_of acc ++ map_of (rev (map (\<lambda>(k, v). (k, f v)) m)) \<and>
           (distinct (map fst acc) \<longrightarrow> distinct (map fst r))"
  using assms
proof (induction m arbitrary: acc)
  case Nil
  then show ?case by simp
next
  case (Cons p m)
  obtain k v where p: "p = (k, v)" by (cases p)
  have "dec (enc v) = Inr (f v)" and "utf8_coerce k = k"
    using Cons.prems p by auto
  moreover have "\<forall>(k, v) \<in> set m. dec (enc v) = Inr (f v) \<and> valid_utf8 k"
    using Cons.prems by simp
  from Cons.IH [OF this, of "AList.update k (f v) acc"] obtain r where
    r: "dec_entries dec (map (\<lambda>(k, v). (utf8_coerce k, enc v)) m) (AList.update k (f v) acc) = Inr r"
      "map_of r = (map_of acc)(k \<mapsto> f v) ++ map_of (rev (map (\<lambda>(k, v). (k, f v)) m))"
      "distinct (map fst acc) \<longrightarrow> distinct (map fst r)"
    unfolding AList.update_conv' by (blast intro: AList.distinct_update)
  have "map_of (rev (map (\<lambda>(k, v). (k, f v)) (p # m))) =
      [k \<mapsto> f v] ++ map_of (rev (map (\<lambda>(k, v). (k, f v)) m))"
    by (simp add: p)
  with r(2) have "map_of r = map_of acc ++ map_of (rev (map (\<lambda>(k, v). (k, f v)) (p # m)))"
    by (simp only:) (rule ext, simp add: map_add_def split: option.split)
  ultimately show ?case
    using r(1,3) by (simp add: p)
qed

lemma map_of_sort_keys:
  assumes "distinct (map fst m)"
  shows "map_of (rev (sort_slice json_key_less m)) = map_of m"
proof -
  have ms: "mset (sort_slice json_key_less m) = mset m" by (rule json_keys.mset_sort_slice)
  then have "mset (map fst (rev (sort_slice json_key_less m))) = mset (map fst m)" by simp
  then have "distinct (map fst (rev (sort_slice json_key_less m)))"
    using assms by (metis mset_eq_imp_distinct_iff)
  moreover have "set (rev (sort_slice json_key_less m)) = set m"
    using ms by (metis mset_rev set_mset_mset)
  ultimately show ?thesis
    using assms by (intro map_of_inject_set [THEN iffD2]) auto
qed

lemma dec_map_json_map:
  assumes "distinct (map fst m)"
    and "\<forall>(k, v) \<in> set m. dec (enc v) = Inr (f v) \<and> valid_utf8 k"
  shows "\<exists>r. dec_map dec (Some (json_map enc m)) = Inr r \<and>
           map_of r = map_option f \<circ> map_of m \<and> distinct (map fst r)"
proof -
  have set: "set (sort_slice json_key_less m) = set m" by (rule json_keys.set_sort_slice)
  have "\<forall>(k, v) \<in> set (sort_slice json_key_less m). dec (enc v) = Inr (f v) \<and> valid_utf8 k"
    using assms(2) set by simp
  from dec_entries_map [OF this, of "[]"]
  obtain r where "dec_map dec (Some (json_map enc m)) = Inr r" and "distinct (map fst r)"
    and "map_of r = map_of (map (\<lambda>(k, v). (k, f v)) (rev (sort_slice json_key_less m)))"
    by (auto simp: json_map_def rev_map)
  moreover have "map_of (map (\<lambda>(k, v). (k, f v)) xs) = map_option f \<circ> map_of xs" for xs
    by (induction xs) auto
  ultimately show ?thesis
    using map_of_sort_keys [OF assms(1)] by metis
qed

lemma dec_elems_map:
  assumes "\<And>v. v \<in> set vs \<Longrightarrow> dec (enc v) = Inr (f v)"
  shows "dec_elems dec (map enc vs) = Inr (map f vs)"
  using assms by (induction vs) auto

end
