(* ===== verification/BucketDB.thy ===== *)
theory BucketDB
  imports Json
begin

text \<open>
  Bucket metadata (\<^verbatim>\<open>internal/store/bucketdb.go\<close>). The embedded database
  \<^verbatim>\<open>go.etcd.io/bbolt\<close> is not part of the repository: it is a parameter, a record of the calls
  the code makes on its one top-level bucket, and what the code relies on is the locale
  \<open>bolt_kv\<close>. The operations of \<^verbatim>\<open>BucketDB\<close> are defined over that parameter, and
  \<open>bucket_registry\<close> is the contract they give to the metadata store.
\<close>

section \<open>The database the code calls\<close>

record 'db bolt =
  bolt_open :: "'db \<Rightarrow> err + 'db"  \<comment> \<open>\<^verbatim>\<open>bolt.Open\<close> on the contents of the file\<close>
  bolt_create :: "'db \<Rightarrow> err + 'db"  \<comment> \<open>\<^verbatim>\<open>tx.CreateBucketIfNotExists\<close>\<close>
  bolt_begin :: "'db \<Rightarrow> err option"  \<comment> \<open>why no transaction can start, if so\<close>
  bolt_get :: "'db \<Rightarrow> string \<Rightarrow> json option"
  bolt_put :: "'db \<Rightarrow> string \<Rightarrow> json \<Rightarrow> err + 'db"
  bolt_del :: "'db \<Rightarrow> string \<Rightarrow> err + 'db"
  bolt_foreach :: "'db \<Rightarrow> (string \<times> json) list"
  bolt_commit :: "'db \<Rightarrow> err option"  \<comment> \<open>why the transaction cannot be committed, if so\<close>
  bolt_close :: "'db \<Rightarrow> err option"

text \<open>
  \<^verbatim>\<open>db.Update\<close>: the function runs in a transaction that is committed when it returns nil and
  rolled back when it returns an error. \<^verbatim>\<open>db.View\<close> is a read-only transaction.
\<close>

definition bolt_Update :: "'db bolt \<Rightarrow> ('db \<Rightarrow> err + 'db) \<Rightarrow> 'db \<Rightarrow> unit outcome \<times> 'db" where
  "bolt_Update B f db =
     (case bolt_begin B db of
        Some e \<Rightarrow> (Err e, db)
      | None \<Rightarrow>
          (case f db of
             Inl e \<Rightarrow> (Err e, db)
           | Inr db' \<Rightarrow> (case bolt_commit B db' of Some e \<Rightarrow> (Err e, db) | None \<Rightarrow> (Ok (), db'))))"

section \<open>Buckets\<close>

record Bucket =
  b_Name :: string
  b_CreatedAt :: time

record BucketMeta =
  bm_Name :: string
  bm_Region :: string
  bm_CreatedAt :: time

definition enc_BucketMeta :: "BucketMeta \<Rightarrow> json" where
  "enc_BucketMeta m =
     JObj [(''name'', json_string (bm_Name m)), (''region'', json_string (bm_Region m)),
           (''created_at'', JTime (bm_CreatedAt m))]"

fun dec_BucketMeta :: "json \<Rightarrow> err + BucketMeta" where
  "dec_BucketMeta (JObj fs) =
     (case dec_string (json_field ''name'' fs) of Inl e \<Rightarrow> Inl e | Inr n \<Rightarrow>
      (case dec_string (json_field ''region'' fs) of Inl e \<Rightarrow> Inl e | Inr r \<Rightarrow>
       (case dec_time zero_time (json_field ''created_at'' fs) of Inl e \<Rightarrow> Inl e | Inr t \<Rightarrow>
        Inr \<lparr>bm_Name = n, bm_Region = r, bm_CreatedAt = t\<rparr>)))"
| "dec_BucketMeta JNull = Inr \<lparr>bm_Name = '''', bm_Region = '''', bm_CreatedAt = zero_time\<rparr>"
| "dec_BucketMeta _ = Inl type_error"

text \<open>\<^verbatim>\<open>OpenBucketDB\<close> on the contents of \<^verbatim>\<open><dataDir>/buckets.db\<close>.\<close>

definition OpenBucketDB :: "'db bolt \<Rightarrow> 'db \<Rightarrow> 'db outcome" where
  "OpenBucketDB B file =
     (case bolt_open B file of
        Inl e \<Rightarrow> Err (ErrWrap ''open bucket db'' e)
      | Inr db \<Rightarrow>
          (case bolt_Update B (bolt_create B) db of
             (Ok _, db') \<Rightarrow> Ok db'
           | (Err e, _) \<Rightarrow> Err (ErrWrap ''init bucket db'' e)
           | (Panic s, _) \<Rightarrow> Panic s))"

text \<open>\<^verbatim>\<open>json.Marshal\<close> cannot fail on a \<^verbatim>\<open>BucketMeta\<close>, so the branch for its error has no
  counterpart.\<close>

definition BucketDB_Create :: "'db bolt \<Rightarrow> time \<Rightarrow> string \<Rightarrow> string \<Rightarrow> 'db \<Rightarrow> unit outcome \<times> 'db" where
  "BucketDB_Create B now name region =
     bolt_Update B (\<lambda>db.
       if bolt_get B db name \<noteq> None then Inl ErrBucketExists
       else bolt_put B db name
              (enc_BucketMeta \<lparr>bm_Name = name, bm_Region = region, bm_CreatedAt = now\<rparr>))"

definition BucketDB_Delete :: "'db bolt \<Rightarrow> string \<Rightarrow> 'db \<Rightarrow> unit outcome \<times> 'db" where
  "BucketDB_Delete B name =
     bolt_Update B (\<lambda>db. if bolt_get B db name = None then Inl ErrNoBucket else bolt_del B db name)"

definition BucketDB_Get :: "'db bolt \<Rightarrow> string \<Rightarrow> 'db \<Rightarrow> Bucket outcome" where
  "BucketDB_Get B name db =
     (case bolt_begin B db of
        Some e \<Rightarrow> Err e
      | None \<Rightarrow>
          (case bolt_get B db name of
             None \<Rightarrow> Err ErrNoBucket
           | Some data \<Rightarrow>
               (case dec_BucketMeta data of
                  Inl e \<Rightarrow> Err e
                | Inr meta \<Rightarrow> Ok \<lparr>b_Name = bm_Name meta, b_CreatedAt = bm_CreatedAt meta\<rparr>)))"

text \<open>The walk of \<^verbatim>\<open>List\<close> stops at the first record that does not decode; what was collected
  before it is returned together with the error.\<close>

fun list_scan :: "(string \<times> json) list \<Rightarrow> Bucket list \<times> err option" where
  "list_scan [] = ([], None)"
| "list_scan ((k, v) # r) =
     (case dec_BucketMeta v of
        Inl e \<Rightarrow> ([], Some e)
      | Inr meta \<Rightarrow>
          (case list_scan r of (out, e) \<Rightarrow>
             (\<lparr>b_Name = bm_Name meta, b_CreatedAt = bm_CreatedAt meta\<rparr> # out, e)))"

definition BucketDB_List :: "'db bolt \<Rightarrow> 'db \<Rightarrow> Bucket list \<times> err option" where
  "BucketDB_List B db =
     (case bolt_begin B db of Some e \<Rightarrow> ([], Some e) | None \<Rightarrow> list_scan (bolt_foreach B db))"

definition BucketDB_Close :: "'db bolt \<Rightarrow> 'db \<Rightarrow> unit outcome" where
  "BucketDB_Close B db = (case bolt_close B db of None \<Rightarrow> Ok () | Some e \<Rightarrow> Err e)"

text \<open>A database all of whose records were written by \<^verbatim>\<open>Create\<close> under a valid name.\<close>

definition bucket_record :: "string \<Rightarrow> json \<Rightarrow> bool" where
  "bucket_record k j =
     (valid_utf8 k \<and>
      (case dec_BucketMeta j of Inl _ \<Rightarrow> False | Inr m \<Rightarrow> bm_Name m = k))"

definition db_wf :: "'db bolt \<Rightarrow> 'db \<Rightarrow> bool" where
  "db_wf B db = (\<forall>(k, j) \<in> set (bolt_foreach B db). bucket_record k j)"

definition bucket_names :: "'db bolt \<Rightarrow> 'db \<Rightarrow> string set" where
  "bucket_names B db = fst ` set (bolt_foreach B db)"

text \<open>
  A database whose file is an association list, read in key order: a blank key and a key of more
  than 32768 bytes are refused, as bbolt documents, and nothing else fails.
\<close>

fun ordered_put :: "string \<Rightarrow> json \<Rightarrow> (string, json) gomap \<Rightarrow> (string, json) gomap" where
  "ordered_put k v [] = [(k, v)]"
| "ordered_put k v ((k', v') # r) =
     (if k < k' then (k, v) # (k', v') # r
      else if k = k' then (k, v) # r
      else (k', v') # ordered_put k v r)"

definition ordered_entries :: "(string, json) gomap \<Rightarrow> (string, json) gomap" where
  "ordered_entries m = foldr (\<lambda>(k, v). ordered_put k v) m []"

definition alist_bolt :: "(string, json) gomap bolt" where
  "alist_bolt =
     \<lparr>bolt_open = Inr, bolt_create = Inr, bolt_begin = (\<lambda>_. None), bolt_get = map_of,
      bolt_put = (\<lambda>db k v. if k = [] then Inl (ErrText ''key required'')
                           else if 32768 < length k then Inl (ErrText ''key too large'')
                           else Inr (AList.update k v db)),
      bolt_del = (\<lambda>db k. Inr (AList.delete k db)),
      bolt_foreach = ordered_entries, bolt_commit = (\<lambda>_. None), bolt_close = (\<lambda>_. None)\<rparr>"

section \<open>Contracts\<close>

locale bolt_kv =
  fixes B :: "'db bolt"
  assumes put_get: "bolt_put B db k v = Inr db' \<Longrightarrow>
      bolt_get B db' k' = (if k' = k then Some v else bolt_get B db k')"
    and del_get: "bolt_del B db k = Inr db' \<Longrightarrow>
      bolt_get B db' k' = (if k' = k then None else bolt_get B db k')"
    and foreach_get: "bolt_get B db = map_of (bolt_foreach B db)"
    and foreach_sorted: "sorted_wrt (<) (map fst (bolt_foreach B db))"
    and open_get: "bolt_open B db = Inr db' \<Longrightarrow> bolt_get B db' = bolt_get B db"
    and create_get: "bolt_create B db = Inr db' \<Longrightarrow> bolt_get B db' = bolt_get B db"

begin

lemma names_get: "n \<in> bucket_names B db \<longleftrightarrow> bolt_get B db n \<noteq> None"
  by (metis bucket_names_def domIff dom_map_of_conv_image_fst foreach_get)

lemma foreach_distinct: "distinct (map fst (bolt_foreach B db))"
  using foreach_sorted [of db] by (metis strict_sorted_iff)

lemma wf_get: "db_wf B db \<longleftrightarrow> (\<forall>k j. bolt_get B db k = Some j \<longrightarrow> bucket_record k j)"
  using foreach_distinct [of db] by (auto simp: db_wf_def foreach_get map_of_eq_Some_iff)

end

text \<open>What the metadata store relies on: a registry of bucket names that persists.\<close>

locale bucket_registry =
  fixes wf :: "'db \<Rightarrow> bool"
    and names :: "'db \<Rightarrow> string set"
    and create :: "time \<Rightarrow> string \<Rightarrow> string \<Rightarrow> 'db \<Rightarrow> unit outcome \<times> 'db"
    and delete :: "string \<Rightarrow> 'db \<Rightarrow> unit outcome \<times> 'db"
    and get :: "string \<Rightarrow> 'db \<Rightarrow> Bucket outcome"
    and list :: "'db \<Rightarrow> Bucket list \<times> err option"
  assumes create_ok: "create t n r db = (Ok u, db') \<Longrightarrow>
      n \<notin> names db \<and> names db' = insert n (names db) \<and> (wf db \<longrightarrow> valid_utf8 n \<longrightarrow> wf db')"
    and create_dup: "n \<in> names db \<Longrightarrow> \<exists>e. create t n r db = (Err e, db)"
    and create_fail: "create t n r db = (x, db') \<Longrightarrow> x \<noteq> Ok () \<Longrightarrow> db' = db \<and> (\<exists>e. x = Err e)"
    and delete_ok: "delete n db = (Ok u, db') \<Longrightarrow>
      n \<in> names db \<and> names db' = names db - {n} \<and> (wf db \<longrightarrow> wf db')"
    and delete_missing: "n \<notin> names db \<Longrightarrow> \<exists>e. delete n db = (Err e, db)"
    and delete_fail: "delete n db = (x, db') \<Longrightarrow> x \<noteq> Ok () \<Longrightarrow> db' = db \<and> (\<exists>e. x = Err e)"
    and get_ok: "wf db \<Longrightarrow> get n db = Ok b \<Longrightarrow> n \<in> names db \<and> b_Name b = n"
    and list_ok: "wf db \<Longrightarrow> list db = (bs, None) \<Longrightarrow>
      set (map b_Name bs) = names db \<and> sorted_wrt (<) (map b_Name bs)"
begin

text \<open>A bucket that was just created can be deleted only once, and leaves the registry as it was.\<close>

lemma create_delete_names:
  assumes "create t n r db = (Ok u, db1)" and "delete n db1 = (Ok v, db2)"
  shows "names db2 = names db \<and> (\<exists>e. delete n db2 = (Err e, db2))"
proof -
  have "n \<notin> names db" and "names db1 = insert n (names db)"
    using create_ok [OF assms(1)] by auto
  moreover have "names db2 = names db1 - {n}"
    using delete_ok [OF assms(2)] by auto
  ultimately show ?thesis
    using delete_missing [of n db2] by auto
qed

end

section \<open>The operations keep the contract\<close>

named_theorems bucketdb_defs \<open>the operations of BucketDB\<close>

declare bolt_Update_def [bucketdb_defs] BucketDB_Create_def [bucketdb_defs]
  BucketDB_Delete_def [bucketdb_defs] BucketDB_Get_def [bucketdb_defs] BucketDB_List_def [bucketdb_defs]

lemma dec_enc_BucketMeta:
  "dec_BucketMeta (enc_BucketMeta m) =
     Inr (m\<lparr>bm_Name := utf8_coerce (bm_Name m), bm_Region := utf8_coerce (bm_Region m)\<rparr>)"
  by (simp add: enc_BucketMeta_def json_field_def json_string_def)

lemma bucket_record_enc:
  "valid_utf8 n \<Longrightarrow> bucket_record n (enc_BucketMeta \<lparr>bm_Name = n, bm_Region = r, bm_CreatedAt = t\<rparr>)"
  by (simp add: bucket_record_def dec_enc_BucketMeta valid_utf8_def)

lemma list_scan_records:
  assumes "\<forall>(k, j) \<in> set es. bucket_record k j"
  shows "snd (list_scan es) = None \<and> map b_Name (fst (list_scan es)) = map fst es"
  using assms
  by (induction es rule: list_scan.induct)
    (auto simp: bucket_record_def split: sum.splits prod.splits)

lemma bolt_Update_cases:
  assumes "bolt_Update B f db = (x, db')"
  shows "(x = Ok () \<and> f db = Inr db') \<or> (db' = db \<and> (\<exists>e. x = Err e))"
  using assms by (auto simp: bolt_Update_def split: option.splits sum.splits)

context bolt_kv
begin

lemma Create_Ok:
  assumes "BucketDB_Create B t n r db = (Ok u, db')"
  shows "n \<notin> bucket_names B db" "bucket_names B db' = insert n (bucket_names B db)"
    "db_wf B db \<Longrightarrow> valid_utf8 n \<Longrightarrow> db_wf B db'"
proof -
  from bolt_Update_cases [OF assms [unfolded BucketDB_Create_def]]
  have free: "bolt_get B db n = None" and put: "bolt_put B db n
      (enc_BucketMeta \<lparr>bm_Name = n, bm_Region = r, bm_CreatedAt = t\<rparr>) = Inr db'"
    by (auto split: if_splits)
  note get = put_get [OF put]
  show "n \<notin> bucket_names B db" using free by (simp add: names_get)
  show "bucket_names B db' = insert n (bucket_names B db)"
    by (auto simp: names_get get split: if_splits)
  show "db_wf B db \<Longrightarrow> valid_utf8 n \<Longrightarrow> db_wf B db'"
    by (simp add: wf_get get bucket_record_enc)
qed

lemma Delete_Ok:
  assumes "BucketDB_Delete B n db = (Ok u, db')"
  shows "n \<in> bucket_names B db" "bucket_names B db' = bucket_names B db - {n}"
    "db_wf B db \<Longrightarrow> db_wf B db'"
proof -
  from bolt_Update_cases [OF assms [unfolded BucketDB_Delete_def]]
  have present: "bolt_get B db n \<noteq> None" and del: "bolt_del B db n = Inr db'"
    by (auto split: if_splits)
  note get = del_get [OF del]
  show "n \<in> bucket_names B db" using present by (simp add: names_get)
  show "bucket_names B db' = bucket_names B db - {n}"
    by (auto simp: names_get get split: if_splits)
  show "db_wf B db \<Longrightarrow> db_wf B db'"
    by (simp add: wf_get get)
qed

lemma List_wf:
  assumes "db_wf B db" and "BucketDB_List B db = (bs, None)"
  shows "map b_Name bs = map fst (bolt_foreach B db)"
proof -
  have "list_scan (bolt_foreach B db) = (bs, None)"
    using assms(2) by (auto simp: BucketDB_List_def split: option.splits)
  then show ?thesis
    using list_scan_records [OF assms(1) [unfolded db_wf_def]] by simp
qed

end

sublocale bolt_kv \<subseteq> registry: bucket_registry "db_wf B" "bucket_names B"
    "BucketDB_Create B" "BucketDB_Delete B" "BucketDB_Get B" "BucketDB_List B"
proof (unfold_locales, goal_cases)
  case (1 t n r db u db')
  then show ?case using Create_Ok by blast
next
  case (2 n db t r)
  then have "bolt_get B db n \<noteq> None" by (simp add: names_get)
  then show ?case by (cases "bolt_begin B db") (simp_all add: bucketdb_defs)
next
  case (3 t n r db x db')
  then show ?case using bolt_Update_cases [OF 3(1) [unfolded BucketDB_Create_def]] by auto
next
  case (4 n db u db')
  then show ?case using Delete_Ok by blast
next
  case (5 n db)
  then have "bolt_get B db n = None" by (simp add: names_get)
  then show ?case by (cases "bolt_begin B db") (simp_all add: bucketdb_defs)
next
  case (6 n db x db')
  then show ?case using bolt_Update_cases [OF 6(1) [unfolded BucketDB_Delete_def]] by auto
next
  case (7 db n b)
  then show ?case
    by (auto simp: wf_get names_get BucketDB_Get_def bucket_record_def
        split: option.splits sum.splits)
next
  case (8 db bs)
  then show ?case
    using List_wf [OF 8] foreach_sorted by (simp add: bucket_names_def)
qed

section \<open>The association-list database\<close>

lemma map_of_ordered_put: "map_of (ordered_put k v m) = (map_of m)(k \<mapsto> v)"
  by (induction m rule: ordered_put.induct) (auto simp: fun_eq_iff)

lemma ordered_put_keys: "fst ` set (ordered_put k v m) = insert k (fst ` set m)"
  by (induction k v m rule: ordered_put.induct) auto

lemma sorted_ordered_put:
  "sorted_wrt (<) (map fst m) \<Longrightarrow> sorted_wrt (<) (map fst (ordered_put k v m))"
proof (induction k v m rule: ordered_put.induct)
  case (1 k v)
  then show ?case by simp
next
  case (2 k v k' v' r)
  have "\<forall>x \<in> fst ` set (ordered_put k v r). k' < x" if "k' < k"
    using that 2(2) by (simp add: ordered_put_keys)
  with 2 show ?case by auto
qed

lemma map_of_ordered_entries [simp]: "map_of (ordered_entries m) = map_of m"
  by (induction m) (auto simp: ordered_entries_def map_of_ordered_put)

lemma sorted_ordered_entries: "sorted_wrt (<) (map fst (ordered_entries m))"
  by (induction m) (auto simp: ordered_entries_def intro: sorted_ordered_put)

interpretation alist: bolt_kv alist_bolt
  by unfold_locales
    (auto simp: alist_bolt_def sorted_ordered_entries split: if_splits)

end
