(* ===== verification/GoTime.thy ===== *)
theory GoTime
  imports Prelude
begin

text \<open>
  \<^verbatim>\<open>time.Time.Format(time.RFC3339)\<close>, the only rendering of a time the server uses, for a
  server whose local zone is UTC. A time is its number of nanoseconds since
  1970-01-01T00:00:00Z.
\<close>

section \<open>Calendar\<close>

text \<open>Year, month and day of a day number in the proleptic Gregorian calendar, counted in
  400-year eras that begin on 1 March.\<close>

definition civil_from_days :: "int \<Rightarrow> int \<times> int \<times> int" where
  "civil_from_days days =
     (let z = days + 719468;
          era = z div 146097;
          doe = z mod 146097;
          yoe = (doe - doe div 1460 + doe div 36524 - doe div 146096) div 365;
          doy = doe - (365 * yoe + yoe div 4 - yoe div 100);
          mp = (5 * doy + 2) div 153;
          d = doy - (153 * mp + 2) div 5 + 1;
          m = (if mp < 10 then mp + 3 else mp - 9);
          y = yoe + era * 400 + (if m \<le> 2 then 1 else 0)
      in (y, m, d))"

definition pad_left :: "nat \<Rightarrow> string \<Rightarrow> string" where
  "pad_left n s = replicate (n - length s) (CHR ''0'') @ s"

definition pad_int :: "nat \<Rightarrow> int \<Rightarrow> string" where
  "pad_int n i = pad_left n (nat_digits (nat i))"

definition nanos_per_day :: int where
  "nanos_per_day = 86400 * 10 ^ 9"

definition format_RFC3339 :: "time \<Rightarrow> string" where
  "format_RFC3339 t =
     (let secs = (t mod nanos_per_day) div 10 ^ 9
      in case civil_from_days (t div nanos_per_day) of (y, m, d) \<Rightarrow>
           pad_int 4 y @ ''-'' @ pad_int 2 m @ ''-'' @ pad_int 2 d @ ''T'' @
           pad_int 2 (secs div 3600) @ '':'' @ pad_int 2 (secs div 60 mod 60) @ '':'' @
           pad_int 2 (secs mod 60) @ ''Z'')"

end
