(* ===== verification/MetaStore.thy ===== *)
theory MetaStore
  imports BucketDB GoTime
begin

text \<open>
  The metadata store (\<^verbatim>\<open>internal/store/meta.go\<close>): bucket names in the database, a cache of
  them, and for every bucket and key the list of versions of the object, oldest first. The methods
  run under the store's lock, so each is one function of the state. A Go map is an association
  list whose order is the order an iteration happens to take; the listing functions are proved not
  to depend on it. \<^verbatim>\<open>time.Now()\<close> is the argument \<open>now\<close>.
\<close>

section \<open>Data\<close>

record ObjectMeta =
  om_Key :: string
  om_Size :: i64
  om_ETag :: string
  om_ContentType :: string
  om_Sha256 :: string
  om_CreatedAt :: time
  om_VersionID :: string
  om_IsDeleteMarker :: bool

text \<open>The one-field struct \<^verbatim>\<open>versionEntry\<close> is its field.\<close>

record versionState =
  vs_Versions :: "ObjectMeta list"
  vs_Current :: int
  vs_NextID :: i64

type_synonym keyspace = "(string, versionState) gomap"

record 'db MetaStore =
  ms_buckets :: 'db
  ms_cache :: "(string, bool) gomap"
  ms_objects :: "(string, keyspace) gomap"
  ms_region :: string

definition newVersionState :: versionState where
  "newVersionState = \<lparr>vs_Versions = [], vs_Current = 0, vs_NextID = 1\<rparr>"

definition zero_meta :: ObjectMeta where
  "zero_meta =
     \<lparr>om_Key = '''', om_Size = 0, om_ETag = '''', om_ContentType = '''', om_Sha256 = '''',
      om_CreatedAt = zero_time, om_VersionID = '''', om_IsDeleteMarker = False\<rparr>"

section \<open>Construction and buckets\<close>

definition cache_of :: "Bucket list \<Rightarrow> (string, bool) gomap" where
  "cache_of bs = foldl (\<lambda>c b. AList.update (b_Name b) True c) [] bs"

definition NewMetaStore :: "'db bolt \<Rightarrow> 'db \<Rightarrow> 'db MetaStore outcome" where
  "NewMetaStore B file =
     (case OpenBucketDB B file of
        Ok bdb \<Rightarrow> Ok \<lparr>ms_buckets = bdb, ms_cache = cache_of (fst (BucketDB_List B bdb)),
                      ms_objects = [], ms_region = ''''\<rparr>
      | Err e \<Rightarrow> Err e
      | Panic s \<Rightarrow> Panic s)"

definition ms_SetRegion :: "string \<Rightarrow> 'db MetaStore \<Rightarrow> 'db MetaStore" where
  "ms_SetRegion r m = m\<lparr>ms_region := r\<rparr>"

definition ms_CreateBucket :: "'db bolt \<Rightarrow> time \<Rightarrow> string \<Rightarrow> 'db MetaStore
    \<Rightarrow> unit outcome \<times> 'db MetaStore" where
  "ms_CreateBucket B now name m =
     (case BucketDB_Create B now name (ms_region m) (ms_buckets m) of
        (Ok _, db) \<Rightarrow>
          (Ok (), m\<lparr>ms_buckets := db, ms_cache := AList.update name True (ms_cache m),
                    ms_objects := AList.update name [] (ms_objects m)\<rparr>)
      | (x, db) \<Rightarrow> (x, m\<lparr>ms_buckets := db\<rparr>))"

definition ms_DeleteBucket :: "'db bolt \<Rightarrow> string \<Rightarrow> 'db MetaStore
    \<Rightarrow> unit outcome \<times> 'db MetaStore" where
  "ms_DeleteBucket B name m =
     (case BucketDB_Delete B name (ms_buckets m) of
        (Ok _, db) \<Rightarrow>
          (Ok (), m\<lparr>ms_buckets := db, ms_cache := AList.delete name (ms_cache m),
                    ms_objects := AList.delete name (ms_objects m)\<rparr>)
      | (x, db) \<Rightarrow> (x, m\<lparr>ms_buckets := db\<rparr>))"

definition ms_GetBucket :: "'db bolt \<Rightarrow> string \<Rightarrow> 'db MetaStore \<Rightarrow> Bucket outcome" where
  "ms_GetBucket B name m = BucketDB_Get B name (ms_buckets m)"

definition ms_ListBuckets :: "'db bolt \<Rightarrow> 'db MetaStore \<Rightarrow> Bucket list" where
  "ms_ListBuckets B m = fst (BucketDB_List B (ms_buckets m))"

section \<open>Objects\<close>

definition set_keys :: "string \<Rightarrow> keyspace \<Rightarrow> 'db MetaStore \<Rightarrow> 'db MetaStore" where
  "set_keys bucket ks m = m\<lparr>ms_objects := AList.update bucket ks (ms_objects m)\<rparr>"

text \<open>The common tail of \<^verbatim>\<open>PutObject\<close> and of the delete marker: take the next identifier, append
  the version, make it current.\<close>

definition append_version :: "ObjectMeta \<Rightarrow> versionState \<Rightarrow> string \<times> versionState" where
  "append_version meta vs =
     (let vid = FormatInt (sint (vs_NextID vs));
          versions = vs_Versions vs @ [meta\<lparr>om_VersionID := vid\<rparr>]
      in (vid, vs\<lparr>vs_Versions := versions, vs_Current := int (length versions) - 1,
                  vs_NextID := vs_NextID vs + 1\<rparr>))"

text \<open>When the bucket is in the cache but has no map of keys, the read of \<^verbatim>\<open>m.objects[bucket][key]\<close>
  finds nothing and the write that follows is to a nil map.\<close>

definition ms_PutObject :: "string \<Rightarrow> string \<Rightarrow> ObjectMeta \<Rightarrow> 'db MetaStore
    \<Rightarrow> string outcome \<times> 'db MetaStore" where
  "ms_PutObject bucket key meta m =
     (if \<not> map_bool (ms_cache m) bucket then (Err ErrNoBucket, m)
      else case map_of (ms_objects m) bucket of
        None \<Rightarrow> (Panic ''assignment to entry in nil map'', m)
      | Some ks \<Rightarrow>
          (let vs = (case map_of ks key of Some vs \<Rightarrow> vs | None \<Rightarrow> newVersionState)
           in case append_version meta vs of
                (vid, vs') \<Rightarrow> (Ok vid, set_keys bucket (AList.update key vs' ks) m)))"

text \<open>The loop over the versions: the first index whose version has the identifier.\<close>

fun find_version :: "string \<Rightarrow> ObjectMeta list \<Rightarrow> nat option" where
  "find_version vid [] = None"
| "find_version vid (v # vs) =
     (if om_VersionID v = vid then Some 0 else map_option Suc (find_version vid vs))"

definition ms_GetObject :: "string \<Rightarrow> string \<Rightarrow> string \<Rightarrow> 'db MetaStore \<Rightarrow> ObjectMeta outcome" where
  "ms_GetObject bucket key versionID m =
     (case map_of (ms_objects m) bucket of
        None \<Rightarrow> Err ErrNoKey
      | Some ks \<Rightarrow>
          (case map_of ks key of
             None \<Rightarrow> Err ErrNoKey
           | Some vst \<Rightarrow>
               if versionID \<noteq> '''' then
                 (case find_version versionID (vs_Versions vst) of
                    Some i \<Rightarrow> Ok (vs_Versions vst ! i)
                  | None \<Rightarrow> Err ErrNoKey)
               else if vs_Current vst < 0 \<or> int (length (vs_Versions vst)) \<le> vs_Current vst then
                 Err ErrNoKey
               else if om_IsDeleteMarker (vs_Versions vst ! nat (vs_Current vst)) then Err ErrNoKey
               else Ok (vs_Versions vst ! nat (vs_Current vst))))"

text \<open>
  \<^verbatim>\<open>GetObjectVersion\<close> returns a pointer to a cell of the backing array of \<^verbatim>\<open>Versions\<close>. The
  position of the cell is kept beside its contents, because a caller reads the pointer again after
  the array has been changed in place.
\<close>

definition ms_GetObjectVersion_ptr :: "string \<Rightarrow> string \<Rightarrow> string \<Rightarrow> 'db MetaStore
    \<Rightarrow> (nat \<times> ObjectMeta) outcome" where
  "ms_GetObjectVersion_ptr bucket key versionID m =
     (case map_of (ms_objects m) bucket of
        None \<Rightarrow> Err ErrNoKey
      | Some ks \<Rightarrow>
          (case map_of ks key of
             None \<Rightarrow> Err ErrNoKey
           | Some vst \<Rightarrow>
               (case find_version versionID (vs_Versions vst) of
                  Some i \<Rightarrow> Ok (i, vs_Versions vst ! i)
                | None \<Rightarrow> Err ErrNoKey)))"

definition ms_GetObjectVersion :: "string \<Rightarrow> string \<Rightarrow> string \<Rightarrow> 'db MetaStore
    \<Rightarrow> ObjectMeta outcome" where
  "ms_GetObjectVersion bucket key versionID m =
     (case ms_GetObjectVersion_ptr bucket key versionID m of
        Ok (i, meta) \<Rightarrow> Ok meta | Err e \<Rightarrow> Err e | Panic s \<Rightarrow> Panic s)"

definition ms_IsDeleteMarker :: "string \<Rightarrow> string \<Rightarrow> string \<Rightarrow> 'db MetaStore \<Rightarrow> bool" where
  "ms_IsDeleteMarker bucket key versionID m =
     (case ms_GetObjectVersion bucket key versionID m of Ok meta \<Rightarrow> om_IsDeleteMarker meta | _ \<Rightarrow> False)"

text \<open>Removal of the version at index \<open>i\<close>; a key without versions leaves the map.\<close>

definition remove_version :: "string \<Rightarrow> nat \<Rightarrow> versionState \<Rightarrow> keyspace \<Rightarrow> keyspace" where
  "remove_version key i vst ks =
     (let versions = slice_delete (vs_Versions vst) i
      in if versions = [] then AList.delete key ks
         else AList.update key
                (vst\<lparr>vs_Versions := versions, vs_Current := int (length versions) - 1\<rparr>) ks)"

definition delete_marker :: "string \<Rightarrow> time \<Rightarrow> ObjectMeta" where
  "delete_marker key now =
     zero_meta\<lparr>om_Key := key, om_IsDeleteMarker := True, om_CreatedAt := now\<rparr>"

definition ms_DeleteObject :: "time \<Rightarrow> string \<Rightarrow> string \<Rightarrow> string \<Rightarrow> 'db MetaStore
    \<Rightarrow> string outcome \<times> 'db MetaStore" where
  "ms_DeleteObject now bucket key versionID m =
     (if \<not> map_bool (ms_cache m) bucket then (Err ErrNoBucket, m)
      else case map_of (ms_objects m) bucket of
        None \<Rightarrow> (Err ErrNoKey, m)
      | Some ks \<Rightarrow>
          (case map_of ks key of
             None \<Rightarrow> (Err ErrNoKey, m)
           | Some vst \<Rightarrow>
               if versionID \<noteq> '''' then
                 (case find_version versionID (vs_Versions vst) of
                    Some i \<Rightarrow> (Ok '''', set_keys bucket (remove_version key i vst ks) m)
                  | None \<Rightarrow> (Err ErrNoKey, m))
               else
                 (case append_version (delete_marker key now) vst of
                    (vid, vst') \<Rightarrow> (Ok vid, set_keys bucket (AList.update key vst' ks) m))))"

definition ms_DeleteObjectLegacy :: "time \<Rightarrow> string \<Rightarrow> string \<Rightarrow> 'db MetaStore
    \<Rightarrow> unit outcome \<times> 'db MetaStore" where
  "ms_DeleteObjectLegacy now bucket key m =
     (case ms_DeleteObject now bucket key '''' m of
        (Ok _, m') \<Rightarrow> (Ok (), m') | (Err e, m') \<Rightarrow> (Err e, m') | (Panic s, m') \<Rightarrow> (Panic s, m'))"

section \<open>Well-formed states and what they mean\<close>

text \<open>The number of a version, read back from its identifier.\<close>

definition version_num :: "ObjectMeta \<Rightarrow> int" where
  "version_num v = int (digits_val (om_VersionID v))"

text \<open>Identifiers are decimal numbers, they grow along the list and stay below the next one.\<close>

definition vs_numbered :: "string \<Rightarrow> versionState \<Rightarrow> bool" where
  "vs_numbered key vs =
     (0 < sint (vs_NextID vs) \<and> sorted_wrt (<) (map version_num (vs_Versions vs)) \<and>
      (\<forall>v \<in> set (vs_Versions vs). om_Key v = key \<and> om_VersionID v = FormatInt (version_num v) \<and>
         0 < version_num v \<and> version_num v < sint (vs_NextID vs)))"

definition vs_wf :: "string \<Rightarrow> versionState \<Rightarrow> bool" where
  "vs_wf key vs =
     (vs_numbered key vs \<and> vs_Versions vs \<noteq> [] \<and>
      vs_Current vs = int (length (vs_Versions vs)) - 1)"

definition keys_wf :: "keyspace \<Rightarrow> bool" where
  "keys_wf ks = (distinct (map fst ks) \<and> (\<forall>(k, vs) \<in> set ks. vs_wf k vs))"

definition ms_wf :: "'db MetaStore \<Rightarrow> bool" where
  "ms_wf m = (distinct (map fst (ms_objects m)) \<and> (\<forall>(b, ks) \<in> set (ms_objects m). keys_wf ks))"

text \<open>The abstract state: the history of every key, oldest version first.\<close>

definition key_history :: "keyspace \<Rightarrow> string \<Rightarrow> ObjectMeta list" where
  "key_history ks k = (case map_of ks k of None \<Rightarrow> [] | Some vs \<Rightarrow> vs_Versions vs)"

definition ms_history :: "'db MetaStore \<Rightarrow> string \<Rightarrow> string \<Rightarrow> ObjectMeta list" where
  "ms_history m b k = (case map_of (ms_objects m) b of None \<Rightarrow> [] | Some ks \<Rightarrow> key_history ks k)"

text \<open>A bucket takes writes when it is cached and has its map of keys; a key has room while its
  64-bit counter has not reached the largest value.\<close>

definition ms_writable :: "'db MetaStore \<Rightarrow> string \<Rightarrow> bool" where
  "ms_writable m b = (map_bool (ms_cache m) b \<and> map_of (ms_objects m) b \<noteq> None)"

definition key_next :: "keyspace \<Rightarrow> string \<Rightarrow> int" where
  "key_next ks k = (case map_of ks k of None \<Rightarrow> 1 | Some vs \<Rightarrow> sint (vs_NextID vs))"

definition ms_next :: "'db MetaStore \<Rightarrow> string \<Rightarrow> string \<Rightarrow> int" where
  "ms_next m b k = (case map_of (ms_objects m) b of None \<Rightarrow> 1 | Some ks \<Rightarrow> key_next ks k)"

definition ms_room :: "'db MetaStore \<Rightarrow> string \<Rightarrow> string \<Rightarrow> bool" where
  "ms_room m b k = (ms_next m b k < 2 ^ 63 - 1)"

section \<open>Lemmas on version lists\<close>

lemma find_version_Some:
  "find_version vid vs = Some i \<Longrightarrow> i < length vs \<and> om_VersionID (vs ! i) = vid"
  by (induction vs arbitrary: i) (auto split: if_splits)

lemma find_version_None: "find_version vid vs = None \<longleftrightarrow> vid \<notin> om_VersionID ` set vs"
  by (induction vs) auto

lemma find_version_find:
  "map_option ((!) vs) (find_version vid vs) = find (\<lambda>v. om_VersionID v = vid) vs"
  by (induction vs) (auto simp: option.map_comp comp_def)

lemma find_version_first:
  "find_version vid vs = Some i \<Longrightarrow> find (\<lambda>v. om_VersionID v = vid) vs = Some (vs ! i)"
  by (simp flip: find_version_find)

lemma find_version_nth:
  assumes "distinct (map om_VersionID vs)" and "i < length vs"
  shows "find_version (om_VersionID (vs ! i)) vs = Some i"
  using assms
proof (induction vs arbitrary: i)
  case Nil
  then show ?case by simp
next
  case (Cons v vs)
  then show ?case by (cases i) (auto simp: image_iff)
qed

lemma slice_delete_filter:
  assumes "distinct (map om_VersionID vs)" and "find_version vid vs = Some i"
  shows "slice_delete vs i = filter (\<lambda>v. om_VersionID v \<noteq> vid) vs"
proof -
  have i: "i < length vs" and id: "om_VersionID (vs ! i) = vid"
    using find_version_Some [OF assms(2)] by auto
  have split: "vs = take i vs @ vs ! i # drop (Suc i) vs"
    using i by (rule id_take_nth_drop)
  have "distinct (map om_VersionID (take i vs) @ vid # map om_VersionID (drop (Suc i) vs))"
    using assms(1) id split by (metis list.map(2) map_append)
  then have "\<forall>v \<in> set (take i vs) \<union> set (drop (Suc i) vs). om_VersionID v \<noteq> vid"
    by auto
  then have "filter (\<lambda>v. om_VersionID v \<noteq> vid) (take i vs @ vs ! i # drop (Suc i) vs) =
      take i vs @ drop (Suc i) vs"
    using id by (simp add: filter_id_conv)
  then show ?thesis using i split by simp
qed

lemma find_filter_other:
  "v \<noteq> vid \<Longrightarrow> find (\<lambda>x. om_VersionID x = v) (filter (\<lambda>x. om_VersionID x \<noteq> vid) xs) =
     find (\<lambda>x. om_VersionID x = v) xs"
  by (induction xs) auto

lemma version_num_FormatInt:
  "0 \<le> n \<Longrightarrow> version_num (meta\<lparr>om_VersionID := FormatInt n\<rparr>) = n"
  by (simp add: version_num_def FormatInt_def)

lemma vs_numbered_distinct:
  assumes "vs_numbered key vs"
  shows "distinct (map om_VersionID (vs_Versions vs))"
proof -
  have "distinct (map version_num (vs_Versions vs))"
    using assms by (auto simp: vs_numbered_def strict_sorted_iff)
  then have "distinct (map (\<lambda>v. FormatInt (version_num v)) (vs_Versions vs))"
    by (simp add: distinct_map inj_on_def)
  also have "map (\<lambda>v. FormatInt (version_num v)) (vs_Versions vs) = map om_VersionID (vs_Versions vs)"
    using assms by (auto simp: vs_numbered_def)
  finally show ?thesis .
qed

lemma vs_numbered_new: "vs_numbered key newVersionState"
  by (simp add: vs_numbered_def newVersionState_def)

lemma vs_wfD: "vs_wf key vs \<Longrightarrow> vs_numbered key vs"
  by (simp add: vs_wf_def)

lemma append_version_eq:
  "append_version meta vs =
     (FormatInt (sint (vs_NextID vs)),
      vs\<lparr>vs_Versions := vs_Versions vs @ [meta\<lparr>om_VersionID := FormatInt (sint (vs_NextID vs))\<rparr>],
         vs_Current := int (length (vs_Versions vs)), vs_NextID := vs_NextID vs + 1\<rparr>)"
  by (simp add: append_version_def Let_def)

lemma sint_next: "sint w < 2 ^ 63 - 1 \<Longrightarrow> sint (w + 1 :: i64) = sint w + 1"
  using sint_ge [of w] by (simp add: sint_word_ariths signed_take_bit_int_eq_self)

lemma append_version_wf:
  assumes "vs_numbered key vs" and "om_Key meta = key" and "sint (vs_NextID vs) < 2 ^ 63 - 1"
  shows "vs_wf key (snd (append_version meta vs))"
proof -
  let ?n = "sint (vs_NextID vs)"
  have "0 < ?n" using assms(1) by (simp add: vs_numbered_def)
  then have num: "version_num (meta\<lparr>om_VersionID := FormatInt ?n\<rparr>) = ?n"
    by (simp add: version_num_FormatInt)
  show ?thesis
    using assms \<open>0 < ?n\<close>
    by (auto simp: vs_wf_def vs_numbered_def append_version_eq num sint_next sorted_wrt_append)
qed

lemma remove_version_wf:
  assumes "vs_wf key vs" and "i < length (vs_Versions vs)"
    and "versions = slice_delete (vs_Versions vs) i" and "versions \<noteq> []"
  shows "vs_wf key (vs\<lparr>vs_Versions := versions, vs_Current := int (length versions) - 1\<rparr>)"
proof -
  have eq: "versions = take i (vs_Versions vs) @ drop (Suc i) (vs_Versions vs)"
    using assms(2,3) by simp
  have num: "vs_numbered key vs" using assms(1) by (rule vs_wfD)
  have "set versions \<subseteq> set (vs_Versions vs)"
    unfolding eq by (auto dest: in_set_takeD in_set_dropD)
  moreover have "sorted_wrt (<) (map version_num versions)"
  proof -
    have "sorted_wrt (<) (map version_num (vs_Versions vs))"
      using num by (simp add: vs_numbered_def)
    then have "sorted_wrt (<) (map version_num (take i (vs_Versions vs) @
        vs_Versions vs ! i # drop (Suc i) (vs_Versions vs)))"
      using id_take_nth_drop [OF assms(2)] by metis
    then show ?thesis by (auto simp: eq sorted_wrt_append)
  qed
  ultimately show ?thesis
    using num assms(4) by (auto simp: vs_wf_def vs_numbered_def)
qed

section \<open>Lemmas on the maps\<close>

lemma set_update_subset: "set (AList.update k v m) \<subseteq> insert (k, v) (set m)"
  by (induction m) auto

lemma set_delete_subset: "set (AList.delete k m) \<subseteq> set m"
  by (auto simp: AList.delete_eq)

lemma keys_wf_update: "keys_wf ks \<Longrightarrow> vs_wf k vs \<Longrightarrow> keys_wf (AList.update k vs ks)"
  using set_update_subset [of k vs ks] by (auto simp: keys_wf_def)

lemma keys_wf_delete: "keys_wf ks \<Longrightarrow> keys_wf (AList.delete k ks)"
  using set_delete_subset [of k ks] by (auto simp: keys_wf_def)

lemma keys_wf_lookup: "keys_wf ks \<Longrightarrow> map_of ks k = Some vs \<Longrightarrow> vs_wf k vs"
  by (auto simp: keys_wf_def dest!: map_of_SomeD)

lemma keys_wf_Nil [simp]: "keys_wf []"
  by (simp add: keys_wf_def)

lemma ms_wf_lookup: "ms_wf m \<Longrightarrow> map_of (ms_objects m) b = Some ks \<Longrightarrow> keys_wf ks"
  by (auto simp: ms_wf_def dest!: map_of_SomeD)

lemma objects_wf_update:
  "distinct (map fst os) \<and> (\<forall>(b, ks) \<in> set os. keys_wf ks) \<Longrightarrow> keys_wf ks \<Longrightarrow>
   distinct (map fst (AList.update b ks os)) \<and> (\<forall>(b, ks) \<in> set (AList.update b ks os). keys_wf ks)"
  using set_update_subset [of b ks os] by auto

lemma ms_wf_set_keys: "ms_wf m \<Longrightarrow> keys_wf ks \<Longrightarrow> ms_wf (set_keys b ks m)"
  unfolding ms_wf_def set_keys_def by (simp add: objects_wf_update)

lemma set_keys_simps [simp]:
  "ms_cache (set_keys b ks m) = ms_cache m" "ms_buckets (set_keys b ks m) = ms_buckets m"
  "ms_region (set_keys b ks m) = ms_region m"
  "map_of (ms_objects (set_keys b ks m)) b' = (if b' = b then Some ks else map_of (ms_objects m) b')"
  by (auto simp: set_keys_def)

lemma ms_history_set_keys:
  "ms_history (set_keys b ks m) b' k' = (if b' = b then key_history ks k' else ms_history m b' k')"
  by (simp add: ms_history_def)

lemma key_history_update [simp]:
  "key_history (AList.update k vs ks) k' = (if k' = k then vs_Versions vs else key_history ks k')"
  by (simp add: key_history_def)

lemma key_history_delete [simp]:
  "key_history (AList.delete k ks) k' = (if k' = k then [] else key_history ks k')"
  by (simp add: key_history_def)

lemma ms_writable_set_keys:
  "ms_writable (set_keys b ks m) b' = (if b' = b then map_bool (ms_cache m) b else ms_writable m b')"
  by (simp add: ms_writable_def)

lemma ms_history_distinct:
  assumes "ms_wf m"
  shows "distinct (map om_VersionID (ms_history m b k))"
  using assms
  by (auto simp: ms_history_def key_history_def split: option.splits
      dest!: ms_wf_lookup keys_wf_lookup vs_wfD vs_numbered_distinct)

section \<open>The contract of a versioned store\<close>

text \<open>
  What clients of the metadata store rely on, stated over the abstract history of each key.
\<close>

locale versioned_store =
  fixes inv :: "'s \<Rightarrow> bool"
    and history :: "'s \<Rightarrow> string \<Rightarrow> string \<Rightarrow> ObjectMeta list"
    and writable :: "'s \<Rightarrow> string \<Rightarrow> bool"
    and room :: "'s \<Rightarrow> string \<Rightarrow> string \<Rightarrow> bool"
    and put :: "string \<Rightarrow> string \<Rightarrow> ObjectMeta \<Rightarrow> 's \<Rightarrow> string outcome \<times> 's"
    and del :: "time \<Rightarrow> string \<Rightarrow> string \<Rightarrow> string \<Rightarrow> 's \<Rightarrow> string outcome \<times> 's"
    and get :: "string \<Rightarrow> string \<Rightarrow> string \<Rightarrow> 's \<Rightarrow> ObjectMeta outcome"
  assumes put_ok: "inv s \<Longrightarrow> writable s b \<Longrightarrow> room s b k \<Longrightarrow> om_Key meta = k \<Longrightarrow>
      \<exists>vid s'. put b k meta s = (Ok vid, s') \<and> inv s' \<and> vid \<noteq> '''' \<and>
        vid \<notin> om_VersionID ` set (history s b k) \<and> (\<forall>b'. writable s' b' = writable s b') \<and>
        (\<forall>b' k'. history s' b' k' =
          (if b' = b \<and> k' = k then history s b k @ [meta\<lparr>om_VersionID := vid\<rparr>]
           else history s b' k'))"
    and mark_ok: "inv s \<Longrightarrow> writable s b \<Longrightarrow> room s b k \<Longrightarrow> history s b k \<noteq> [] \<Longrightarrow>
      \<exists>vid s'. del t b k '''' s = (Ok vid, s') \<and> inv s' \<and> vid \<noteq> '''' \<and>
        vid \<notin> om_VersionID ` set (history s b k) \<and> (\<forall>b'. writable s' b' = writable s b') \<and>
        (\<forall>b' k'. history s' b' k' =
          (if b' = b \<and> k' = k then history s b k @ [(delete_marker k t)\<lparr>om_VersionID := vid\<rparr>]
           else history s b' k'))"
    and del_ok: "inv s \<Longrightarrow> writable s b \<Longrightarrow> vid \<noteq> '''' \<Longrightarrow> vid \<in> om_VersionID ` set (history s b k) \<Longrightarrow>
      \<exists>s'. del t b k vid s = (Ok '''', s') \<and> inv s' \<and> (\<forall>b'. writable s' b' = writable s b') \<and>
        (\<forall>b' k'. history s' b' k' =
          (if b' = b \<and> k' = k then filter (\<lambda>v. om_VersionID v \<noteq> vid) (history s b k)
           else history s b' k'))"
    and get_current: "inv s \<Longrightarrow> get b k '''' s =
      (if history s b k = [] \<or> om_IsDeleteMarker (last (history s b k)) then Err ErrNoKey
       else Ok (last (history s b k)))"
    and get_version: "inv s \<Longrightarrow> vid \<noteq> '''' \<Longrightarrow> get b k vid s =
      (case find (\<lambda>v. om_VersionID v = vid) (history s b k) of None \<Rightarrow> Err ErrNoKey | Some v \<Rightarrow> Ok v)"
    and ids_distinct: "inv s \<Longrightarrow> distinct (map om_VersionID (history s b k))"
begin

lemma find_last_id:
  "vid \<notin> om_VersionID ` set xs \<Longrightarrow> om_VersionID v = vid \<Longrightarrow>
   find (\<lambda>v. om_VersionID v = vid) (xs @ [v]) = Some v"
  by (induction xs) auto

lemma find_other_id:
  "om_VersionID v \<noteq> vid \<Longrightarrow>
   find (\<lambda>v. om_VersionID v = vid) (xs @ [v]) = find (\<lambda>v. om_VersionID v = vid) xs"
  by (induction xs) auto

text \<open>A write is read back, as the current version and under its identifier; older identifiers
  and other keys read what they did.\<close>

lemma put_then_get:
  assumes "inv s" "writable s b" "room s b k" "om_Key meta = k" "\<not> om_IsDeleteMarker meta"
  shows "\<exists>vid s'. put b k meta s = (Ok vid, s') \<and>
      get b k '''' s' = Ok (meta\<lparr>om_VersionID := vid\<rparr>) \<and>
      get b k vid s' = Ok (meta\<lparr>om_VersionID := vid\<rparr>) \<and>
      (\<forall>v. v \<noteq> '''' \<and> v \<noteq> vid \<longrightarrow> get b k v s' = get b k v s) \<and>
      (\<forall>b' k' v. (b', k') \<noteq> (b, k) \<longrightarrow> get b' k' v s' = get b' k' v s)"
proof -
  from put_ok [OF assms(1-4)] obtain vid s' where
    s': "put b k meta s = (Ok vid, s')" "inv s'" "vid \<noteq> ''''"
      "vid \<notin> om_VersionID ` set (history s b k)"
    and h: "\<And>b' k'. history s' b' k' =
      (if b' = b \<and> k' = k then history s b k @ [meta\<lparr>om_VersionID := vid\<rparr>] else history s b' k')"
    by blast
  have "get b k '''' s' = Ok (meta\<lparr>om_VersionID := vid\<rparr>)"
    using assms(5) s'(2) by (simp add: get_current h)
  moreover have "get b k vid s' = Ok (meta\<lparr>om_VersionID := vid\<rparr>)"
    using s' by (simp add: get_version h find_last_id)
  moreover have "get b k v s' = get b k v s" if "v \<noteq> ''''" "v \<noteq> vid" for v
    using that s'(2) assms(1) by (simp add: get_version h find_other_id)
  moreover have "get b' k' v s' = get b' k' v s" if "(b', k') \<noteq> (b, k)" for b' k' v
    using that s'(2) assms(1) by (cases "v = ''''") (auto simp: get_current get_version h)
  ultimately show ?thesis using s'(1) by blast
qed

text \<open>A delete marker hides the key but no version of it, and removing the marker brings the key
  back.\<close>

lemma mark_then_get:
  assumes "inv s" "writable s b" "room s b k" "history s b k \<noteq> []"
  shows "\<exists>vid s'. del t b k '''' s = (Ok vid, s') \<and> get b k '''' s' = Err ErrNoKey \<and>
      (\<forall>v. v \<noteq> '''' \<and> v \<noteq> vid \<longrightarrow> get b k v s' = get b k v s) \<and>
      (\<exists>s''. del t b k vid s' = (Ok '''', s'') \<and>
        (\<forall>b' k' v. get b' k' v s'' = get b' k' v s))"
proof -
  from mark_ok [OF assms] obtain vid s' where
    s': "del t b k '''' s = (Ok vid, s')" "inv s'" "vid \<noteq> ''''"
      "vid \<notin> om_VersionID ` set (history s b k)" "writable s' b"
    and h: "\<And>b' k'. history s' b' k' =
      (if b' = b \<and> k' = k then history s b k @ [(delete_marker k t)\<lparr>om_VersionID := vid\<rparr>]
       else history s b' k')"
    using assms(2) by blast
  have hidden: "get b k '''' s' = Err ErrNoKey"
    using s'(2) by (simp add: get_current h delete_marker_def)
  have kept: "get b k v s' = get b k v s" if "v \<noteq> ''''" "v \<noteq> vid" for v
    using that s'(2) assms(1) by (simp add: get_version h find_other_id)
  have "vid \<in> om_VersionID ` set (history s' b k)" by (simp add: h)
  from del_ok [OF s'(2,5,3) this] obtain s'' where
    s'': "del t b k vid s' = (Ok '''', s'')" "inv s''"
    and h'': "\<And>b' k'. history s'' b' k' =
      (if b' = b \<and> k' = k then filter (\<lambda>v. om_VersionID v \<noteq> vid) (history s' b k) else history s' b' k')"
    by blast
  have "filter (\<lambda>v. om_VersionID v \<noteq> vid) (history s b k) = history s b k"
    using s'(4) by (auto intro!: filter_True)
  then have same: "history s'' b' k' = history s b' k'" for b' k'
    by (simp add: h'' h)
  have "get b' k' v s'' = get b' k' v s" for b' k' v
    using s''(2) assms(1) by (cases "v = ''''") (simp_all add: get_current get_version same)
  then show ?thesis using s'(1) hidden kept s''(1) by blast
qed

text \<open>A version that is removed is gone, and every other one stays.\<close>

lemma del_then_get:
  assumes "inv s" "writable s b" "vid \<noteq> ''''" "vid \<in> om_VersionID ` set (history s b k)"
  shows "\<exists>s'. del t b k vid s = (Ok '''', s') \<and> get b k vid s' = Err ErrNoKey \<and>
      (\<forall>v. v \<noteq> '''' \<and> v \<noteq> vid \<longrightarrow> get b k v s' = get b k v s) \<and>
      (\<forall>b' k' v. (b', k') \<noteq> (b, k) \<longrightarrow> get b' k' v s' = get b' k' v s)"
proof -
  from del_ok [OF assms] obtain s' where s': "del t b k vid s = (Ok '''', s')" "inv s'"
    and h: "\<And>b' k'. history s' b' k' =
      (if b' = b \<and> k' = k then filter (\<lambda>v. om_VersionID v \<noteq> vid) (history s b k) else history s b' k')"
    by blast
  have gone: "find (\<lambda>v. om_VersionID v = vid) (filter (\<lambda>v. om_VersionID v \<noteq> vid) xs) = None" for xs
    by (auto simp: find_None_iff)
  have "get b k vid s' = Err ErrNoKey"
    using s'(2) assms(3) by (simp add: get_version h gone)
  moreover have "get b k v s' = get b k v s" if "v \<noteq> ''''" "v \<noteq> vid" for v
    using that s'(2) assms(1) by (simp add: get_version h find_filter_other)
  moreover have "get b' k' v s' = get b' k' v s" if "(b', k') \<noteq> (b, k)" for b' k' v
    using that s'(2) assms(1) by (cases "v = ''''") (auto simp: get_current get_version h)
  ultimately show ?thesis using s'(1) by blast
qed

end

section \<open>The operations keep the contract\<close>

text \<open>The version state a write of a key starts from.\<close>

definition vs_before :: "keyspace \<Rightarrow> string \<Rightarrow> versionState" where
  "vs_before ks k = (case map_of ks k of Some vs \<Rightarrow> vs | None \<Rightarrow> newVersionState)"

lemma vs_before_numbered: "keys_wf ks \<Longrightarrow> vs_numbered k (vs_before ks k)"
  by (auto simp: vs_before_def vs_numbered_new split: option.splits dest: keys_wf_lookup vs_wfD)

lemma vs_before_history: "vs_Versions (vs_before ks k) = key_history ks k"
  by (simp add: vs_before_def key_history_def newVersionState_def split: option.splits)

lemma vs_before_next:
  "map_of (ms_objects m) b = Some ks \<Longrightarrow> sint (vs_NextID (vs_before ks k)) = ms_next m b k"
  by (simp add: vs_before_def ms_next_def key_next_def newVersionState_def split: option.splits)

lemma next_id_fresh:
  assumes "vs_numbered k vs"
  shows "FormatInt (sint (vs_NextID vs)) \<notin> om_VersionID ` set (vs_Versions vs)"
proof
  assume "FormatInt (sint (vs_NextID vs)) \<in> om_VersionID ` set (vs_Versions vs)"
  then obtain v where v: "v \<in> set (vs_Versions vs)" "om_VersionID v = FormatInt (sint (vs_NextID vs))"
    by auto
  with assms have "om_VersionID v = FormatInt (version_num v)" "version_num v < sint (vs_NextID vs)"
    by (auto simp: vs_numbered_def)
  with v(2) show False by simp
qed

text \<open>Appending a version to a key, the step that a write and a delete marker share.\<close>

lemma append_step:
  assumes "ms_wf m" and ks: "map_of (ms_objects m) b = Some ks" and "ms_room m b k" and "om_Key meta = k"
    and app: "append_version meta (vs_before ks k) = (vid, vs')"
    and m': "m' = set_keys b (AList.update k vs' ks) m"
  shows "ms_wf m'" and "vid = FormatInt (ms_next m b k)" and "vid \<notin> om_VersionID ` set (ms_history m b k)"
    and "ms_next m' b k = ms_next m b k + 1"
    and "ms_history m' b' k' =
      (if b' = b \<and> k' = k then ms_history m b k @ [meta\<lparr>om_VersionID := vid\<rparr>] else ms_history m b' k')"
proof -
  let ?vs = "vs_before ks k"
  have wf: "keys_wf ks" using assms(1) ks by (rule ms_wf_lookup)
  note num = vs_before_numbered [OF wf, of k]
  have room: "sint (vs_NextID ?vs) < 2 ^ 63 - 1"
    using assms(3) vs_before_next [OF ks, of k] by (simp add: ms_room_def)
  have vs': "vs_wf k vs'"
    using append_version_wf [OF num assms(4) room] app by simp
  then show "ms_wf m'"
    using assms(1) wf by (simp add: m' ms_wf_set_keys keys_wf_update)
  show vid: "vid = FormatInt (ms_next m b k)"
    using app vs_before_next [OF ks, of k] by (simp add: append_version_eq)
  have hist: "ms_history m b k = vs_Versions ?vs"
    by (simp add: ms_history_def ks vs_before_history)
  show "vid \<notin> om_VersionID ` set (ms_history m b k)"
    using next_id_fresh [OF num] vs_before_next [OF ks, of k] by (simp add: hist vid)
  show "ms_next m' b k = ms_next m b k + 1"
    using app room vs_before_next [OF ks, of k]
    by (auto simp: m' ms_next_def key_next_def append_version_eq sint_next)
  show "ms_history m' b' k' =
      (if b' = b \<and> k' = k then ms_history m b k @ [meta\<lparr>om_VersionID := vid\<rparr>] else ms_history m b' k')"
    using app by (auto simp: m' ms_history_set_keys hist append_version_eq)
      (simp add: ms_history_def ks)
qed

lemma ms_PutObject_step:
  assumes "ms_writable m b" and "map_of (ms_objects m) b = Some ks"
  shows "ms_PutObject b k meta m =
    (Ok (fst (append_version meta (vs_before ks k))),
     set_keys b (AList.update k (snd (append_version meta (vs_before ks k))) ks) m)"
  using assms
  by (simp add: ms_PutObject_def ms_writable_def vs_before_def Let_def split: prod.splits)

lemma ms_DeleteObject_mark_step:
  assumes "ms_writable m b" and "map_of (ms_objects m) b = Some ks" and "map_of ks k \<noteq> None"
  shows "ms_DeleteObject t b k '''' m =
    (Ok (fst (append_version (delete_marker k t) (vs_before ks k))),
     set_keys b (AList.update k (snd (append_version (delete_marker k t) (vs_before ks k))) ks) m)"
  using assms
  by (auto simp: ms_DeleteObject_def ms_writable_def vs_before_def Let_def split: prod.splits)

lemma delete_marker_key [simp]: "om_Key (delete_marker k t) = k"
  by (simp add: delete_marker_def)

lemma writable_step:
  "ms_writable m b \<Longrightarrow> ms_writable (set_keys b ks m) b' = ms_writable m b'"
  by (auto simp: ms_writable_set_keys) (auto simp: ms_writable_def)

lemma ms_historyE:
  assumes "ms_history m b k \<noteq> []"
  obtains ks vst where "map_of (ms_objects m) b = Some ks" and "map_of ks k = Some vst"
    and "ms_history m b k = vs_Versions vst"
proof (cases "map_of (ms_objects m) b")
  case None
  with assms show ?thesis by (simp add: ms_history_def)
next
  case (Some ks)
  with assms that show ?thesis
    by (cases "map_of ks k") (auto simp: ms_history_def key_history_def)
qed

lemma ms_DeleteObject_version_step:
  assumes "ms_wf m" and "ms_writable m b" and "vid \<noteq> ''''"
    and "vid \<in> om_VersionID ` set (ms_history m b k)"
  shows "\<exists>m'. ms_DeleteObject t b k vid m = (Ok '''', m') \<and> ms_wf m' \<and>
      (\<forall>b'. ms_writable m' b' = ms_writable m b') \<and>
      (\<forall>b' k'. ms_history m' b' k' =
        (if b' = b \<and> k' = k then filter (\<lambda>v. om_VersionID v \<noteq> vid) (ms_history m b k)
         else ms_history m b' k'))"
proof -
  from assms(4) have "ms_history m b k \<noteq> []" by auto
  then obtain ks vst where ks: "map_of (ms_objects m) b = Some ks"
    and vst: "map_of ks k = Some vst" and hist: "ms_history m b k = vs_Versions vst"
    by (rule ms_historyE)
  from assms(4) obtain i where i: "find_version vid (vs_Versions vst) = Some i"
    using find_version_None [of vid "vs_Versions vst"] hist by auto
  have wf: "keys_wf ks" "vs_wf k vst"
    using assms(1) ks vst by (auto dest: ms_wf_lookup keys_wf_lookup)
  have del: "slice_delete (vs_Versions vst) i = filter (\<lambda>v. om_VersionID v \<noteq> vid) (vs_Versions vst)"
    using slice_delete_filter vs_numbered_distinct vs_wfD wf(2) i by blast
  have len: "i < length (vs_Versions vst)" using find_version_Some [OF i] by simp
  let ?m = "set_keys b (remove_version k i vst ks) m"
  have "keys_wf (remove_version k i vst ks)"
    using wf remove_version_wf [OF wf(2) len refl]
    by (auto simp: remove_version_def Let_def keys_wf_delete intro!: keys_wf_update)
  then have "ms_wf ?m" using assms(1) by (simp add: ms_wf_set_keys)
  moreover have "ms_DeleteObject t b k vid m = (Ok '''', ?m)"
    using assms(2,3) ks vst i by (simp add: ms_DeleteObject_def ms_writable_def)
  moreover have "ms_history ?m b' k' =
      (if b' = b \<and> k' = k then filter (\<lambda>v. om_VersionID v \<noteq> vid) (ms_history m b k)
       else ms_history m b' k')" for b' k'
  proof -
    have "key_history (remove_version k i vst ks) k' =
        (if k' = k then filter (\<lambda>v. om_VersionID v \<noteq> vid) (vs_Versions vst) else key_history ks k')"
      by (simp add: remove_version_def Let_def del)
    then show ?thesis
      by (auto simp: ms_history_set_keys hist) (simp add: ms_history_def ks)
  qed
  moreover have "\<forall>b'. ms_writable ?m b' = ms_writable m b'"
    using assms(2) by (simp add: writable_step)
  ultimately show ?thesis by blast
qed

lemma ms_GetObject_current:
  assumes "ms_wf m"
  shows "ms_GetObject b k '''' m =
    (if ms_history m b k = [] \<or> om_IsDeleteMarker (last (ms_history m b k)) then Err ErrNoKey
     else Ok (last (ms_history m b k)))"
proof (cases "\<exists>ks vst. map_of (ms_objects m) b = Some ks \<and> map_of ks k = Some vst")
  case True
  then obtain ks vst where ks: "map_of (ms_objects m) b = Some ks" "map_of ks k = Some vst" by blast
  then have "vs_wf k vst" using assms by (auto dest: ms_wf_lookup keys_wf_lookup)
  then obtain n where n: "length (vs_Versions vst) = Suc n" and cur: "vs_Current vst = int n"
    by (cases "length (vs_Versions vst)") (auto simp: vs_wf_def)
  from n have "vs_Versions vst \<noteq> []" by auto
  moreover from this n have "last (vs_Versions vst) = vs_Versions vst ! n"
    by (simp add: last_conv_nth)
  ultimately show ?thesis
    using ks n by (simp add: ms_GetObject_def ms_history_def key_history_def cur)
next
  case False
  then show ?thesis
    by (auto simp: ms_GetObject_def ms_history_def key_history_def split: option.splits)
qed

lemma ms_GetObject_version:
  assumes "vid \<noteq> ''''"
  shows "ms_GetObject b k vid m =
    (case find (\<lambda>v. om_VersionID v = vid) (ms_history m b k) of None \<Rightarrow> Err ErrNoKey | Some v \<Rightarrow> Ok v)"
proof -
  have "(case find_version vid vs of Some i \<Rightarrow> Ok (vs ! i) | None \<Rightarrow> Err ErrNoKey) =
      (case find (\<lambda>v. om_VersionID v = vid) vs of None \<Rightarrow> Err ErrNoKey | Some v \<Rightarrow> Ok v)" for vs
    by (cases "find_version vid vs") (simp_all flip: find_version_find)
  then show ?thesis
    using assms by (simp add: ms_GetObject_def ms_history_def key_history_def split: option.splits)
qed

interpretation versions: versioned_store ms_wf ms_history ms_writable ms_room
    ms_PutObject ms_DeleteObject ms_GetObject
proof (unfold_locales, goal_cases)
  case (1 s b k meta)
  then obtain ks where ks: "map_of (ms_objects s) b = Some ks" by (auto simp: ms_writable_def)
  obtain vid vs' where app: "append_version meta (vs_before ks k) = (vid, vs')" by fastforce
  note step = append_step [OF 1(1) ks 1(3,4) app refl]
  have "ms_PutObject b k meta s = (Ok vid, set_keys b (AList.update k vs' ks) s)"
    using ms_PutObject_step [OF 1(2) ks] by (simp add: app)
  moreover have "vid \<noteq> ''''" by (simp add: step(2))
  ultimately show ?case
    using step(1,3,5) writable_step [OF 1(2)] by blast
next
  case (2 s b k t)
  from 2(2,4) obtain ks where ks: "map_of (ms_objects s) b = Some ks" and "map_of ks k \<noteq> None"
    by (auto elim!: ms_historyE)
  obtain vid vs' where app: "append_version (delete_marker k t) (vs_before ks k) = (vid, vs')"
    by fastforce
  note step = append_step [OF 2(1) ks 2(3) delete_marker_key app refl]
  have "ms_DeleteObject t b k '''' s = (Ok vid, set_keys b (AList.update k vs' ks) s)"
    using ms_DeleteObject_mark_step [OF 2(2) ks \<open>map_of ks k \<noteq> None\<close>] by (simp add: app)
  moreover have "vid \<noteq> ''''" by (simp add: step(2))
  ultimately show ?case
    using step(1,3,5) writable_step [OF 2(2)] by blast
next
  case (3 s b vid k t)
  then show ?case by (rule ms_DeleteObject_version_step)
next
  case (4 s b k)
  then show ?case by (rule ms_GetObject_current)
next
  case (5 s vid b k)
  then show ?case by (simp add: ms_GetObject_version)
next
  case (6 s b k)
  then show ?case by (rule ms_history_distinct)
qed

section \<open>Reachable states\<close>

text \<open>
  One call of the server for a bucket or an object. Writes carry the key in their metadata, as every
  caller makes them do. The remaining call that changes the store, \<^verbatim>\<open>Restore\<close>, joins these in \<open>Snapshot\<close>.
\<close>

inductive ms_step :: "'db bolt \<Rightarrow> 'db MetaStore \<Rightarrow> 'db MetaStore \<Rightarrow> bool" for B where
  step_region: "ms_step B m (ms_SetRegion r m)"
| step_create: "ms_CreateBucket B t name m = (x, m') \<Longrightarrow> ms_step B m m'"
| step_delete_bucket: "ms_DeleteBucket B name m = (x, m') \<Longrightarrow> ms_step B m m'"
| step_put: "om_Key meta = k \<Longrightarrow> ms_PutObject b k meta m = (x, m') \<Longrightarrow> ms_step B m m'"
| step_delete: "ms_DeleteObject t b k vid m = (x, m') \<Longrightarrow> ms_step B m m'"

inductive_cases ms_stepE: "ms_step B m m'"

text \<open>The cache is the set of registered buckets, and only cached buckets have keys.\<close>

definition cache_exact :: "'db bolt \<Rightarrow> 'db MetaStore \<Rightarrow> bool" where
  "cache_exact B m = (\<forall>b. map_bool (ms_cache m) b = (b \<in> bucket_names B (ms_buckets m)))"

definition keys_registered :: "'db MetaStore \<Rightarrow> bool" where
  "keys_registered m = (\<forall>b. map_of (ms_objects m) b \<noteq> None \<longrightarrow> map_bool (ms_cache m) b)"

lemma ms_next_set_keys:
  "ms_next (set_keys b ks m) b' k' = (if b' = b then key_next ks k' else ms_next m b' k')"
  by (simp add: ms_next_def)

definition counters_le :: "int \<Rightarrow> 'db MetaStore \<Rightarrow> bool" where
  "counters_le N m = (\<forall>b k. ms_next m b k \<le> N)"

lemma counters_le_mono: "counters_le N m \<Longrightarrow> N \<le> N' \<Longrightarrow> counters_le N' m"
  by (auto simp: counters_le_def intro: order_trans)

lemma counters_le_keys:
  "counters_le N m \<Longrightarrow> map_of (ms_objects m) b = Some ks \<Longrightarrow> key_next ks k \<le> N"
  unfolding counters_le_def ms_next_def by (metis option.simps(5))

lemma counters_le_set_keys:
  "counters_le N m \<Longrightarrow> (\<And>k'. key_next ks k' \<le> N) \<Longrightarrow> counters_le N (set_keys b ks m)"
  by (simp add: counters_le_def ms_next_set_keys)

lemma key_next_update:
  "key_next (AList.update k vs ks) k' = (if k' = k then sint (vs_NextID vs) else key_next ks k')"
  by (simp add: key_next_def)

text \<open>An appended version moves the counter of its key and no other.\<close>

lemma ms_next_append:
  assumes "map_of (ms_objects m) b = Some ks" and "ms_room m b k"
    and "append_version meta (vs_before ks k) = (vid, vs')"
  shows "ms_next (set_keys b (AList.update k vs' ks) m) b' k' =
    ms_next m b' k' + (if b' = b \<and> k' = k then 1 else 0)"
proof -
  have "sint (vs_NextID (vs_before ks k)) < 2 ^ 63 - 1"
    using assms(2) vs_before_next [OF assms(1), of k] by (simp add: ms_room_def)
  then have "sint (vs_NextID vs') = ms_next m b k + 1"
    using assms(3) vs_before_next [OF assms(1), of k] by (auto simp: append_version_eq sint_next)
  then show ?thesis
    using assms(1) by (auto simp: ms_next_set_keys key_next_update) (simp_all add: ms_next_def)
qed

text \<open>Marking an object as deleted, with everything it does to histories and counters.\<close>

lemma mark_step:
  assumes "ms_wf m" and "ms_writable m b" and "ms_room m b k" and "ms_history m b k \<noteq> []"
  obtains m' where "ms_DeleteObject t b k '''' m = (Ok (FormatInt (ms_next m b k)), m')" and "ms_wf m'"
    and "\<And>b'. ms_writable m' b' = ms_writable m b'"
    and "\<And>b' k'. ms_next m' b' k' = ms_next m b' k' + (if b' = b \<and> k' = k then 1 else 0)"
    and "\<And>b' k'. ms_history m' b' k' =
      (if b' = b \<and> k' = k then ms_history m b k @ [(delete_marker k t)\<lparr>om_VersionID := FormatInt (ms_next m b k)\<rparr>]
       else ms_history m b' k')"
proof -
  from assms(4) obtain ks vst where ks: "map_of (ms_objects m) b = Some ks" "map_of ks k = Some vst"
    by (rule ms_historyE)
  obtain vid vs' where app: "append_version (delete_marker k t) (vs_before ks k) = (vid, vs')" by fastforce
  note step = append_step [OF assms(1) ks(1) assms(3) delete_marker_key app refl]
  have "ms_DeleteObject t b k '''' m = (Ok vid, set_keys b (AList.update k vs' ks) m)"
    using ms_DeleteObject_mark_step [OF assms(2) ks(1)] ks(2) by (simp add: app)
  then show ?thesis
    using that [of "set_keys b (AList.update k vs' ks) m"] step writable_step [OF assms(2)]
      ms_next_append [OF ks(1) assms(3) app] by auto
qed

text \<open>What creating and deleting a bucket does to the state.\<close>

lemma ms_CreateBucket_cases:
  assumes "ms_CreateBucket B t n m = (x, m')"
  obtains db where "BucketDB_Create B t n (ms_region m) (ms_buckets m) = (x, db)" "x \<noteq> Ok ()"
      "m' = m\<lparr>ms_buckets := db\<rparr>"
  | db where "BucketDB_Create B t n (ms_region m) (ms_buckets m) = (Ok (), db)" "x = Ok ()"
      "m' = m\<lparr>ms_buckets := db, ms_cache := AList.update n True (ms_cache m),
              ms_objects := AList.update n [] (ms_objects m)\<rparr>"
  using assms by (auto simp: ms_CreateBucket_def split: prod.splits outcome.splits)

lemma ms_DeleteBucket_cases:
  assumes "ms_DeleteBucket B n m = (x, m')"
  obtains db where "BucketDB_Delete B n (ms_buckets m) = (x, db)" "x \<noteq> Ok ()"
      "m' = m\<lparr>ms_buckets := db\<rparr>"
  | db where "BucketDB_Delete B n (ms_buckets m) = (Ok (), db)" "x = Ok ()"
      "m' = m\<lparr>ms_buckets := db, ms_cache := AList.delete n (ms_cache m),
              ms_objects := AList.delete n (ms_objects m)\<rparr>"
  using assms by (auto simp: ms_DeleteBucket_def split: prod.splits outcome.splits)

lemma ms_PutObject_cases:
  assumes "ms_PutObject b k meta m = (x, m')"
  obtains "m' = m" "x = Err ErrNoBucket" "\<not> map_bool (ms_cache m) b"
  | "m' = m" "x = Panic ''assignment to entry in nil map''" "map_bool (ms_cache m) b"
      "map_of (ms_objects m) b = None"
  | ks vid vs' where "ms_writable m b" "map_of (ms_objects m) b = Some ks" "x = Ok vid"
      "append_version meta (vs_before ks k) = (vid, vs')"
      "m' = set_keys b (AList.update k vs' ks) m"
proof (cases "ms_writable m b")
  case True
  then obtain ks where ks: "map_of (ms_objects m) b = Some ks" by (auto simp: ms_writable_def)
  with True assms show ?thesis
    using that(3) [of ks] ms_PutObject_step [OF True ks, of k meta]
    by (metis prod.collapse prod.inject)
next
  case False
  with assms that(1,2) show ?thesis
    by (auto simp: ms_PutObject_def ms_writable_def split: if_splits option.splits)
qed

lemma ms_DeleteObject_cases:
  assumes "ms_DeleteObject t b k vid m = (x, m')"
  obtains "m' = m" "x = Err ErrNoBucket \<or> x = Err ErrNoKey"
  | ks vst i where "ms_writable m b" "map_of (ms_objects m) b = Some ks" "map_of ks k = Some vst"
      "find_version vid (vs_Versions vst) = Some i" "vid \<noteq> ''''" "x = Ok ''''"
      "m' = set_keys b (remove_version k i vst ks) m"
  | ks id vs' where "ms_writable m b" "map_of (ms_objects m) b = Some ks" "map_of ks k \<noteq> None"
      "vid = ''''" "x = Ok id" "append_version (delete_marker k t) (vs_before ks k) = (id, vs')"
      "m' = set_keys b (AList.update k vs' ks) m"
proof (cases "\<exists>ks vst. ms_writable m b \<and> map_of (ms_objects m) b = Some ks \<and> map_of ks k = Some vst")
  case True
  then obtain ks vst where ks: "ms_writable m b" "map_of (ms_objects m) b = Some ks"
    "map_of ks k = Some vst" by blast
  show ?thesis
  proof (cases "vid = ''''")
    case True
    with ks assms show ?thesis
      using that(3) [of ks] ms_DeleteObject_mark_step [OF ks(1,2), of k t]
      by (metis option.distinct(1) prod.collapse prod.inject)
  next
    case False
    with ks assms that(1,2) show ?thesis
      by (auto simp: ms_DeleteObject_def ms_writable_def split: option.splits)
  qed
next
  case False
  with assms that(1) show ?thesis
    by (auto simp: ms_DeleteObject_def ms_writable_def split: if_splits option.splits)
qed

lemma remove_version_keys_wf:
  assumes "keys_wf ks" and "map_of ks k = Some vst" and "find_version vid (vs_Versions vst) = Some i"
  shows "keys_wf (remove_version k i vst ks)"
proof -
  have "vs_wf k vst" using assms(1,2) by (rule keys_wf_lookup)
  moreover have "i < length (vs_Versions vst)" using find_version_Some [OF assms(3)] by simp
  ultimately show ?thesis
    using remove_version_wf [of k vst i] assms(1)
    by (auto simp: remove_version_def Let_def keys_wf_delete intro!: keys_wf_update)
qed

lemma key_next_remove_version:
  assumes "keys_wf ks" and "map_of ks k = Some vst"
  shows "key_next (remove_version k i vst ks) k' \<le> key_next ks k'"
proof -
  have "1 \<le> sint (vs_NextID vst)"
    using keys_wf_lookup [OF assms] by (simp add: vs_wf_def vs_numbered_def)
  then show ?thesis
    using assms(2) by (auto simp: remove_version_def Let_def key_next_def)
qed

text \<open>One call keeps the version lists well formed and adds at most one to any counter.\<close>

lemma append_counters:
  assumes "ms_wf m" "map_of (ms_objects m) b = Some ks" "om_Key meta = k"
    "append_version meta (vs_before ks k) = (vid, vs')" "m' = set_keys b (AList.update k vs' ks) m"
    and N: "counters_le N m" "N < 2 ^ 63 - 1"
  shows "ms_wf m' \<and> counters_le (N + 1) m'"
proof -
  have "ms_next m b k \<le> N" using N(1) by (simp add: counters_le_def)
  then have room: "ms_room m b k" using N(2) by (simp add: ms_room_def)
  note step = append_step [OF assms(1,2) room assms(3-5)]
  have "sint (vs_NextID vs') = ms_next m b k + 1"
    using step(4) by (simp add: assms(5) ms_next_set_keys key_next_update)
  then have "key_next (AList.update k vs' ks) k' \<le> N + 1" for k'
    using counters_le_keys [OF N(1) assms(2), of k'] \<open>ms_next m b k \<le> N\<close>
    by (simp add: key_next_update)
  then show ?thesis
    using step(1) N(1) by (simp add: assms(5) counters_le_set_keys counters_le_mono)
qed

lemma wf_objects:
  "ms_objects m = ms_objects m' \<Longrightarrow> ms_wf m = ms_wf m' \<and> counters_le K m = counters_le K m'"
  by (simp add: ms_wf_def counters_le_def ms_next_def)

lemma create_bucket_wf:
  assumes "ms_CreateBucket B t name m = (x, m')" and "ms_wf m" and "counters_le N m" and "1 \<le> N"
  shows "ms_wf m' \<and> counters_le N m'"
  using assms(1)
proof (cases rule: ms_CreateBucket_cases)
  case (1 db)
  then show ?thesis using assms(2,3) wf_objects [of m' m] by simp
next
  case (2 db)
  have "counters_le N (set_keys name [] m)" and "ms_wf (set_keys name [] m)"
    using assms(2-4) by (simp_all add: counters_le_set_keys key_next_def ms_wf_set_keys)
  then show ?thesis using wf_objects [of m' "set_keys name [] m"] by (simp add: 2(3) set_keys_def)
qed

lemma delete_bucket_wf:
  assumes "ms_DeleteBucket B name m = (x, m')" and "ms_wf m" and "counters_le N m" and "1 \<le> N"
  shows "ms_wf m' \<and> counters_le N m'"
  using assms(1)
proof (cases rule: ms_DeleteBucket_cases)
  case (1 db)
  then show ?thesis using assms(2,3) wf_objects [of m' m] by simp
next
  case (2 db)
  have "ms_wf m'"
    using assms(2) set_delete_subset [of name "ms_objects m"] by (auto simp: 2(3) ms_wf_def)
  moreover have "counters_le N m'"
    using assms(3,4) by (auto simp: 2(3) counters_le_def ms_next_def)
  ultimately show ?thesis by simp
qed

lemma ms_step_wf:
  assumes "ms_step B m m'" and "ms_wf m" and "counters_le N m" and "1 \<le> N" and "N < 2 ^ 63 - 1"
  shows "ms_wf m' \<and> counters_le (N + 1) m'"
proof -
  have same: "ms_wf m" "counters_le (N + 1) m" "1 \<le> N + 1"
    using assms(2-4) counters_le_mono [of N m "N + 1"] by simp_all
  from assms(1) show ?thesis
  proof cases
    case (step_region r)
    then show ?thesis using same wf_objects [of m' m] by (simp add: ms_SetRegion_def)
  next
    case (step_create t name x)
    then show ?thesis using create_bucket_wf same by blast
  next
    case (step_delete_bucket name x)
    then show ?thesis using delete_bucket_wf same by blast
  next
    case (step_put meta k b x)
    from step_put(2) show ?thesis
    proof (cases rule: ms_PutObject_cases)
      case (3 ks vid vs')
      then show ?thesis
        using append_counters [OF assms(2) 3(2) step_put(1) 3(4,5) assms(3,5)] by simp
    qed (use same in simp_all)
  next
    case (step_delete t b k vid x)
    then show ?thesis
    proof (cases rule: ms_DeleteObject_cases)
      case 1
      then show ?thesis using same by simp
    next
      case (2 ks vst i)
      have wf: "keys_wf ks" using assms(2) 2(2) by (rule ms_wf_lookup)
      have "key_next (remove_version k i vst ks) k' \<le> N + 1" for k'
        using key_next_remove_version [OF wf 2(3), of i k'] counters_le_keys [OF assms(3) 2(2), of k']
        by simp
      then show ?thesis
        using remove_version_keys_wf [OF wf 2(3,4)] same
        by (simp add: 2(7) ms_wf_set_keys counters_le_set_keys)
    next
      case (3 ks id vs')
      then show ?thesis
        using append_counters [OF assms(2) 3(2) delete_marker_key 3(6,7) assms(3,5)] by simp
    qed
  qed
qed

text \<open>The cache stays coherent whatever the calls return.\<close>

lemma cache_exact_step:
  assumes "bolt_kv B" and "ms_step B m m'" and "cache_exact B m"
  shows "cache_exact B m'"
  using assms(2)
proof cases
  case (step_region r)
  then show ?thesis using assms(3) by (simp add: ms_SetRegion_def cache_exact_def)
next
  case (step_create t name x)
  then show ?thesis
  proof (cases rule: ms_CreateBucket_cases)
    case (1 db)
    have "db = ms_buckets m"
      using bolt_Update_cases [OF 1(1) [unfolded BucketDB_Create_def]] 1(2) by auto
    then show ?thesis using assms(3) by (simp add: 1(3) cache_exact_def)
  next
    case (2 db)
    have "bucket_names B db = insert name (bucket_names B (ms_buckets m))"
      using bolt_kv.Create_Ok(2) [OF assms(1) 2(1)] .
    then show ?thesis using assms(3) by (simp add: 2(3) cache_exact_def)
  qed
next
  case (step_delete_bucket name x)
  then show ?thesis
  proof (cases rule: ms_DeleteBucket_cases)
    case (1 db)
    have "db = ms_buckets m"
      using bolt_Update_cases [OF 1(1) [unfolded BucketDB_Delete_def]] 1(2) by auto
    then show ?thesis using assms(3) by (simp add: 1(3) cache_exact_def)
  next
    case (2 db)
    have "bucket_names B db = bucket_names B (ms_buckets m) - {name}"
      using bolt_kv.Delete_Ok(2) [OF assms(1) 2(1)] .
    then show ?thesis using assms(3) by (auto simp: 2(3) cache_exact_def)
  qed
next
  case (step_put meta k b x)
  from step_put(2) show ?thesis
    by (cases rule: ms_PutObject_cases) (use assms(3) in \<open>auto simp: cache_exact_def\<close>)
next
  case (step_delete t b k vid x)
  then show ?thesis
    by (cases rule: ms_DeleteObject_cases) (use assms(3) in \<open>auto simp: cache_exact_def\<close>)
qed

lemma keys_registered_step:
  assumes "ms_step B m m'" and "keys_registered m"
  shows "keys_registered m'"
  using assms(1)
proof cases
  case (step_region r)
  then show ?thesis using assms(2) by (simp add: ms_SetRegion_def keys_registered_def)
next
  case (step_create t name x)
  then show ?thesis
    by (cases rule: ms_CreateBucket_cases) (use assms(2) in \<open>auto simp: keys_registered_def\<close>)
next
  case (step_delete_bucket name x)
  then show ?thesis
    by (cases rule: ms_DeleteBucket_cases) (use assms(2) in \<open>auto simp: keys_registered_def\<close>)
next
  case (step_put meta k b x)
  from step_put(2) show ?thesis
    by (cases rule: ms_PutObject_cases) (use assms(2) in \<open>auto simp: keys_registered_def ms_writable_def\<close>)
next
  case (step_delete t b k vid x)
  then show ?thesis
    by (cases rule: ms_DeleteObject_cases) (use assms(2) in \<open>auto simp: keys_registered_def ms_writable_def\<close>)
qed

lemma map_bool_cache_of: "map_bool (cache_of bs) n \<longleftrightarrow> n \<in> b_Name ` set bs"
proof -
  have "map_bool (foldl (\<lambda>c b. AList.update (b_Name b) True c) c bs) n \<longleftrightarrow>
      map_bool c n \<or> n \<in> b_Name ` set bs" for c
    by (induction bs arbitrary: c) auto
  then show ?thesis by (simp add: cache_of_def)
qed

lemma NewMetaStore_Ok:
  assumes "NewMetaStore B file = Ok m"
  shows "ms_objects m = []" and "ms_cache m = cache_of (fst (BucketDB_List B (ms_buckets m)))"
  using assms by (auto simp: NewMetaStore_def split: outcome.splits)

lemma reach_open_inv:
  assumes "bolt_kv B" and "NewMetaStore B file = Ok m" and "db_wf B (ms_buckets m)"
    and "snd (BucketDB_List B (ms_buckets m)) = None"
  shows "ms_wf m" "counters_le 1 m" "cache_exact B m" "keys_registered m"
proof -
  obtain bs where bs: "BucketDB_List B (ms_buckets m) = (bs, None)"
    using assms(4) by (metis prod.collapse)
  then have "set (map b_Name bs) = bucket_names B (ms_buckets m)"
    using bolt_kv.List_wf [OF assms(1,3)] by (simp add: bucket_names_def)
  then show "ms_wf m" "counters_le 1 m" "cache_exact B m" "keys_registered m"
    using NewMetaStore_Ok [OF assms(2)] bs
    by (simp_all add: ms_wf_def counters_le_def ms_next_def cache_exact_def keys_registered_def map_bool_cache_of)
qed

section \<open>Properties\<close>

lemmas alist_kv = alist.bolt_kv_axioms

text \<open>A store with one empty bucket, on which the witnesses evaluate the operations.\<close>

definition demo_meta :: "(string, json) gomap MetaStore" where
  "demo_meta =
     \<lparr>ms_buckets = [(''b'', enc_BucketMeta \<lparr>bm_Name = ''b'', bm_Region = ''us-east-1'', bm_CreatedAt = 0\<rparr>)],
      ms_cache = [(''b'', True)], ms_objects = [(''b'', [])], ms_region = ''us-east-1''\<rparr>"

definition demo_object :: "string \<Rightarrow> ObjectMeta" where
  "demo_object k = zero_meta\<lparr>om_Key := k, om_Size := 5, om_ETag := ''e'', om_Sha256 := ''e''\<rparr>"

lemma demo_facts:
  "ms_wf demo_meta" "ms_writable demo_meta ''b''" "ms_room demo_meta ''b'' k"
  "om_Key (demo_object k) = k" "\<not> om_IsDeleteMarker (demo_object k)"
  by (simp_all add: demo_meta_def demo_object_def zero_meta_def ms_wf_def ms_writable_def ms_room_def
      ms_next_def key_next_def map_bool_def)

text \<open>C1. A write succeeds, and it is read back both as the current version and under the version
  identifier it returned; every other identifier of the key, and every other key of every bucket,
  reads exactly what it read before.\<close>

theorem put_get:
  assumes "ms_wf m" and "ms_writable m b" and "ms_room m b k"
    and "om_Key meta = k" and "\<not> om_IsDeleteMarker meta"
  shows "\<exists>vid m'. ms_PutObject b k meta m = (Ok vid, m') \<and>
      ms_GetObject b k '''' m' = Ok (meta\<lparr>om_VersionID := vid\<rparr>) \<and>
      ms_GetObject b k vid m' = Ok (meta\<lparr>om_VersionID := vid\<rparr>) \<and>
      (\<forall>v. v \<noteq> '''' \<and> v \<noteq> vid \<longrightarrow> ms_GetObject b k v m' = ms_GetObject b k v m) \<and>
      (\<forall>b' k' v. (b', k') \<noteq> (b, k) \<longrightarrow> ms_GetObject b' k' v m' = ms_GetObject b' k' v m)"
  using assms by (rule versions.put_then_get)

theorem put_get_witness:
  "\<exists>vid m'. ms_PutObject ''b'' ''k'' (demo_object ''k'') demo_meta = (Ok vid, m') \<and>
     ms_GetObject ''b'' ''k'' '''' m' = Ok ((demo_object ''k'')\<lparr>om_VersionID := vid\<rparr>)"
  using put_get [OF demo_facts(1-3) demo_facts(4) demo_facts(5), of "''k''"] by blast

text \<open>C22. Deleting a key that has versions, without naming one, succeeds: the key then reads as
  missing, every version it had can still be read by its identifier, and removing the delete marker
  by the identifier the call returned brings back every read of the store as it was.\<close>

theorem delete_marker_hides:
  assumes "ms_wf m" and "ms_writable m b" and "ms_room m b k" and "ms_history m b k \<noteq> []"
  shows "\<exists>vid m'. ms_DeleteObject t b k '''' m = (Ok vid, m') \<and>
      ms_GetObject b k '''' m' = Err ErrNoKey \<and>
      (\<forall>v. v \<noteq> '''' \<and> v \<noteq> vid \<longrightarrow> ms_GetObject b k v m' = ms_GetObject b k v m) \<and>
      (\<exists>m''. ms_DeleteObject t b k vid m' = (Ok '''', m'') \<and>
        (\<forall>b' k' v. ms_GetObject b' k' v m'' = ms_GetObject b' k' v m))"
  using assms by (rule versions.mark_then_get)

definition demo_one :: "(string, json) gomap MetaStore" where
  "demo_one = snd (ms_PutObject ''b'' ''k'' (demo_object ''k'') demo_meta)"

lemma demo_one_eq:
  "demo_one = demo_meta\<lparr>ms_objects := [(''b'', [(''k'',
     \<lparr>vs_Versions = [(demo_object ''k'')\<lparr>om_VersionID := ''1''\<rparr>], vs_Current = 0, vs_NextID = 2\<rparr>)])]\<rparr>"
  by (simp add: demo_one_def ms_PutObject_def demo_meta_def map_bool_def append_version_def
      newVersionState_def set_keys_def Let_def go_simps)

lemma demo_one_facts:
  "ms_wf demo_one" "ms_writable demo_one ''b''" "ms_room demo_one ''b'' ''k''"
  "ms_history demo_one ''b'' ''k'' = [(demo_object ''k'')\<lparr>om_VersionID := ''1''\<rparr>]"
  by (simp_all add: demo_one_eq demo_meta_def demo_object_def zero_meta_def ms_wf_def keys_wf_def
      vs_wf_def vs_numbered_def version_num_def digits_val_def digit_val_def go_simps ms_writable_def map_bool_def ms_room_def ms_next_def key_next_def
      ms_history_def key_history_def)

theorem delete_marker_hides_witness:
  "\<exists>vid m'. ms_DeleteObject 7 ''b'' ''k'' '''' demo_one = (Ok vid, m') \<and>
     ms_GetObject ''b'' ''k'' '''' m' = Err ErrNoKey"
proof -
  have "ms_history demo_one ''b'' ''k'' \<noteq> []" by (simp add: demo_one_facts(4))
  from delete_marker_hides [OF demo_one_facts(1-3) this, of 7] show ?thesis by blast
qed

text \<open>C23. Removing a version by its identifier succeeds when the key has it: that version is gone,
  and every other version of the key and every other key reads as before.\<close>

theorem delete_version_exact:
  assumes "ms_wf m" and "ms_writable m b" and "vid \<noteq> ''''"
    and "vid \<in> om_VersionID ` set (ms_history m b k)"
  shows "\<exists>m'. ms_DeleteObject t b k vid m = (Ok '''', m') \<and> ms_GetObject b k vid m' = Err ErrNoKey \<and>
      (\<forall>v. v \<noteq> '''' \<and> v \<noteq> vid \<longrightarrow> ms_GetObject b k v m' = ms_GetObject b k v m) \<and>
      (\<forall>b' k' v. (b', k') \<noteq> (b, k) \<longrightarrow> ms_GetObject b' k' v m' = ms_GetObject b' k' v m)"
  using assms by (rule versions.del_then_get)

theorem delete_version_exact_witness:
  "\<exists>m'. ms_DeleteObject 7 ''b'' ''k'' ''1'' demo_one = (Ok '''', m') \<and>
     ms_GetObject ''b'' ''k'' ''1'' m' = Err ErrNoKey"
proof -
  have "''1'' \<in> om_VersionID ` set (ms_history demo_one ''b'' ''k'')" by (simp add: demo_one_facts(4))
  moreover have "''1'' \<noteq> ''''" by simp
  ultimately obtain m' where "ms_DeleteObject 7 ''b'' ''k'' ''1'' demo_one = (Ok '''', m')"
    and "ms_GetObject ''b'' ''k'' ''1'' m' = Err ErrNoKey"
    using delete_version_exact [OF demo_one_facts(1,2), of "''1''" "''k''" 7] by metis
  then show ?thesis by metis
qed

definition demo_opened :: "(string, json) gomap MetaStore" where
  "demo_opened = \<lparr>ms_buckets = [], ms_cache = [], ms_objects = [], ms_region = ''''\<rparr>"

text \<open>C24. The identifier a write returns is the decimal number of the key's counter, larger than
  the number of every version the key has, and the counter goes up by one: identifiers of a key
  that keeps at least one version are never repeated.\<close>

theorem version_ids_increase:
  assumes "ms_wf m" and "ms_writable m b" and "ms_room m b k" and "om_Key meta = k"
  shows "\<exists>m'. ms_PutObject b k meta m = (Ok (FormatInt (ms_next m b k)), m') \<and>
      ms_next m' b k = ms_next m b k + 1 \<and>
      (\<forall>v \<in> set (ms_history m b k). om_VersionID v = FormatInt (version_num v) \<and>
         0 < version_num v \<and> version_num v < ms_next m b k)"
proof -
  obtain ks where ks: "map_of (ms_objects m) b = Some ks"
    using assms(2) by (auto simp: ms_writable_def)
  obtain vid vs' where app: "append_version meta (vs_before ks k) = (vid, vs')" by fastforce
  note step = append_step [OF assms(1) ks assms(3,4) app refl]
  have "vs_numbered k (vs_before ks k)"
    using ms_wf_lookup [OF assms(1) ks] by (rule vs_before_numbered)
  then have "\<forall>v \<in> set (ms_history m b k). om_VersionID v = FormatInt (version_num v) \<and>
      0 < version_num v \<and> version_num v < ms_next m b k"
    using vs_before_next [OF ks, of k]
    by (auto simp: vs_numbered_def vs_before_history ms_history_def ks)
  then show ?thesis
    using ms_PutObject_step [OF assms(2) ks, of k meta] step(2,4) by (simp add: app)
qed

theorem version_ids_increase_witness:
  "\<exists>m'. ms_PutObject ''b'' ''k'' (demo_object ''k'') demo_one = (Ok ''2'', m') \<and>
     ms_next m' ''b'' ''k'' = 3"
proof -
  have "ms_next demo_one ''b'' ''k'' = 2"
    by (simp add: demo_one_eq demo_meta_def ms_next_def key_next_def)
  moreover have "FormatInt 2 = ''2''" by (simp add: go_simps)
  ultimately show ?thesis
    using version_ids_increase [OF demo_one_facts(1-3) demo_facts(4)] by fastforce
qed

text \<open>When the only version of a key is removed, the key's counter goes with it: the next write
  of the key gets identifier 1, whatever identifiers it had before.\<close>

theorem version_id_restarts:
  assumes "ms_wf m" and "ms_writable m b" and "ms_history m b k = [v]"
  shows "\<exists>m1 m2. ms_DeleteObject t b k (om_VersionID v) m = (Ok '''', m1) \<and>
      ms_PutObject b k meta m1 = (Ok ''1'', m2)"
proof -
  obtain ks vst where ks: "map_of (ms_objects m) b = Some ks" and vst: "map_of ks k = Some vst"
    and hist: "vs_Versions vst = [v]"
    using assms(3) by (metis list.distinct(1) ms_historyE)
  have "vs_wf k vst" using assms(1) ks vst by (auto dest: ms_wf_lookup keys_wf_lookup)
  then have "om_VersionID v = FormatInt (version_num v)"
    by (simp add: vs_wf_def vs_numbered_def hist)
  then have id: "om_VersionID v \<noteq> ''''" by (metis FormatInt_nonempty)
  let ?m1 = "set_keys b (AList.delete k ks) m"
  have "ms_DeleteObject t b k (om_VersionID v) m = (Ok '''', ?m1)"
    using assms(2) ks vst id
    by (simp add: ms_DeleteObject_def ms_writable_def hist remove_version_def)
  moreover have "fst (ms_PutObject b k meta ?m1) = Ok ''1''"
    using assms(2) by (simp add: ms_PutObject_def ms_writable_def append_version_def Let_def
        newVersionState_def go_simps)
  ultimately show ?thesis by (metis prod.collapse)
qed

theorem version_id_restarts_witness:
  "\<exists>m1 m2. ms_DeleteObject 7 ''b'' ''k'' ''1'' demo_one = (Ok '''', m1) \<and>
     ms_PutObject ''b'' ''k'' (demo_object ''k'') m1 = (Ok ''1'', m2)"
  using version_id_restarts [OF demo_one_facts(1,2,4), of 7 "demo_object ''k''"] by simp

text \<open>A store that is opened on a database with buckets knows their names but has no map of keys
  for them, so the first write to any of them panics (an assignment to an entry of a nil map).\<close>

theorem put_after_restart_panics:
  assumes "bolt_kv B" and "NewMetaStore B db = Ok m" and "db_wf B (ms_buckets m)"
    and "snd (BucketDB_List B (ms_buckets m)) = None" and "b \<in> bucket_names B (ms_buckets m)"
  shows "ms_PutObject b k meta m = (Panic ''assignment to entry in nil map'', m)"
  using reach_open_inv [OF assms(1-4)] NewMetaStore_Ok(1) [OF assms(2)] assms(5)
  by (simp add: ms_PutObject_def cache_exact_def)

theorem put_after_restart_panics_witness:
  "ms_PutObject ''b'' ''k'' (demo_object ''k'') (demo_meta\<lparr>ms_objects := [], ms_region := ''''\<rparr>) =
     (Panic ''assignment to entry in nil map'', demo_meta\<lparr>ms_objects := [], ms_region := ''''\<rparr>)"
  by (rule put_after_restart_panics [OF alist_kv, of "ms_buckets demo_meta"])
    (simp_all add: NewMetaStore_def OpenBucketDB_def alist_bolt_def bucketdb_defs cache_of_def
      ordered_entries_def db_wf_def demo_meta_def bucket_record_def dec_enc_BucketMeta
      bucket_names_def valid_utf8_def utf8_coerce_ascii)

end
