(* ===== verification/Listing.thy ===== *)
theory Listing
  imports MetaStore
begin

text \<open>
  The two listings of the metadata store (\<^verbatim>\<open>ListObjectsPaged\<close> and \<^verbatim>\<open>ListObjectVersions\<close> of
  \<^verbatim>\<open>internal/store/meta.go\<close>). Both walk a Go map, whose order is arbitrary, and sort what they
  collect. The locale \<open>paged_listing\<close> is the contract of a listing with continuation tokens; a
  client that follows the tokens is proved to see every item once.
\<close>

section \<open>Operations\<close>

record ObjectVersion =
  ov_Key :: string
  ov_VersionID :: string
  ov_IsLatest :: bool
  ov_LastModified :: string
  ov_ETag :: string
  ov_Size :: i64
  ov_StorageClass :: string

definition quoted :: "string \<Rightarrow> string" where
  "quoted s = CHR 0x22 # s @ [CHR 0x22]"

definition prefix_skip :: "string \<Rightarrow> string \<Rightarrow> bool" where
  "prefix_skip pfx key = (pfx \<noteq> '''' \<and> \<not> prefix pfx key)"

definition object_version :: "bool \<Rightarrow> ObjectMeta \<Rightarrow> ObjectVersion" where
  "object_version isLatest v =
     \<lparr>ov_Key = om_Key v, ov_VersionID = om_VersionID v, ov_IsLatest = isLatest,
      ov_LastModified = format_RFC3339 (om_CreatedAt v), ov_ETag = quoted (om_ETag v),
      ov_Size = om_Size v, ov_StorageClass = ''STANDARD''\<rparr>"

text \<open>The versions of one key, newest first, each with whether it is a delete marker.\<close>

definition key_versions :: "versionState \<Rightarrow> (bool \<times> ObjectVersion) list" where
  "key_versions vst =
     map (\<lambda>(i, v). (om_IsDeleteMarker v, object_version (int i = vs_Current vst) v))
       (rev (enumerate 0 (vs_Versions vst)))"

definition version_less :: "ObjectVersion \<Rightarrow> ObjectVersion \<Rightarrow> bool" where
  "version_less a b =
     (if ov_Key a \<noteq> ov_Key b then ov_Key a < ov_Key b else ov_VersionID b < ov_VersionID a)"

definition ms_ListObjectVersions :: "string \<Rightarrow> string \<Rightarrow> 'db MetaStore
    \<Rightarrow> ObjectVersion list \<times> ObjectVersion list" where
  "ms_ListObjectVersions bucket pfx m =
     (case map_of (ms_objects m) bucket of
        None \<Rightarrow> ([], [])
      | Some ks \<Rightarrow>
          (let all = concat (map (\<lambda>(key, vst). if prefix_skip pfx key then [] else key_versions vst) ks)
           in (sort_slice version_less (map snd (filter (\<lambda>p. \<not> fst p) all)),
               sort_slice version_less (map snd (filter fst all)))))"

definition key_less :: "ObjectMeta \<Rightarrow> ObjectMeta \<Rightarrow> bool" where
  "key_less a b = (om_Key a < om_Key b)"

text \<open>The current version of a key, if the listing shows it.\<close>

definition listed :: "string \<Rightarrow> string \<Rightarrow> string \<times> versionState \<Rightarrow> ObjectMeta list" where
  "listed pfx startAfter p =
     (case p of (k, vst) \<Rightarrow>
        if prefix_skip pfx k then []
        else if k \<le> startAfter then []
        else if vs_Current vst < 0 \<or> int (length (vs_Versions vst)) \<le> vs_Current vst then []
        else let cur = vs_Versions vst ! nat (vs_Current vst)
             in if om_IsDeleteMarker cur then [] else [cur])"

definition ms_ListObjectsPaged :: "string \<Rightarrow> string \<Rightarrow> string \<Rightarrow> int \<Rightarrow> 'db MetaStore
    \<Rightarrow> ObjectMeta list \<times> string" where
  "ms_ListObjectsPaged bucket pfx startAfter maxKeys m =
     (let n = (if maxKeys \<le> 0 then 1000 else nat maxKeys)
      in case map_of (ms_objects m) bucket of
           None \<Rightarrow> ([], '''')
         | Some ks \<Rightarrow>
             (let objs = sort_slice key_less (concat (map (listed pfx startAfter) ks))
              in if n < length objs
                 then (take n objs, om_Key (last (take n objs)))
                 else (objs, '''')))"

text \<open>A client that asks for page after page, from the token of the last one, until there is none.\<close>

fun follow_pages :: "nat \<Rightarrow> (string \<Rightarrow> 'o list \<times> string) \<Rightarrow> string \<Rightarrow> 'o list option" where
  "follow_pages 0 page after = None"
| "follow_pages (Suc fuel) page after =
     (case page after of (objs, token) \<Rightarrow>
        if token = '''' then Some objs
        else map_option ((@) objs) (follow_pages fuel page token))"

text \<open>Everything a listing of a bucket can show, in the order of the keys.\<close>

definition ms_items :: "'db MetaStore \<Rightarrow> string \<times> string \<Rightarrow> ObjectMeta list" where
  "ms_items m q =
     (case map_of (ms_objects m) (fst q) of None \<Rightarrow> []
      | Some ks \<Rightarrow> sort_slice key_less (concat (map (listed (snd q) '''') ks)))"

section \<open>The contract of a paged listing\<close>

locale paged_listing =
  fixes inv :: "'s \<Rightarrow> bool"
    and items :: "'s \<Rightarrow> 'q \<Rightarrow> 'o list"
    and key :: "'o \<Rightarrow> string"
    and page :: "'s \<Rightarrow> 'q \<Rightarrow> int \<Rightarrow> string \<Rightarrow> 'o list \<times> string"
  assumes items_sorted: "inv s \<Longrightarrow> sorted_wrt (\<lambda>a b. key a < key b) (items s q)"
    and items_keys: "inv s \<Longrightarrow> x \<in> set (items s q) \<Longrightarrow> key x \<noteq> ''''"
    and page_eq: "inv s \<Longrightarrow> 0 < n \<Longrightarrow> page s q n after =
      (let rest = filter (\<lambda>x. after < key x) (items s q)
       in if n < int (length rest) then (take (nat n) rest, key (last (take (nat n) rest))) else (rest, ''''))"
begin

lemma rest_after_page:
  assumes "inv s" and "rest = filter (\<lambda>x. after < key x) (items s q)" and "0 < k" and "k < length rest"
  shows "filter (\<lambda>x. key (last (take k rest)) < key x) (items s q) = drop k rest"
proof -
  let ?t = "last (take k rest)"
  have sorted: "sorted_wrt (\<lambda>a b. key a < key b) rest"
    using items_sorted [OF assms(1)] assms(2) by (simp add: sorted_wrt_filter)
  have t: "?t = rest ! (k - 1)" using assms(3,4) by (simp add: last_take_nth)
  then have "after < key ?t" using assms(2-4) nth_mem [of "k - 1" rest] by auto
  then have "filter (\<lambda>x. key ?t < key x) (items s q) = filter (\<lambda>x. key ?t < key x) rest"
    unfolding assms(2) by (auto intro!: filter_cong dest: order_less_trans)
  also have "\<dots> = filter (\<lambda>x. key ?t < key x) (take k rest) @ filter (\<lambda>x. key ?t < key x) (drop k rest)"
    by (metis append_take_drop_id filter_append)
  also have "filter (\<lambda>x. key ?t < key x) (take k rest) = []"
  proof -
    have "\<not> key ?t < key (rest ! i)" if "i < k" for i
    proof (cases "i = k - 1")
      case False
      with that have "i < k - 1" by simp
      with assms(4) have "key (rest ! i) < key (rest ! (k - 1))"
        using sorted_wrt_nth_less [OF sorted, of i "k - 1"] by simp
      then show ?thesis by (simp add: t)
    qed (simp add: t)
    then show ?thesis by (auto simp: filter_empty_conv in_set_conv_nth)
  qed
  also have "filter (\<lambda>x. key ?t < key x) (drop k rest) = drop k rest"
  proof -
    have "key ?t < key (rest ! i)" if "k \<le> i" "i < length rest" for i
      using that assms(3) sorted_wrt_nth_less [OF sorted, of "k - 1" i] by (simp add: t)
    then show ?thesis by (auto simp: filter_id_conv in_set_conv_nth)
  qed
  finally show ?thesis by simp
qed

text \<open>With more fuel than there are items left, the client returns, with all of them in order.\<close>

lemma follow_pages_all:
  assumes "inv s" and "0 < n" and "length (filter (\<lambda>x. after < key x) (items s q)) < fuel"
  shows "follow_pages fuel (page s q n) after = Some (filter (\<lambda>x. after < key x) (items s q))"
  using assms(3)
proof (induction fuel arbitrary: after)
  case 0
  then show ?case by simp
next
  case (Suc fuel)
  define rest where "rest = filter (\<lambda>x. after < key x) (items s q)"
  show ?case
  proof (cases "n < int (length rest)")
    case False
    then show ?thesis by (simp add: page_eq [OF assms(1,2)] Let_def flip: rest_def)
  next
    case True
    let ?k = "nat n" and ?t = "last (take (nat n) rest)"
    have k: "0 < ?k" "?k < length rest" using True assms(2) by auto
    note drop = rest_after_page [OF assms(1) rest_def k]
    have "?t = rest ! (?k - 1)" using k by (simp add: last_take_nth)
    then have "?t \<in> set rest" using k by (metis One_nat_def diff_less less_trans nth_mem zero_less_one)
    then have "?t \<in> set (items s q)" by (simp add: rest_def)
    then have "key ?t \<noteq> ''''" using items_keys [OF assms(1)] by blast
    moreover have "follow_pages fuel (page s q n) (key ?t) = Some (drop ?k rest)"
      using Suc.IH [of "key ?t"] Suc.prems k by (simp add: drop flip: rest_def)
    moreover have "page s q n after = (take ?k rest, key ?t)"
      using True by (simp add: page_eq [OF assms(1,2)] Let_def flip: rest_def)
    ultimately show ?thesis by (simp flip: rest_def)
  qed
qed

end

section \<open>The listings keep the contract\<close>

interpretation by_key: slice_order key_less
  unfolding key_less_def by (rule slice_order_key)

interpretation by_version: slice_order version_less
  by unfold_locales (auto simp: version_less_def split: if_splits)

text \<open>What one key contributes to a listing, when its version list is well formed.\<close>

lemma listed_wf:
  assumes "vs_wf k vs"
  shows "listed pfx after (k, vs) =
    (if prefix pfx k \<and> after < k \<and> \<not> om_IsDeleteMarker (last (vs_Versions vs))
     then [last (vs_Versions vs)] else [])"
proof -
  obtain n where n: "length (vs_Versions vs) = Suc n" and cur: "vs_Current vs = int n"
    using assms by (cases "length (vs_Versions vs)") (auto simp: vs_wf_def)
  from n have "vs_Versions vs \<noteq> []" by auto
  with n have "last (vs_Versions vs) = vs_Versions vs ! n" by (simp add: last_conv_nth)
  then show ?thesis
    using n by (auto simp: listed_def prefix_skip_def cur Let_def)
qed

lemma vs_wf_last_key: "vs_wf k vs \<Longrightarrow> om_Key (last (vs_Versions vs)) = k"
  by (simp add: vs_wf_def vs_numbered_def)

lemma listed_key: "vs_wf k vs \<Longrightarrow> x \<in> set (listed pfx after (k, vs)) \<Longrightarrow> om_Key x = k"
  by (auto simp: listed_wf vs_wf_last_key split: if_splits)

lemma listed_after:
  "vs_wf k vs \<Longrightarrow> listed pfx after (k, vs) = filter (\<lambda>x. after < om_Key x) (listed pfx '''' (k, vs))"
  by (cases k) (auto simp: listed_wf vs_wf_last_key less_le_trans)

lemma all_listed_after:
  "keys_wf ks \<Longrightarrow> concat (map (listed pfx after) ks) =
     filter (\<lambda>x. after < om_Key x) (concat (map (listed pfx '''') ks))"
  by (induction ks) (auto simp: keys_wf_def listed_after [of _ _ pfx after] split: prod.splits)

lemma all_listed_distinct: "keys_wf ks \<Longrightarrow> distinct (map om_Key (concat (map (listed pfx after) ks)))"
proof (induction ks)
  case Nil
  then show ?case by simp
next
  case (Cons p ks)
  obtain k vs where p: "p = (k, vs)" by (cases p)
  have wf: "vs_wf k vs" and ks: "keys_wf ks" and new: "k \<notin> fst ` set ks"
    using Cons.prems by (auto simp: p keys_wf_def)
  have "om_Key x \<in> fst ` set ks" if "x \<in> set (concat (map (listed pfx after) ks))" for x
  proof -
    from that obtain k' vs' where "(k', vs') \<in> set ks" and "x \<in> set (listed pfx after (k', vs'))"
      by auto
    moreover from this ks have "vs_wf k' vs'" by (auto simp: keys_wf_def)
    ultimately show ?thesis using listed_key by (metis fst_conv image_eqI)
  qed
  then have "om_Key ` set (concat (map (listed pfx after) ks)) \<inter> {k} = {}"
    using new by blast
  moreover have "om_Key ` set (listed pfx after p) \<subseteq> {k}" and "distinct (map om_Key (listed pfx after p))"
    using wf listed_key [OF wf] by (auto simp: p listed_wf split: if_splits)
  ultimately show ?case using Cons.IH [OF ks] by auto
qed

lemma key_separates:
  "distinct (map om_Key xs) \<Longrightarrow> x \<in> set xs \<Longrightarrow> y \<in> set xs \<Longrightarrow> \<not> key_less x y \<Longrightarrow> \<not> key_less y x \<Longrightarrow> x = y"
  by (auto simp: key_less_def distinct_map dest: inj_onD)

text \<open>Sorting the items after a key is taking the sorted items after it.\<close>

lemma sort_listed_after:
  assumes "keys_wf ks"
  shows "sort_slice key_less (concat (map (listed pfx after) ks)) =
    filter (\<lambda>x. after < om_Key x) (sort_slice key_less (concat (map (listed pfx '''') ks)))"
proof -
  let ?all = "concat (map (listed pfx '''') ks)"
  let ?keep = "filter (\<lambda>x. after < om_Key x)"
  have "?keep (sort_slice key_less ?all) = sort_slice key_less (?keep ?all)"
  proof (rule by_key.sort_slice_unique)
    show "mset (?keep (sort_slice key_less ?all)) = mset (?keep ?all)"
      by (simp add: by_key.mset_sort_slice)
    show "sorted_wrt (\<lambda>a b. \<not> key_less b a) (?keep (sort_slice key_less ?all))"
      by (rule sorted_wrt_filter) (rule by_key.sort_slice_ordered)
    show "\<And>x y. x \<in> set (?keep ?all) \<Longrightarrow> y \<in> set (?keep ?all) \<Longrightarrow> \<not> key_less x y \<Longrightarrow>
        \<not> key_less y x \<Longrightarrow> x = y"
      using key_separates [OF all_listed_distinct [OF assms, of pfx "''''"]] by auto
  qed
  then show ?thesis using all_listed_after [OF assms, of pfx after] by simp
qed

lemma items_strict:
  assumes "keys_wf ks"
  shows "sorted_wrt (\<lambda>a b. om_Key a < om_Key b) (sort_slice key_less (concat (map (listed pfx after) ks)))"
proof -
  let ?xs = "sort_slice key_less (concat (map (listed pfx after) ks))"
  have "mset (map om_Key ?xs) = mset (map om_Key (concat (map (listed pfx after) ks)))"
    using by_key.mset_sort_slice by (metis mset_map)
  then have "distinct (map om_Key ?xs)"
    using all_listed_distinct [OF assms] by (metis mset_eq_imp_distinct_iff)
  moreover have "sorted (map om_Key ?xs)"
    using by_key.sort_slice_ordered [of "concat (map (listed pfx after) ks)"]
    by (simp add: sorted_wrt_map key_less_def not_less)
  ultimately show ?thesis by (simp add: strict_sorted_iff flip: sorted_wrt_map)
qed

lemma items_in:
  assumes "ms_wf m" and "map_of (ms_objects m) b = Some ks"
  shows "x \<in> set (concat (map (listed pfx after) ks)) \<longleftrightarrow>
    (\<exists>k. prefix pfx k \<and> after < k \<and> ms_GetObject b k '''' m = Ok x)"
proof -
  have wf: "keys_wf ks" using assms by (rule ms_wf_lookup)
  then have "(\<exists>p \<in> set ks. x \<in> set (listed pfx after p)) \<longleftrightarrow>
      (\<exists>k vs. map_of ks k = Some vs \<and> x \<in> set (listed pfx after (k, vs)))"
    by (auto simp: keys_wf_def)
  moreover have "(\<exists>vs. map_of ks k = Some vs \<and> x \<in> set (listed pfx after (k, vs))) \<longleftrightarrow>
      prefix pfx k \<and> after < k \<and> ms_GetObject b k '''' m = Ok x" for k
  proof (cases "map_of ks k")
    case None
    then show ?thesis
      by (simp add: ms_GetObject_def assms(2))
  next
    case (Some vs)
    then have "vs_wf k vs" using wf by (simp add: keys_wf_lookup)
    then show ?thesis
      using Some by (auto simp: ms_GetObject_current [OF assms(1)] ms_history_def key_history_def
          assms(2) listed_wf vs_wf_def)
  qed
  ultimately show ?thesis by simp
qed

interpretation pages: paged_listing ms_wf ms_items om_Key
    "\<lambda>m q n after. ms_ListObjectsPaged (fst q) (snd q) after n m"
proof (unfold_locales, goal_cases)
  case (1 s q)
  then show ?case
    by (auto simp: ms_items_def intro!: items_strict dest: ms_wf_lookup split: option.splits)
next
  case (2 s x q)
  then obtain ks where ks: "map_of (ms_objects s) (fst q) = Some ks"
    and x: "x \<in> set (concat (map (listed (snd q) '''') ks))"
    by (cases "map_of (ms_objects s) (fst q)") (simp_all add: ms_items_def by_key.set_sort_slice)
  from x obtain k vs where k: "(k, vs) \<in> set ks" "x \<in> set (listed (snd q) '''' (k, vs))" by auto
  with ms_wf_lookup [OF 2(1) ks] have "vs_wf k vs" by (auto simp: keys_wf_def)
  with k(2) show ?case by (auto simp: listed_wf vs_wf_last_key split: if_splits)
next
  case (3 s n q after)
  then show ?case
    by (auto simp: ms_items_def ms_ListObjectsPaged_def Let_def dest!: ms_wf_lookup
        simp flip: sort_listed_after split: option.splits)
qed

subsection \<open>Versions\<close>

lemma key_versions_in:
  assumes "vs_wf k vs"
  shows "p \<in> set (key_versions vs) \<longleftrightarrow>
    (\<exists>i < length (vs_Versions vs). p = (om_IsDeleteMarker (vs_Versions vs ! i),
       object_version (Suc i = length (vs_Versions vs)) (vs_Versions vs ! i)))"
proof -
  have "int i = vs_Current vs \<longleftrightarrow> Suc i = length (vs_Versions vs)" for i
    using assms by (auto simp: vs_wf_def)
  then show ?thesis
    by (force simp: key_versions_def in_set_enumerate_eq)
qed

definition all_versions :: "string \<Rightarrow> keyspace \<Rightarrow> (bool \<times> ObjectVersion) list" where
  "all_versions pfx ks = concat (map (\<lambda>(key, vst). if prefix_skip pfx key then [] else key_versions vst) ks)"

lemma ms_ListObjectVersions_all:
  "map_of (ms_objects m) b = Some ks \<Longrightarrow> ms_ListObjectVersions b pfx m =
     (sort_slice version_less (map snd (filter (\<lambda>p. \<not> fst p) (all_versions pfx ks))),
      sort_slice version_less (map snd (filter fst (all_versions pfx ks))))"
  by (simp add: ms_ListObjectVersions_def all_versions_def Let_def)

lemma all_versions_in:
  assumes "keys_wf ks"
  shows "p \<in> set (all_versions pfx ks) \<longleftrightarrow>
    (\<exists>k i. prefix pfx k \<and> i < length (key_history ks k) \<and>
       p = (om_IsDeleteMarker (key_history ks k ! i),
            object_version (Suc i = length (key_history ks k)) (key_history ks k ! i)))"
proof -
  have "p \<in> set (all_versions pfx ks) \<longleftrightarrow>
      (\<exists>k vs. map_of ks k = Some vs \<and> prefix pfx k \<and> p \<in> set (key_versions vs))"
    using assms by (force simp: all_versions_def keys_wf_def prefix_skip_def split: if_splits)
  moreover have "(\<exists>vs. map_of ks k = Some vs \<and> p \<in> set (key_versions vs)) \<longleftrightarrow>
      (\<exists>i < length (key_history ks k). p = (om_IsDeleteMarker (key_history ks k ! i),
         object_version (Suc i = length (key_history ks k)) (key_history ks k ! i)))" for k
    using keys_wf_lookup [OF assms, of k] by (cases "map_of ks k") (simp_all add: key_history_def key_versions_in)
  ultimately show ?thesis by blast
qed

lemma all_versions_separate:
  assumes "keys_wf ks" and "p \<in> set (all_versions pfx ks)" and "q \<in> set (all_versions pfx ks)"
    and "ov_Key (snd p) = ov_Key (snd q)" and "ov_VersionID (snd p) = ov_VersionID (snd q)"
  shows "p = q"
proof -
  from assms(1,2) obtain k i where p: "i < length (key_history ks k)"
    "p = (om_IsDeleteMarker (key_history ks k ! i),
      object_version (Suc i = length (key_history ks k)) (key_history ks k ! i))"
    by (auto simp: all_versions_in)
  from assms(1,3) obtain k' j where q: "j < length (key_history ks k')"
    "q = (om_IsDeleteMarker (key_history ks k' ! j),
      object_version (Suc j = length (key_history ks k')) (key_history ks k' ! j))"
    by (auto simp: all_versions_in)
  have num: "vs_numbered k' (vs_before ks k')" for k' using assms(1) by (rule vs_before_numbered)
  have "om_Key (key_history ks k ! i) = k" "om_Key (key_history ks k' ! j) = k'"
    using num [of k] num [of k'] p(1) q(1) by (auto simp: vs_numbered_def vs_before_history)
  then have "k = k'" using assms(4) p(2) q(2) by (simp add: object_version_def)
  moreover have "distinct (map om_VersionID (key_history ks k))"
    using vs_numbered_distinct [OF num] by (simp add: vs_before_history)
  ultimately have "i = j"
    using assms(5) p q by (simp add: object_version_def distinct_conv_nth)
      (metis nth_map)
  then show ?thesis using p(2) q(2) \<open>k = k'\<close> by simp
qed

lemma version_separates:
  assumes "keys_wf ks" and "x \<in> set (map snd (filter P (all_versions pfx ks)))"
    and "y \<in> set (map snd (filter P (all_versions pfx ks)))"
    and "\<not> version_less x y" and "\<not> version_less y x"
  shows "x = y"
proof -
  obtain p q where p: "p \<in> set (all_versions pfx ks)" "x = snd p"
    and q: "q \<in> set (all_versions pfx ks)" "y = snd q"
    using assms(2,3) by auto
  have "ov_Key (snd p) = ov_Key (snd q)" and "ov_VersionID (snd p) = ov_VersionID (snd q)"
    using assms(4,5) p(2) q(2) by (auto simp: version_less_def split: if_splits)
  then have "p = q" using all_versions_separate [OF assms(1) p(1) q(1)] by simp
  then show ?thesis using p q by simp
qed

lemma keys_wf_perm: "keys_wf ks \<Longrightarrow> mset ks' = mset ks \<Longrightarrow> keys_wf ks'"
  unfolding keys_wf_def by (metis mset_eq_imp_distinct_iff mset_map set_mset_mset)

lemma mset_concat_map: "mset xs = mset ys \<Longrightarrow> mset (concat (map f xs)) = mset (concat (map f ys))"
  by (simp add: mset_concat flip: image_mset.compositionality mset_map) (metis mset_map sum_mset_sum_list)

section \<open>Properties\<close>

text \<open>C7. A client that follows the continuation tokens of \<^verbatim>\<open>ListObjectsPaged\<close>, with any page size,
  gets every object of the bucket under the prefix exactly once, in the order of the keys: the
  current version of every non-empty key that is not hidden by a delete marker, and nothing else.
  It needs at most one page more than there are objects.\<close>

theorem pages_complete:
  assumes "ms_wf m" and "0 < n" and "length (ms_items m (b, pfx)) < fuel"
  shows "\<exists>objs. follow_pages fuel (\<lambda>after. ms_ListObjectsPaged b pfx after n m) '''' = Some objs \<and>
      sorted_wrt (<) (map om_Key objs) \<and>
      (\<forall>x. x \<in> set objs \<longleftrightarrow> (\<exists>k. prefix pfx k \<and> k \<noteq> '''' \<and> ms_GetObject b k '''' m = Ok x))"
proof -
  let ?objs = "ms_items m (b, pfx)"
  have all: "filter (\<lambda>x. om_Key x \<noteq> '''') ?objs = ?objs"
    using pages.items_keys [OF assms(1), of _ "(b, pfx)"] by (auto simp: filter_id_conv)
  have "follow_pages fuel (\<lambda>after. ms_ListObjectsPaged b pfx after n m) '''' = Some ?objs"
    using pages.follow_pages_all [OF assms(1,2), of "''''" "(b, pfx)" fuel] assms(3) by (simp add: all)
  moreover have "sorted_wrt (<) (map om_Key ?objs)"
    using pages.items_sorted [OF assms(1)] by (simp add: sorted_wrt_map)
  moreover have "x \<in> set ?objs \<longleftrightarrow> (\<exists>k. prefix pfx k \<and> k \<noteq> '''' \<and> ms_GetObject b k '''' m = Ok x)" for x
  proof (cases "map_of (ms_objects m) b")
    case None
    then show ?thesis by (simp add: ms_items_def ms_GetObject_def)
  next
    case (Some ks)
    then show ?thesis
      using items_in [OF assms(1) Some, of x pfx "''''"]
      by (simp add: ms_items_def Some by_key.set_sort_slice)
  qed
  ultimately show ?thesis by blast
qed

theorem pages_complete_witness:
  "\<exists>objs. follow_pages 2 (\<lambda>after. ms_ListObjectsPaged ''b'' '''' after 1 demo_one) '''' = Some objs \<and>
     (\<forall>x. x \<in> set objs \<longleftrightarrow> (\<exists>k. prefix '''' k \<and> k \<noteq> '''' \<and> ms_GetObject ''b'' k '''' demo_one = Ok x))"
proof -
  have "length (ms_items demo_one (''b'', '''')) < 2"
    by (simp add: ms_items_def demo_one_eq demo_meta_def listed_def prefix_skip_def Let_def)
  from pages_complete [OF demo_one_facts(1) _ this, of 1] show ?thesis by fastforce
qed

text \<open>C35. Neither listing depends on the order in which Go iterates over the map of keys: permuting
  the entries of a bucket changes neither the page nor the lists of versions.\<close>

theorem listing_order_independent:
  assumes "ms_wf m" and "map_of (ms_objects m) b = Some ks" and "mset ks' = mset ks"
  shows "ms_ListObjectsPaged b pfx after n (set_keys b ks' m) = ms_ListObjectsPaged b pfx after n m \<and>
         ms_ListObjectVersions b pfx (set_keys b ks' m) = ms_ListObjectVersions b pfx m"
proof -
  have wf: "keys_wf ks" using assms(1,2) by (rule ms_wf_lookup)
  then have wf': "keys_wf ks'" using assms(3) by (rule keys_wf_perm)
  have "sort_slice key_less (concat (map (listed pfx after) ks')) =
      sort_slice key_less (concat (map (listed pfx after) ks))"
    using mset_concat_map [OF assms(3)] key_separates [OF all_listed_distinct [OF wf', of pfx after]]
    by (rule by_key.sort_slice_perm)
  moreover have "sort_slice version_less (map snd (filter P (all_versions pfx ks'))) =
      sort_slice version_less (map snd (filter P (all_versions pfx ks)))" for P
  proof (rule by_version.sort_slice_perm)
    have "mset (all_versions pfx ks') = mset (all_versions pfx ks)"
      unfolding all_versions_def using assms(3) by (rule mset_concat_map)
    then show "mset (map snd (filter P (all_versions pfx ks'))) = mset (map snd (filter P (all_versions pfx ks)))"
      by simp
  qed (rule version_separates [OF wf'])
  ultimately show ?thesis
    using assms(2) by (simp add: ms_ListObjectsPaged_def ms_ListObjectVersions_all)
qed

definition demo_two :: "(string, json) gomap MetaStore" where
  "demo_two = snd (ms_PutObject ''b'' ''a'' (demo_object ''a'') demo_one)"

lemma demo_two_eq:
  "demo_two = demo_meta\<lparr>ms_objects := [(''b'',
     [(''k'', \<lparr>vs_Versions = [(demo_object ''k'')\<lparr>om_VersionID := ''1''\<rparr>], vs_Current = 0, vs_NextID = 2\<rparr>),
      (''a'', \<lparr>vs_Versions = [(demo_object ''a'')\<lparr>om_VersionID := ''1''\<rparr>], vs_Current = 0, vs_NextID = 2\<rparr>)])]\<rparr>"
  by (simp add: demo_two_def demo_one_eq ms_PutObject_def demo_meta_def map_bool_def append_version_def
      newVersionState_def set_keys_def Let_def go_simps)

lemma demo_two_wf: "ms_wf demo_two"
  by (simp add: demo_two_eq demo_meta_def demo_object_def zero_meta_def ms_wf_def keys_wf_def
      vs_wf_def vs_numbered_def version_num_def digits_val_def digit_val_def go_simps)

theorem listing_order_independent_witness:
  "ms_ListObjectsPaged ''b'' '''' '''' 10
     (set_keys ''b'' (rev (snd (hd (ms_objects demo_two)))) demo_two) =
   ms_ListObjectsPaged ''b'' '''' '''' 10 demo_two"
proof -
  have "map_of (ms_objects demo_two) ''b'' = Some (snd (hd (ms_objects demo_two)))"
    by (simp add: demo_two_eq)
  from listing_order_independent [OF demo_two_wf this, of "rev (snd (hd (ms_objects demo_two)))"]
  show ?thesis by simp
qed

text \<open>C36. \<^verbatim>\<open>ListObjectVersions\<close> splits the versions of all keys under the prefix exactly between its two
  results, by whether they are delete markers, each with its identifier and with the latest flag
  set on the newest version of its key and on no other; both lists are in the order of the
  comparison function.\<close>

theorem versions_listed:
  assumes "ms_wf m"
  shows "(ov \<in> set (fst (ms_ListObjectVersions b pfx m)) \<longleftrightarrow>
           (\<exists>k i. prefix pfx k \<and> i < length (ms_history m b k) \<and>
              \<not> om_IsDeleteMarker (ms_history m b k ! i) \<and>
              ov = object_version (Suc i = length (ms_history m b k)) (ms_history m b k ! i))) \<and>
         (ov \<in> set (snd (ms_ListObjectVersions b pfx m)) \<longleftrightarrow>
           (\<exists>k i. prefix pfx k \<and> i < length (ms_history m b k) \<and>
              om_IsDeleteMarker (ms_history m b k ! i) \<and>
              ov = object_version (Suc i = length (ms_history m b k)) (ms_history m b k ! i))) \<and>
         sorted_wrt (\<lambda>x y. \<not> version_less y x) (fst (ms_ListObjectVersions b pfx m)) \<and>
         sorted_wrt (\<lambda>x y. \<not> version_less y x) (snd (ms_ListObjectVersions b pfx m))"
proof (cases "map_of (ms_objects m) b")
  case None
  then show ?thesis by (simp add: ms_ListObjectVersions_def ms_history_def)
next
  case (Some ks)
  have wf: "keys_wf ks" using assms Some by (rule ms_wf_lookup)
  have hist: "ms_history m b k = key_history ks k" for k by (simp add: ms_history_def Some)
  have "ov \<in> set (map snd (filter P (all_versions pfx ks))) \<longleftrightarrow>
      (\<exists>p. p \<in> set (all_versions pfx ks) \<and> P p \<and> ov = snd p)" for P by force
  then show ?thesis
    by (auto simp: ms_ListObjectVersions_all [OF Some] by_version.set_sort_slice
        by_version.sort_slice_ordered all_versions_in [OF wf] hist)
qed

theorem versions_listed_witness:
  "object_version True ((demo_object ''k'')\<lparr>om_VersionID := ''1''\<rparr>)
     \<in> set (fst (ms_ListObjectVersions ''b'' '''' demo_one))"
proof -
  have "\<exists>k i. prefix '''' k \<and> i < length (ms_history demo_one ''b'' k) \<and>
      \<not> om_IsDeleteMarker (ms_history demo_one ''b'' k ! i) \<and>
      object_version True ((demo_object ''k'')\<lparr>om_VersionID := ''1''\<rparr>) =
        object_version (Suc i = length (ms_history demo_one ''b'' k)) (ms_history demo_one ''b'' k ! i)"
    by (rule exI [of _ "''k''"], rule exI [of _ 0]) (simp add: demo_one_facts(4) demo_facts(5))
  then show ?thesis using versions_listed [OF demo_one_facts(1)] by blast
qed

text \<open>The listing of versions is not newest first once a key has ten of them: identifiers are
  compared as strings, so the well-formed history of versions 9 and 10 of a key is listed with 9
  before 10, although 10 is the latest.\<close>

definition demo_ten :: "(string, json) gomap MetaStore" where
  "demo_ten = demo_meta\<lparr>ms_objects := [(''b'', [(''k'',
     \<lparr>vs_Versions = [(demo_object ''k'')\<lparr>om_VersionID := ''9''\<rparr>, (demo_object ''k'')\<lparr>om_VersionID := ''10''\<rparr>],
      vs_Current = 1, vs_NextID = 11\<rparr>)])]\<rparr>"

theorem versions_not_newest_first:
  "ms_wf demo_ten \<and>
   map om_VersionID (ms_history demo_ten ''b'' ''k'') = [''9'', ''10''] \<and>
   map (\<lambda>ov. (ov_VersionID ov, ov_IsLatest ov)) (fst (ms_ListObjectVersions ''b'' '''' demo_ten)) =
     [(''9'', False), (''10'', True)]"
proof -
  have ten: "FormatInt 10 = ''10''"
    by (simp add: FormatInt_def nat_digits.simps [of 10] nat_digits.simps [of "Suc 0"])
  show ?thesis
    by (simp add: demo_ten_def demo_meta_def demo_object_def zero_meta_def ms_wf_def keys_wf_def
        vs_wf_def vs_numbered_def version_num_def digits_val_def digit_val_def go_simps ten
        ms_history_def key_history_def ms_ListObjectVersions_def prefix_skip_def key_versions_def
        object_version_def version_less_def)
qed

end
