(* ===== verification/Snapshot.thy ===== *)
theory Snapshot
  imports MetaStore
begin

text \<open>
  Snapshots of the metadata store (\<^verbatim>\<open>Snapshot\<close>, \<^verbatim>\<open>Restore\<close> and \<^verbatim>\<open>MarshalJSON\<close> of
  \<^verbatim>\<open>internal/store/meta.go\<close>, and the JSON form of the metadata that log entries carry too). A
  snapshot holds the version lists of every bucket; restoring one writes its keys over the keys that
  are there.
\<close>

section \<open>Operations\<close>

definition enc_ObjectMeta :: "ObjectMeta \<Rightarrow> json" where
  "enc_ObjectMeta m =
     JObj [(''Key'', json_string (om_Key m)), (''Size'', JInt (sint (om_Size m))),
           (''ETag'', json_string (om_ETag m)), (''ContentType'', json_string (om_ContentType m)),
           (''Sha256'', json_string (om_Sha256 m)), (''CreatedAt'', JTime (om_CreatedAt m)),
           (''VersionID'', json_string (om_VersionID m)),
           (''IsDeleteMarker'', JBool (om_IsDeleteMarker m))]"

fun dec_ObjectMeta :: "json \<Rightarrow> err + ObjectMeta" where
  "dec_ObjectMeta (JObj fs) =
     (case dec_string (json_field ''Key'' fs) of Inl e \<Rightarrow> Inl e | Inr key \<Rightarrow>
      (case dec_int64 (json_field ''Size'' fs) of Inl e \<Rightarrow> Inl e | Inr sz \<Rightarrow>
      (case dec_string (json_field ''ETag'' fs) of Inl e \<Rightarrow> Inl e | Inr etag \<Rightarrow>
      (case dec_string (json_field ''ContentType'' fs) of Inl e \<Rightarrow> Inl e | Inr ct \<Rightarrow>
      (case dec_string (json_field ''Sha256'' fs) of Inl e \<Rightarrow> Inl e | Inr sha \<Rightarrow>
      (case dec_time zero_time (json_field ''CreatedAt'' fs) of Inl e \<Rightarrow> Inl e | Inr t \<Rightarrow>
      (case dec_string (json_field ''VersionID'' fs) of Inl e \<Rightarrow> Inl e | Inr vid \<Rightarrow>
      (case dec_bool (json_field ''IsDeleteMarker'' fs) of Inl e \<Rightarrow> Inl e | Inr dm \<Rightarrow>
        Inr \<lparr>om_Key = key, om_Size = word_of_int sz, om_ETag = etag, om_ContentType = ct,
             om_Sha256 = sha, om_CreatedAt = t, om_VersionID = vid, om_IsDeleteMarker = dm\<rparr>))))))))"
| "dec_ObjectMeta JNull = Inr zero_meta"
| "dec_ObjectMeta _ = Inl type_error"

definition enc_versionEntry :: "ObjectMeta \<Rightarrow> json" where
  "enc_versionEntry m = JObj [(''meta'', enc_ObjectMeta m)]"

fun dec_versionEntry :: "json \<Rightarrow> err + ObjectMeta" where
  "dec_versionEntry (JObj fs) =
     (case json_field ''meta'' fs of None \<Rightarrow> Inr zero_meta | Some j \<Rightarrow> dec_ObjectMeta j)"
| "dec_versionEntry JNull = Inr zero_meta"
| "dec_versionEntry _ = Inl type_error"

definition enc_versionState :: "versionState \<Rightarrow> json" where
  "enc_versionState vs =
     JObj [(''versions'', JArr (map enc_versionEntry (vs_Versions vs))),
           (''current'', JInt (vs_Current vs)), (''nextID'', JInt (sint (vs_NextID vs)))]"

text \<open>A \<^verbatim>\<open>null\<close> where a version state is expected would leave a nil pointer in the map; no snapshot
  contains one, and the model counts it as malformed.\<close>

fun dec_versionState :: "json \<Rightarrow> err + versionState" where
  "dec_versionState (JObj fs) =
     (case dec_slice dec_versionEntry (json_field ''versions'' fs) of Inl e \<Rightarrow> Inl e | Inr vs \<Rightarrow>
      (case dec_int64 (json_field ''current'' fs) of Inl e \<Rightarrow> Inl e | Inr c \<Rightarrow>
       (case dec_int64 (json_field ''nextID'' fs) of Inl e \<Rightarrow> Inl e | Inr n \<Rightarrow>
        Inr \<lparr>vs_Versions = vs, vs_Current = c, vs_NextID = word_of_int n\<rparr>)))"
| "dec_versionState _ = Inl type_error"

definition ms_Snapshot :: "'db MetaStore \<Rightarrow> json" where
  "ms_Snapshot m = JObj [(''objects'', json_map (json_map enc_versionState) (ms_objects m))]"

definition ms_MarshalJSON :: "'db MetaStore \<Rightarrow> json" where
  "ms_MarshalJSON m = JObj [(''objects'', json_map (json_map enc_versionState) (ms_objects m))]"

fun dec_snapshot :: "json \<Rightarrow> err + (string, keyspace) gomap" where
  "dec_snapshot (JObj fs) = dec_map (\<lambda>j. dec_map dec_versionState (Some j)) (json_field ''objects'' fs)"
| "dec_snapshot JNull = Inr []"
| "dec_snapshot _ = Inl type_error"

text \<open>The two loops of \<^verbatim>\<open>Restore\<close>: every key of the snapshot is written over the map that is there.\<close>

definition merge_keys :: "keyspace \<Rightarrow> keyspace \<Rightarrow> keyspace" where
  "merge_keys old new = foldl (\<lambda>ks (k, vs). AList.update k vs ks) old new"

definition merge_objects :: "(string, keyspace) gomap \<Rightarrow> (string, keyspace) gomap
    \<Rightarrow> (string, keyspace) gomap" where
  "merge_objects old new =
     foldl (\<lambda>os (b, objs).
       AList.update b (merge_keys (case map_of os b of Some ks \<Rightarrow> ks | None \<Rightarrow> []) objs) os) old new"

definition ms_Restore :: "'db bolt \<Rightarrow> json \<Rightarrow> 'db MetaStore \<Rightarrow> unit outcome \<times> 'db MetaStore" where
  "ms_Restore B doc m =
     (case dec_snapshot doc of
        Inl e \<Rightarrow> (Err e, m)
      | Inr objs \<Rightarrow>
          (Ok (), m\<lparr>ms_cache := cache_of (fst (BucketDB_List B (ms_buckets m))),
                    ms_objects := merge_objects (ms_objects m) objs\<rparr>))"

section \<open>What survives the encoding\<close>

text \<open>Metadata all of whose strings are valid UTF-8.\<close>

definition meta_valid :: "ObjectMeta \<Rightarrow> bool" where
  "meta_valid m =
     (valid_utf8 (om_Key m) \<and> valid_utf8 (om_ETag m) \<and> valid_utf8 (om_ContentType m) \<and>
      valid_utf8 (om_Sha256 m) \<and> valid_utf8 (om_VersionID m))"

definition vs_serial :: "versionState \<Rightarrow> bool" where
  "vs_serial vs =
     ((\<forall>v \<in> set (vs_Versions vs). meta_valid v) \<and>
      - (2 ^ 63) \<le> vs_Current vs \<and> vs_Current vs < 2 ^ 63)"

definition ms_serial :: "'db MetaStore \<Rightarrow> bool" where
  "ms_serial m =
     (\<forall>(b, ks) \<in> set (ms_objects m). valid_utf8 b \<and> (\<forall>(k, vs) \<in> set ks. valid_utf8 k \<and> vs_serial vs))"

definition ms_lookup :: "'db MetaStore \<Rightarrow> string \<Rightarrow> string \<Rightarrow> versionState option" where
  "ms_lookup m b k = (case map_of (ms_objects m) b of None \<Rightarrow> None | Some ks \<Rightarrow> map_of ks k)"

section \<open>Lemmas\<close>

lemma sint_int64: "- (2 ^ 63) \<le> sint (w :: i64) \<and> sint w < 2 ^ 63"
  using sint_ge [of w] sint_lt [of w] by simp

lemma dec_enc_ObjectMeta: "meta_valid m \<Longrightarrow> dec_ObjectMeta (enc_ObjectMeta m) = Inr m"
  using sint_int64 [of "om_Size m"]
  by (simp add: enc_ObjectMeta_def json_field_def json_string_def meta_valid_def valid_utf8_def)

lemma dec_enc_versionEntry: "meta_valid m \<Longrightarrow> dec_versionEntry (enc_versionEntry m) = Inr m"
  by (simp add: enc_versionEntry_def json_field_def dec_enc_ObjectMeta)

lemma dec_enc_versionState: "vs_serial vs \<Longrightarrow> dec_versionState (enc_versionState vs) = Inr vs"
  using sint_int64 [of "vs_NextID vs"] dec_elems_map [of "vs_Versions vs" dec_versionEntry enc_versionEntry id]
  by (simp add: enc_versionState_def json_field_def vs_serial_def dec_enc_versionEntry)

text \<open>The map of keys that comes back, as a list, may be in another order.\<close>

definition decoded_keys :: "keyspace \<Rightarrow> keyspace" where
  "decoded_keys ks = projr (dec_map dec_versionState (Some (json_map enc_versionState ks)))"

lemma decoded_keys:
  assumes "distinct (map fst ks)" and "\<forall>(k, vs) \<in> set ks. valid_utf8 k \<and> vs_serial vs"
  shows "dec_map dec_versionState (Some (json_map enc_versionState ks)) = Inr (decoded_keys ks)"
    and "map_of (decoded_keys ks) = map_of ks" and "distinct (map fst (decoded_keys ks))"
proof -
  have "\<forall>(k, vs) \<in> set ks. dec_versionState (enc_versionState vs) = Inr (id vs) \<and> valid_utf8 k"
    using assms(2) by (auto simp: dec_enc_versionState)
  from dec_map_json_map [OF assms(1) this] obtain r where
    r: "dec_map dec_versionState (Some (json_map enc_versionState ks)) = Inr r"
      "map_of r = map_option id \<circ> map_of ks" "distinct (map fst r)" by blast
  moreover have "r = decoded_keys ks" using r(1) by (simp add: decoded_keys_def)
  moreover have "map_option id \<circ> map_of ks = map_of ks" by (simp add: fun_eq_iff option.map_id)
  ultimately show "dec_map dec_versionState (Some (json_map enc_versionState ks)) = Inr (decoded_keys ks)"
    and "map_of (decoded_keys ks) = map_of ks" and "distinct (map fst (decoded_keys ks))" by auto
qed

lemma dec_ms_Snapshot:
  assumes "ms_wf m" and "ms_serial m"
  shows "\<exists>r. dec_snapshot (ms_Snapshot m) = Inr r \<and>
    map_of r = map_option decoded_keys \<circ> map_of (ms_objects m) \<and> distinct (map fst r)"
proof -
  have "\<forall>(b, ks) \<in> set (ms_objects m). dec_map dec_versionState (Some (json_map enc_versionState ks)) =
      Inr (decoded_keys ks) \<and> valid_utf8 b"
  proof clarify
    fix b ks assume "(b, ks) \<in> set (ms_objects m)"
    with assms have "keys_wf ks" and "valid_utf8 b" and "\<forall>(k, vs) \<in> set ks. valid_utf8 k \<and> vs_serial vs"
      by (auto simp: ms_wf_def ms_serial_def)
    then show "dec_map dec_versionState (Some (json_map enc_versionState ks)) = Inr (decoded_keys ks) \<and>
        valid_utf8 b"
      using decoded_keys(1) by (simp add: keys_wf_def)
  qed
  moreover have "distinct (map fst (ms_objects m))" using assms(1) by (simp add: ms_wf_def)
  ultimately show ?thesis
    using dec_map_json_map [of "ms_objects m" "\<lambda>j. dec_map dec_versionState (Some j)"]
    by (simp add: ms_Snapshot_def json_field_def)
qed

lemma map_of_merge_keys:
  assumes "distinct (map fst new)"
  shows "map_of (merge_keys old new) k = (case map_of new k of None \<Rightarrow> map_of old k | Some vs \<Rightarrow> Some vs)"
  using assms unfolding merge_keys_def
proof (induction new arbitrary: old)
  case Nil
  then show ?case by simp
next
  case (Cons p new)
  then show ?case
    by (cases p) (auto split: option.splits dest: map_of_SomeD simp: image_iff)
qed

lemma map_of_merge_objects:
  assumes "distinct (map fst new)"
  shows "map_of (merge_objects old new) b =
    (case map_of new b of None \<Rightarrow> map_of old b
     | Some objs \<Rightarrow> Some (merge_keys (case map_of old b of Some ks \<Rightarrow> ks | None \<Rightarrow> []) objs))"
  using assms unfolding merge_objects_def
proof (induction new arbitrary: old)
  case Nil
  then show ?case by simp
next
  case (Cons p new)
  then show ?case
    by (cases p) (auto split: option.splits dest: map_of_SomeD simp: image_iff)
qed

text \<open>Reads after a restore: the snapshot where it has the key, the old state elsewhere.\<close>

lemma ms_Restore_lookup:
  assumes "ms_wf m" and "ms_serial m"
  shows "\<exists>m1. ms_Restore B (ms_Snapshot m) m0 = (Ok (), m1) \<and>
    ms_cache m1 = cache_of (fst (BucketDB_List B (ms_buckets m0))) \<and> ms_buckets m1 = ms_buckets m0 \<and>
    (\<forall>b. map_of (ms_objects m1) b = None \<longleftrightarrow>
       map_of (ms_objects m) b = None \<and> map_of (ms_objects m0) b = None) \<and>
    (\<forall>b k. ms_lookup m1 b k = (case ms_lookup m b k of None \<Rightarrow> ms_lookup m0 b k | Some vs \<Rightarrow> Some vs))"
proof -
  from dec_ms_Snapshot [OF assms] obtain r where r: "dec_snapshot (ms_Snapshot m) = Inr r"
    "\<And>b. map_of r b = map_option decoded_keys (map_of (ms_objects m) b)" "distinct (map fst r)"
    by (auto simp: fun_eq_iff)
  have dec: "map_of (decoded_keys ks) = map_of ks \<and> distinct (map fst (decoded_keys ks))"
    if "map_of (ms_objects m) b = Some ks" for b ks
  proof -
    have "distinct (map fst ks)" using ms_wf_lookup [OF assms(1) that] by (simp add: keys_wf_def)
    moreover have "\<forall>(k, vs) \<in> set ks. valid_utf8 k \<and> vs_serial vs"
      using assms(2) map_of_SomeD [OF that] by (auto simp: ms_serial_def)
    ultimately show ?thesis using decoded_keys(2,3) by blast
  qed
  define m1 where "m1 = m0\<lparr>ms_cache := cache_of (fst (BucketDB_List B (ms_buckets m0))),
    ms_objects := merge_objects (ms_objects m0) r\<rparr>"
  have objs: "map_of (ms_objects m1) b = (case map_of (ms_objects m) b of None \<Rightarrow> map_of (ms_objects m0) b
      | Some ks \<Rightarrow> Some (merge_keys (case map_of (ms_objects m0) b of Some ks \<Rightarrow> ks | None \<Rightarrow> []) (decoded_keys ks)))" for b
    by (simp add: m1_def map_of_merge_objects [OF r(3)] r(2) split: option.splits)
  have "ms_lookup m1 b k = (case ms_lookup m b k of None \<Rightarrow> ms_lookup m0 b k | Some vs \<Rightarrow> Some vs)" for b k
  proof (cases "map_of (ms_objects m) b")
    case None
    then show ?thesis by (simp add: ms_lookup_def objs)
  next
    case (Some ks)
    note keys = dec [OF Some]
    show ?thesis
      using keys by (auto simp: ms_lookup_def objs Some map_of_merge_keys split: option.splits)
  qed
  moreover have "ms_Restore B (ms_Snapshot m) m0 = (Ok (), m1)"
    by (simp add: ms_Restore_def r(1) m1_def)
  moreover have "map_of (ms_objects m1) b = None \<longleftrightarrow>
      map_of (ms_objects m) b = None \<and> map_of (ms_objects m0) b = None" for b
    by (simp add: objs split: option.splits)
  moreover have "ms_cache m1 = cache_of (fst (BucketDB_List B (ms_buckets m0)))"
    and "ms_buckets m1 = ms_buckets m0" by (simp_all add: m1_def)
  ultimately show ?thesis by blast
qed

lemma lookup_reads:
  "ms_history m b k = (case ms_lookup m b k of None \<Rightarrow> [] | Some vs \<Rightarrow> vs_Versions vs)"
  "ms_next m b k = (case ms_lookup m b k of None \<Rightarrow> 1 | Some vs \<Rightarrow> sint (vs_NextID vs))"
  by (simp_all add: ms_lookup_def ms_history_def key_history_def ms_next_def key_next_def split: option.splits)

lemma ms_GetObject_lookup:
  "ms_lookup m b k = ms_lookup m' b k \<Longrightarrow> ms_GetObject b k v m = ms_GetObject b k v m'"
  unfolding ms_GetObject_def ms_lookup_def
  by (cases "map_of (ms_objects m) b"; cases "map_of (ms_objects m') b") simp_all

section \<open>Reachable states\<close>

text \<open>
  The states of a store over its whole life, with the number of calls that led to it: it is opened on a
  well-formed database; the server makes calls for buckets and objects; and the Raft library restores
  documents, those that do not decode and the snapshots of other stores, whose strings are valid UTF-8,
  over a database that can be listed. The flag says whether a snapshot has been restored. Of two lives
  that meet in a restore the longer one counts.
\<close>

inductive ms_life :: "'db bolt \<Rightarrow> bool \<Rightarrow> nat \<Rightarrow> 'db MetaStore \<Rightarrow> bool" for B where
  opened: "NewMetaStore B file = Ok m \<Longrightarrow> db_wf B (ms_buckets m) \<Longrightarrow>
     snd (BucketDB_List B (ms_buckets m)) = None \<Longrightarrow> ms_life B False 0 m"
| called: "ms_life B r n m \<Longrightarrow> ms_step B m m' \<Longrightarrow> ms_life B r (Suc n) m'"
| refused: "ms_life B r n m \<Longrightarrow> dec_snapshot doc = Inl e \<Longrightarrow> ms_Restore B doc m = (x, m') \<Longrightarrow>
     ms_life B r (Suc n) m'"
| restored: "ms_life B r n m \<Longrightarrow> ms_life B r' n' m0 \<Longrightarrow> ms_serial m0 \<Longrightarrow> db_wf B (ms_buckets m) \<Longrightarrow>
     snd (BucketDB_List B (ms_buckets m)) = None \<Longrightarrow> ms_Restore B (ms_Snapshot m0) m = (x, m') \<Longrightarrow>
     ms_life B True (Suc (max n n')) m'"

text \<open>What a restore keeps.\<close>

lemma keys_wf_lookups: "distinct (map fst ks) \<Longrightarrow> (\<And>k vs. map_of ks k = Some vs \<Longrightarrow> vs_wf k vs) \<Longrightarrow> keys_wf ks"
  by (auto simp: keys_wf_def)

lemma merge_keys_wf: "keys_wf old \<Longrightarrow> \<forall>(k, vs) \<in> set new. vs_wf k vs \<Longrightarrow> keys_wf (merge_keys old new)"
  unfolding merge_keys_def by (induction new arbitrary: old) (auto simp: keys_wf_update)

lemma merge_objects_wf:
  assumes "distinct (map fst old) \<and> (\<forall>(b, ks) \<in> set old. keys_wf ks)" and "\<forall>(b, ks) \<in> set new. keys_wf ks"
  shows "distinct (map fst (merge_objects old new)) \<and> (\<forall>(b, ks) \<in> set (merge_objects old new). keys_wf ks)"
  using assms unfolding merge_objects_def
proof (induction new arbitrary: old)
  case (Cons p new)
  obtain b ks where p: "p = (b, ks)" by (cases p)
  let ?ks = "merge_keys (case map_of old b of Some ks \<Rightarrow> ks | None \<Rightarrow> []) ks"
  have "keys_wf ?ks"
    using Cons.prems by (intro merge_keys_wf) (auto simp: p keys_wf_def dest: map_of_SomeD split: option.split)
  from Cons.IH [OF objects_wf_update [OF Cons.prems(1) this, of b]] Cons.prems(2) show ?case by (simp add: p)
qed simp

lemma Restore_wf:
  assumes "ms_wf m0" and "ms_serial m0" and "ms_wf m" and "ms_Restore B (ms_Snapshot m0) m = (x, m')"
  shows "ms_wf m'"
proof -
  from dec_ms_Snapshot [OF assms(1,2)] obtain r where r: "dec_snapshot (ms_Snapshot m0) = Inr r"
    "\<And>b. map_of r b = map_option decoded_keys (map_of (ms_objects m0) b)" "distinct (map fst r)"
    by (auto simp: fun_eq_iff)
  have "keys_wf ks'" if mem: "(b, ks') \<in> set r" for b ks'
  proof -
    obtain ks where ks: "map_of (ms_objects m0) b = Some ks" "ks' = decoded_keys ks"
      using map_of_is_SomeI [OF r(3) mem] by (auto simp: r(2))
    have "keys_wf ks" using assms(1) ks(1) by (rule ms_wf_lookup)
    moreover have "\<forall>(k, vs) \<in> set ks. valid_utf8 k \<and> vs_serial vs"
      using assms(2) map_of_SomeD [OF ks(1)] by (auto simp: ms_serial_def)
    ultimately have "map_of ks' = map_of ks" "distinct (map fst ks')"
      using decoded_keys(2,3) [of ks] by (simp_all add: ks(2) keys_wf_def)
    then show ?thesis using keys_wf_lookup [OF \<open>keys_wf ks\<close>] by (intro keys_wf_lookups) simp_all
  qed
  then have "\<forall>(b, ks) \<in> set r. keys_wf ks" by blast
  from merge_objects_wf [OF _ this, of "ms_objects m"] assms(3,4) show ?thesis
    by (auto simp: ms_Restore_def r(1) ms_wf_def)
qed

lemma Restore_counters:
  assumes "ms_wf m0" and "ms_serial m0" and "counters_le N m0" and "counters_le N m"
    and "ms_Restore B (ms_Snapshot m0) m = (x, m')"
  shows "counters_le N m'"
proof -
  have look: "ms_lookup m' b k = (case ms_lookup m0 b k of None \<Rightarrow> ms_lookup m b k | Some vs \<Rightarrow> Some vs)" for b k
    using ms_Restore_lookup [OF assms(1,2), of B m] assms(5) by auto
  have "ms_next m' b k = ms_next m0 b k \<or> ms_next m' b k = ms_next m b k" for b k
    by (simp add: lookup_reads(2) look split: option.split)
  then show ?thesis using assms(3,4) unfolding counters_le_def by metis
qed

lemma Restore_cache:
  assumes "bolt_kv B" and "db_wf B (ms_buckets m)" and "snd (BucketDB_List B (ms_buckets m)) = None"
    and "ms_Restore B doc m = (Ok u, m')"
  shows "cache_exact B m'"
proof -
  obtain bs where bs: "BucketDB_List B (ms_buckets m) = (bs, None)" using assms(3) by (metis prod.collapse)
  then have "set (map b_Name bs) = bucket_names B (ms_buckets m)"
    using bolt_kv.List_wf [OF assms(1,2)] by (simp add: bucket_names_def)
  then show ?thesis
    using assms(4) bs by (auto simp: ms_Restore_def cache_exact_def map_bool_cache_of split: sum.splits)
qed

lemma ms_life_inv:
  assumes "ms_life B r n m" and "bolt_kv B" and "int n < 2 ^ 63 - 2"
  shows "ms_wf m \<and> counters_le (int n + 1) m \<and> cache_exact B m \<and> (r \<or> keys_registered m)"
  using assms(1,3)
proof (induction rule: ms_life.induct)
  case (opened f m)
  then show ?case using reach_open_inv [OF assms(2)] by simp
next
  case (called r n m m')
  then have "ms_wf m" "counters_le (int n + 1) m" "cache_exact B m" "int n + 1 < 2 ^ 63 - 1" by auto
  then show ?case
    using ms_step_wf [OF called.hyps(2), of "int n + 1"] cache_exact_step [OF assms(2) called.hyps(2)]
      keys_registered_step [OF called.hyps(2)] called
    by (auto simp: add.commute)
next
  case (refused r n m doc e x m')
  then have "m' = m" by (simp add: ms_Restore_def)
  then show ?case using refused counters_le_mono [of "int n + 1" m "int (Suc n) + 1"] by auto
next
  case (restored r n m r' n' m0 x m')
  let ?N = "int (Suc (max n n')) + 1"
  have wf: "ms_wf m" "ms_wf m0" "counters_le (int n + 1) m" "counters_le (int n' + 1) m0"
    using restored.IH restored.prems by auto
  have "counters_le ?N m" "counters_le ?N m0" using wf(3,4) by (auto elim!: counters_le_mono)
  moreover have "x = Ok ()"
    using ms_Restore_lookup [OF wf(2) restored.hyps(3), of B m] restored.hyps(6) by auto
  ultimately show ?case
    using Restore_wf [OF wf(2) restored.hyps(3) wf(1) restored.hyps(6)]
      Restore_counters [OF wf(2) restored.hyps(3) _ _ restored.hyps(6), of ?N]
      Restore_cache [OF assms(2) restored.hyps(4,5), of _ "()" m'] restored.hyps(6) by blast
qed

section \<open>Properties\<close>

text \<open>C10. Restoring a snapshot into a store without objects gives back the store the snapshot was
  taken of: the same buckets, and for every bucket and key the same versions, the same current
  version, the same counter and so the same answer to every read. The strings of the store have to
  be valid UTF-8.\<close>

theorem snapshot_restore_roundtrip:
  assumes "ms_wf m" and "ms_serial m" and "ms_objects m0 = []"
  shows "\<exists>m1. ms_Restore B (ms_Snapshot m) m0 = (Ok (), m1) \<and>
      (\<forall>b. map_of (ms_objects m1) b = None \<longleftrightarrow> map_of (ms_objects m) b = None) \<and>
      (\<forall>b k. ms_lookup m1 b k = ms_lookup m b k) \<and>
      (\<forall>b k v. ms_GetObject b k v m1 = ms_GetObject b k v m)"
proof -
  from ms_Restore_lookup [OF assms(1,2), of B m0] obtain m1 where
    m1: "ms_Restore B (ms_Snapshot m) m0 = (Ok (), m1)"
      "\<And>b. map_of (ms_objects m1) b = None \<longleftrightarrow>
         map_of (ms_objects m) b = None \<and> map_of (ms_objects m0) b = None"
      "\<And>b k. ms_lookup m1 b k = (case ms_lookup m b k of None \<Rightarrow> ms_lookup m0 b k | Some vs \<Rightarrow> Some vs)"
    by blast
  have "ms_lookup m0 b k = None" for b k by (simp add: ms_lookup_def assms(3))
  then have "ms_lookup m1 b k = ms_lookup m b k" for b k
    by (simp add: m1(3) split: option.splits)
  moreover from this have "ms_GetObject b k v m1 = ms_GetObject b k v m" for b k v
    by (rule ms_GetObject_lookup)
  moreover have "map_of (ms_objects m1) b = None \<longleftrightarrow> map_of (ms_objects m) b = None" for b
    by (simp add: m1(2) assms(3))
  ultimately show ?thesis using m1(1) by blast
qed

lemma demo_one_serial: "ms_serial demo_one"
  by (simp add: demo_one_eq demo_meta_def demo_object_def zero_meta_def ms_serial_def vs_serial_def
      meta_valid_def valid_utf8_def utf8_coerce_ascii)

theorem snapshot_restore_roundtrip_witness:
  "\<exists>m1. ms_Restore alist_bolt (ms_Snapshot demo_one) demo_opened = (Ok (), m1) \<and>
     (\<forall>b k v. ms_GetObject b k v m1 = ms_GetObject b k v demo_one)"
proof -
  have "ms_objects demo_opened = []" by (simp add: demo_opened_def)
  from snapshot_restore_roundtrip [OF demo_one_facts(1) demo_one_serial this, of alist_bolt]
  show ?thesis by blast
qed


text \<open>A node without buckets restores the snapshot of one that has a bucket.\<close>

definition demo_created :: "(string, json) gomap MetaStore" where
  "demo_created = snd (ms_CreateBucket alist_bolt 0 ''b'' demo_opened)"

lemma demo_created_eq: "demo_created =
    \<lparr>ms_buckets = [(''b'', enc_BucketMeta \<lparr>bm_Name = ''b'', bm_Region = '''', bm_CreatedAt = 0\<rparr>)],
     ms_cache = [(''b'', True)], ms_objects = [(''b'', [])], ms_region = ''''\<rparr>"
  by (simp add: demo_created_def demo_opened_def ms_CreateBucket_def bucketdb_defs alist_bolt_def)

lemma demo_lives: "ms_life alist_bolt False 0 demo_opened" "ms_life alist_bolt False 1 demo_created"
proof -
  show opened: "ms_life alist_bolt False 0 demo_opened"
    by (rule opened [of _ "[]"])
      (simp_all add: NewMetaStore_def OpenBucketDB_def alist_bolt_def bucketdb_defs cache_of_def
        ordered_entries_def db_wf_def demo_opened_def)
  have "ms_step alist_bolt demo_opened demo_created"
    unfolding demo_created_def by (rule step_create [of _ 0 "''b''"]) (rule surjective_pairing)
  from called [OF opened this] show "ms_life alist_bolt False 1 demo_created" by simp
qed


text \<open>Restoring does not discard the state that was there: a key the snapshot does not have keeps
  the versions it had before the restore.\<close>

theorem restore_keeps_stale_keys:
  assumes "ms_wf m" and "ms_serial m" and "ms_lookup m b k = None" and "ms_lookup m0 b k = Some vs"
  shows "\<exists>m1. ms_Restore B (ms_Snapshot m) m0 = (Ok (), m1) \<and> ms_lookup m1 b k = Some vs \<and>
      ms_GetObject b k v m1 = ms_GetObject b k v m0"
proof -
  from ms_Restore_lookup [OF assms(1,2), of B m0] obtain m1 where
    m1: "ms_Restore B (ms_Snapshot m) m0 = (Ok (), m1)"
      "ms_lookup m1 b k = (case ms_lookup m b k of None \<Rightarrow> ms_lookup m0 b k | Some vs \<Rightarrow> Some vs)"
    by blast
  from m1(2) have "ms_lookup m1 b k = ms_lookup m0 b k" by (simp add: assms(3))
  then show ?thesis using m1(1) assms(4) ms_GetObject_lookup [of m1 b k m0] by auto
qed

theorem restore_keeps_stale_keys_witness:
  "\<exists>m1. ms_Restore alist_bolt (ms_Snapshot demo_meta) demo_one = (Ok (), m1) \<and>
     ms_GetObject ''b'' ''k'' '''' m1 = ms_GetObject ''b'' ''k'' '''' demo_one"
proof -
  have "ms_serial demo_meta" and "ms_lookup demo_meta ''b'' ''k'' = None"
    by (simp_all add: ms_serial_def demo_meta_def ms_lookup_def valid_utf8_def utf8_coerce_ascii)
  moreover obtain vs where "ms_lookup demo_one ''b'' ''k'' = Some vs"
    by (simp add: ms_lookup_def demo_one_eq)
  ultimately show ?thesis
    using restore_keeps_stale_keys [OF demo_facts(1), of "''b''" "''k''" demo_one vs alist_bolt "''''"]
    by blast
qed

end
