(* ===== verification/Raft.thy ===== *)
theory Raft
  imports Snapshot
begin

text \<open>
  Replication: the operations of the log (\<^verbatim>\<open>RaftOp\<close> and \<^verbatim>\<open>ApplyOp\<close> of
  \<^verbatim>\<open>internal/store/store.go\<close>), the state machine that applies them
  (\<^verbatim>\<open>internal/raft/fsm.go\<close>) and the node (\<^verbatim>\<open>internal/raft/raft.go\<close>). The consensus library
  \<^verbatim>\<open>hashicorp/raft\<close> is not part of the repository: its answers are the fields of the record
  \<open>raft_lib\<close>. What is relied on is what it documents: when \<^verbatim>\<open>Apply\<close> reports no error the entry was
  committed and the local state machine has applied it before the call returns.
\<close>

section \<open>Log operations\<close>

record RaftOp =
  op_Kind :: string
  op_Bucket :: string
  op_Key :: string
  op_VersionID :: string
  op_Meta :: "json option"

definition omitempty :: "string \<Rightarrow> string \<Rightarrow> (string \<times> json) list" where
  "omitempty name s = (if s = '''' then [] else [(name, json_string s)])"

definition enc_RaftOp :: "RaftOp \<Rightarrow> json" where
  "enc_RaftOp op =
     JObj ([(''kind'', json_string (op_Kind op))] @ omitempty ''bucket'' (op_Bucket op) @
           omitempty ''key'' (op_Key op) @ omitempty ''versionID'' (op_VersionID op) @
           (case op_Meta op of None \<Rightarrow> [] | Some j \<Rightarrow> [(''meta'', j)]))"

fun dec_RaftOp :: "json \<Rightarrow> err + RaftOp" where
  "dec_RaftOp (JObj fs) =
     (case dec_string (json_field ''kind'' fs) of Inl e \<Rightarrow> Inl e | Inr kind \<Rightarrow>
      (case dec_string (json_field ''bucket'' fs) of Inl e \<Rightarrow> Inl e | Inr bucket \<Rightarrow>
       (case dec_string (json_field ''key'' fs) of Inl e \<Rightarrow> Inl e | Inr key \<Rightarrow>
        (case dec_string (json_field ''versionID'' fs) of Inl e \<Rightarrow> Inl e | Inr vid \<Rightarrow>
         Inr \<lparr>op_Kind = kind, op_Bucket = bucket, op_Key = key, op_VersionID = vid,
              op_Meta = json_field ''meta'' fs\<rparr>))))"
| "dec_RaftOp JNull =
     Inr \<lparr>op_Kind = '''', op_Bucket = '''', op_Key = '''', op_VersionID = '''', op_Meta = None\<rparr>"
| "dec_RaftOp _ = Inl type_error"

fun drop_value :: "'a outcome \<times> 's \<Rightarrow> unit outcome \<times> 's" where
  "drop_value (Ok _, s) = (Ok (), s)"
| "drop_value (Err e, s) = (Err e, s)"
| "drop_value (Panic p, s) = (Panic p, s)"

definition ApplyOp :: "time \<Rightarrow> RaftOp \<Rightarrow> 'db MetaStore \<Rightarrow> unit outcome \<times> 'db MetaStore" where
  "ApplyOp now op m =
     (if op_Kind op = ''put_object'' then
        (case op_Meta op of
           None \<Rightarrow> (Err (ErrText ''unexpected end of JSON input''), m)
         | Some j \<Rightarrow>
             (case dec_ObjectMeta j of
                Inl e \<Rightarrow> (Err e, m)
              | Inr meta \<Rightarrow> drop_value (ms_PutObject (op_Bucket op) (op_Key op) meta m)))
      else if op_Kind op = ''delete_object'' then
        drop_value (ms_DeleteObject now (op_Bucket op) (op_Key op) '''' m)
      else if op_Kind op = ''delete_version'' then
        drop_value (ms_DeleteObject now (op_Bucket op) (op_Key op) (op_VersionID op) m)
      else (Ok (), m))"

section \<open>The state machine\<close>

definition fsm_Apply :: "time \<Rightarrow> json \<Rightarrow> 'db MetaStore \<Rightarrow> unit outcome \<times> 'db MetaStore" where
  "fsm_Apply now data m =
     (case dec_RaftOp data of Inl e \<Rightarrow> (Err e, m) | Inr op \<Rightarrow> ApplyOp now op m)"

text \<open>
  \<^verbatim>\<open>Snapshot\<close> returns a value that holds the pointer to the metadata store, so what
  \<^verbatim>\<open>Persist\<close> writes is the state at the time it runs. The sink either takes the document or fails,
  and is then cancelled.
\<close>

datatype sink = SinkCancelled | SinkClosed json

definition fsm_Persist :: "(json \<Rightarrow> err option) \<Rightarrow> err option \<Rightarrow> 'db MetaStore
    \<Rightarrow> unit outcome \<times> sink" where
  "fsm_Persist write close m =
     (case write (ms_Snapshot m) of
        Some e \<Rightarrow> (Err e, SinkCancelled)
      | None \<Rightarrow>
          ((case close of None \<Rightarrow> Ok () | Some e \<Rightarrow> Err e), SinkClosed (ms_Snapshot m)))"

definition fsm_Restore :: "'db bolt \<Rightarrow> json \<Rightarrow> 'db MetaStore \<Rightarrow> unit outcome \<times> 'db MetaStore" where
  "fsm_Restore B doc m = ms_Restore B doc m"

text \<open>A node applies the committed entries one after the other, each at a time of its own clock. The
  results go to whoever proposed the entry; a panic ends the process.\<close>

fun replay :: "(time \<times> json) list \<Rightarrow> 'db MetaStore \<Rightarrow> unit outcome \<times> 'db MetaStore" where
  "replay [] m = (Ok (), m)"
| "replay ((t, data) # log) m =
     (case fsm_Apply t data m of
        (Panic p, m') \<Rightarrow> (Panic p, m')
      | (_, m') \<Rightarrow> replay log m')"

section \<open>The node\<close>

record raft_lib =
  rl_leader :: bool
  rl_apply :: "json \<Rightarrow> err option"  \<comment> \<open>\<^verbatim>\<open>Apply(data, 10s).Error()\<close>\<close>
  rl_addvoter :: "string \<Rightarrow> string \<Rightarrow> err option"  \<comment> \<open>\<^verbatim>\<open>AddVoter(id, addr, 0, 10s).Error()\<close>\<close>
  rl_bootstrap :: "(string \<times> string) list \<Rightarrow> err option"
  rl_shutdown :: "err option"

record RaftNode =
  rn_raft :: raft_lib
  rn_localID :: string
  rn_addr :: string

record raft_config =
  rc_LocalID :: string
  rc_SnapshotInterval :: time
  rc_SnapshotThreshold :: nat
  rc_ElectionTimeout :: time
  rc_HeartbeatTimeout :: time
  rc_LeaderLeaseTimeout :: time

text \<open>The constructors of the library that \<^verbatim>\<open>New\<close> calls in turn, as they answer.\<close>

record raft_setup =
  rs_transport :: "string \<Rightarrow> err + string"  \<comment> \<open>\<^verbatim>\<open>NewTCPTransport\<close> and its \<^verbatim>\<open>LocalAddr()\<close>\<close>
  rs_snapshots :: "string \<Rightarrow> err option"
  rs_boltdb :: "string \<Rightarrow> err option"
  rs_raft :: "raft_config \<Rightarrow> err + raft_lib"

definition millisecond :: time where
  "millisecond = 10 ^ 6"

definition raft_New :: "raft_setup \<Rightarrow> string \<Rightarrow> string \<Rightarrow> string \<Rightarrow> RaftNode outcome" where
  "raft_New S nodeID raftDir bind =
     (case rs_transport S bind of
        Inl e \<Rightarrow> Err (ErrWrap ''raft transport'' e)
      | Inr addr \<Rightarrow>
          (case rs_snapshots S raftDir of
             Some e \<Rightarrow> Err (ErrWrap ''raft snapshots'' e)
           | None \<Rightarrow>
               (case rs_boltdb S (raftDir @ ''/raft.db'') of
                  Some e \<Rightarrow> Err (ErrWrap ''raft bolt db'' e)
                | None \<Rightarrow>
                    (case rs_raft S \<lparr>rc_LocalID = nodeID, rc_SnapshotInterval = 120000 * millisecond,
                                     rc_SnapshotThreshold = 8192, rc_ElectionTimeout = 300 * millisecond,
                                     rc_HeartbeatTimeout = 200 * millisecond,
                                     rc_LeaderLeaseTimeout = 150 * millisecond\<rparr> of
                       Inl e \<Rightarrow> Err (ErrWrap ''raft new'' e)
                     | Inr r \<Rightarrow> Ok \<lparr>rn_raft = r, rn_localID = nodeID, rn_addr = addr\<rparr>))))"

definition error_of :: "err option \<Rightarrow> unit outcome" where
  "error_of e = (case e of None \<Rightarrow> Ok () | Some e \<Rightarrow> Err e)"

definition RaftNode_Bootstrap :: "RaftNode \<Rightarrow> unit outcome" where
  "RaftNode_Bootstrap n = error_of (rl_bootstrap (rn_raft n) [(rn_localID n, rn_addr n)])"

text \<open>\<^verbatim>\<open>raft.ErrNotLeader\<close> of the library.\<close>

definition raft_ErrNotLeader :: err where
  "raft_ErrNotLeader = ErrText ''node is not the leader''"

definition RaftNode_AddVoter :: "RaftNode \<Rightarrow> string \<Rightarrow> string \<Rightarrow> unit outcome" where
  "RaftNode_AddVoter n nid addr =
     (case rl_addvoter (rn_raft n) nid addr of
        None \<Rightarrow> Ok ()
      | Some e \<Rightarrow> if errors_Is e raft_ErrNotLeader then Err ErrNotLeader else Err e)"

text \<open>\<^verbatim>\<open>Apply\<close> looks at the error of the future and never at its response, which is what the state
  machine returned. \<^verbatim>\<open>json.Marshal\<close> cannot fail on an operation whose metadata is a document.\<close>

definition RaftNode_Apply :: "time \<Rightarrow> RaftNode \<Rightarrow> RaftOp \<Rightarrow> 'db MetaStore
    \<Rightarrow> unit outcome \<times> 'db MetaStore" where
  "RaftNode_Apply now n op m =
     (let data = enc_RaftOp op
      in case rl_apply (rn_raft n) data of
           Some e \<Rightarrow> (Err (ErrWrap ''raft apply'' e), m)
         | None \<Rightarrow>
             (case fsm_Apply now data m of
                (Panic p, m') \<Rightarrow> (Panic p, m')
              | (_, m') \<Rightarrow> (Ok (), m')))"

definition RaftNode_Close :: "RaftNode \<Rightarrow> unit outcome" where
  "RaftNode_Close n = error_of (rl_shutdown (rn_raft n))"

definition RaftNode_IsLeader :: "RaftNode \<Rightarrow> bool" where
  "RaftNode_IsLeader n = rl_leader (rn_raft n)"

section \<open>Replicas\<close>

text \<open>
  A machine that several replicas run: applying an operation changes what is visible in a way that
  depends on the visible state alone, not on the clock of the replica.
\<close>

fun run_log :: "('r \<Rightarrow> bool) \<Rightarrow> (time \<Rightarrow> 'op \<Rightarrow> 's \<Rightarrow> 'r \<times> 's) \<Rightarrow> 'r \<Rightarrow> (time \<times> 'op) list \<Rightarrow> 's
    \<Rightarrow> 'r \<times> 's" where
  "run_log stop f ok [] s = (ok, s)"
| "run_log stop f ok ((t, op) # log) s =
     (case f t op s of (r, s') \<Rightarrow> if stop r then (r, s') else run_log stop f ok log s')"

locale replicated_machine =
  fixes apply_op :: "time \<Rightarrow> 'op \<Rightarrow> 's \<Rightarrow> 'r \<times> 's"
    and view :: "'s \<Rightarrow> 'v"
    and clock_free :: "'op \<Rightarrow> bool"
  assumes apply_view: "view s = view s' \<Longrightarrow> clock_free op \<Longrightarrow>
      fst (apply_op t op s) = fst (apply_op t' op s') \<and>
      view (snd (apply_op t op s)) = view (snd (apply_op t' op s'))"
begin

text \<open>The same operations in the same order, at any times, give the same result and the same view.\<close>

lemma runs_agree:
  assumes "view s = view s'" and "map snd log = map snd log'" and "\<forall>op \<in> snd ` set log. clock_free op"
  shows "fst (run_log stop apply_op ok log s) = fst (run_log stop apply_op ok log' s') \<and>
         view (snd (run_log stop apply_op ok log s)) = view (snd (run_log stop apply_op ok log' s'))"
  using assms
proof (induction log arbitrary: log' s s')
  case Nil
  then show ?case by simp
next
  case (Cons p log)
  then obtain t op t' r where p: "p = (t, op)" and log': "log' = (t', op) # r" "map snd log = map snd r"
    by (cases p) (auto simp: Cons_eq_map_conv)
  have "fst (apply_op t op s) = fst (apply_op t' op s')"
    and v: "view (snd (apply_op t op s)) = view (snd (apply_op t' op s'))"
    using apply_view Cons.prems(1,3) by (simp_all add: p)
  moreover have "\<forall>op \<in> snd ` set log. clock_free op" using Cons.prems(3) by simp
  ultimately show ?case
    using Cons.IH [OF v log'(2)] by (simp add: p log'(1) case_prod_beta)
qed

end

text \<open>What replicas agree on: which buckets are cached, and the versions of every key.\<close>

definition fsm_view :: "'db MetaStore \<Rightarrow> (string \<Rightarrow> bool) \<times> (string, keyspace) gomap" where
  "fsm_view m = (map_bool (ms_cache m), ms_objects m)"

text \<open>Entries that put no reading of the local clock into the state.\<close>

definition clock_free :: "json \<Rightarrow> bool" where
  "clock_free data =
     (case dec_RaftOp data of Inl _ \<Rightarrow> True
      | Inr op \<Rightarrow> op_Kind op \<noteq> ''delete_object'' \<and>
                 (op_Kind op = ''delete_version'' \<longrightarrow> op_VersionID op \<noteq> ''''))"

fun is_panic :: "'a outcome \<Rightarrow> bool" where
  "is_panic (Panic p) = True"
| "is_panic (Ok _) = False"
| "is_panic (Err _) = False"

section \<open>Lemmas\<close>

lemma replay_run_log: "replay log m = run_log is_panic fsm_Apply (Ok ()) log m"
  by (induction log m rule: replay.induct) (auto split: prod.splits outcome.splits)

lemma drop_value_snd [simp]: "snd (drop_value p) = snd p"
  by (cases p rule: drop_value.cases) auto

lemma drop_value_fst [simp]: "fst (drop_value p) = map_outcome (\<lambda>_. ()) (fst p)"
  by (cases p rule: drop_value.cases) auto

lemma fsm_view_set_keys:
  "fsm_view m = fsm_view m' \<Longrightarrow> fsm_view (set_keys b ks m) = fsm_view (set_keys b ks m')"
  by (simp add: fsm_view_def set_keys_def)

lemma put_view:
  assumes "fsm_view m = fsm_view m'"
  shows "fst (ms_PutObject b k meta m) = fst (ms_PutObject b k meta m') \<and>
    fsm_view (snd (ms_PutObject b k meta m)) = fsm_view (snd (ms_PutObject b k meta m'))"
proof -
  have c: "map_bool (ms_cache m) b = map_bool (ms_cache m') b" and o: "ms_objects m = ms_objects m'"
    using assms by (auto simp: fsm_view_def fun_eq_iff)
  show ?thesis
    using fsm_view_set_keys [OF assms] assms
    by (simp add: ms_PutObject_def c o Let_def split: option.split prod.split)
qed

lemma delete_view:
  assumes "fsm_view m = fsm_view m'" and "vid \<noteq> ''''"
  shows "fst (ms_DeleteObject t b k vid m) = fst (ms_DeleteObject t' b k vid m') \<and>
    fsm_view (snd (ms_DeleteObject t b k vid m)) = fsm_view (snd (ms_DeleteObject t' b k vid m'))"
proof -
  have c: "map_bool (ms_cache m) b = map_bool (ms_cache m') b" and o: "ms_objects m = ms_objects m'"
    using assms by (auto simp: fsm_view_def fun_eq_iff)
  show ?thesis
    using fsm_view_set_keys [OF assms(1)] assms
    by (simp add: ms_DeleteObject_def c o split: option.split)
qed

interpretation replicas: replicated_machine fsm_Apply fsm_view clock_free
proof (unfold_locales, goal_cases)
  case (1 s s' data t t')
  note put = put_view [OF 1(1)] and del = delete_view [OF 1(1)]
  show ?case
  proof (cases "dec_RaftOp data")
    case (Inl e)
    with 1(1) show ?thesis by (simp add: fsm_Apply_def)
  next
    case (Inr op)
    with 1(2) have no: "op_Kind op \<noteq> ''delete_object''"
      and vid: "op_Kind op = ''delete_version'' \<Longrightarrow> op_VersionID op \<noteq> ''''"
      by (simp_all add: clock_free_def)
    have app: "fsm_Apply u data m = ApplyOp u op m" for u and m :: "'a MetaStore"
      by (simp add: fsm_Apply_def Inr)
    show ?thesis
    proof (cases "op_Kind op = ''put_object''")
      case True
      then show ?thesis
        using 1(1) put by (simp add: app ApplyOp_def split: option.split sum.split)
    next
      case False
      then show ?thesis
        using 1(1) no del [OF vid, of t "op_Bucket op" "op_Key op" t'] by (cases "op_Kind op = ''delete_version''")
          (simp_all add: app ApplyOp_def)
    qed
  qed
qed

text \<open>Operations with valid strings come out of the log as they went in.\<close>

definition op_valid :: "RaftOp \<Rightarrow> bool" where
  "op_valid op =
     (valid_utf8 (op_Kind op) \<and> valid_utf8 (op_Bucket op) \<and> valid_utf8 (op_Key op) \<and>
      valid_utf8 (op_VersionID op))"

lemma dec_enc_RaftOp: "op_valid op \<Longrightarrow> dec_RaftOp (enc_RaftOp op) = Inr op"
  by (auto simp: op_valid_def valid_utf8_def enc_RaftOp_def omitempty_def json_field_def json_string_def
      split: option.split)

text \<open>The entry a write proposes.\<close>

definition put_op :: "string \<Rightarrow> string \<Rightarrow> ObjectMeta \<Rightarrow> RaftOp" where
  "put_op b k meta = \<lparr>op_Kind = ''put_object'', op_Bucket = b, op_Key = k, op_VersionID = '''',
     op_Meta = Some (enc_ObjectMeta meta)\<rparr>"

lemma valid_kinds [simp]:
  "valid_utf8 ''put_object''" "valid_utf8 ''delete_object''" "valid_utf8 ''delete_version''"
  by (simp_all add: valid_utf8_ascii)

lemma fsm_Apply_put:
  assumes "valid_utf8 b" and "valid_utf8 k" and "meta_valid meta"
  shows "fsm_Apply t (enc_RaftOp (put_op b k meta)) m = drop_value (ms_PutObject b k meta m)"
proof -
  have "op_valid (put_op b k meta)" using assms by (simp add: op_valid_def put_op_def)
  then show ?thesis
    using assms(3) by (simp add: fsm_Apply_def dec_enc_RaftOp ApplyOp_def put_op_def dec_enc_ObjectMeta)
qed

section \<open>Properties\<close>

text \<open>C9. Replicas converge: two nodes that agree on their cached buckets and on the versions of every
  key, and that apply the same committed entries in the same order at whatever times, end with the
  same result and agree again, as long as no entry creates a delete marker.\<close>

theorem replicas_converge:
  fixes m m' :: "'db MetaStore"
  assumes "fsm_view m = fsm_view m'" and "map snd log = map snd log'"
    and "\<forall>data \<in> snd ` set log. clock_free data"
  shows "fst (replay log m) = fst (replay log' m') \<and>
         fsm_view (snd (replay log m)) = fsm_view (snd (replay log' m'))"
  using replicas.runs_agree [OF assms] by (simp add: replay_run_log)

lemma demo_put_clock_free: "clock_free (enc_RaftOp (put_op ''b'' ''k'' (demo_object ''k'')))"
proof -
  have "op_valid (put_op ''b'' ''k'' (demo_object ''k''))"
    by (simp add: op_valid_def put_op_def valid_utf8_ascii)
  then show ?thesis by (simp add: clock_free_def dec_enc_RaftOp put_op_def)
qed

theorem replicas_converge_witness:
  "fsm_view (snd (replay [(1, enc_RaftOp (put_op ''b'' ''k'' (demo_object ''k'')))] demo_meta)) =
   fsm_view (snd (replay [(2, enc_RaftOp (put_op ''b'' ''k'' (demo_object ''k'')))]
     (demo_meta\<lparr>ms_buckets := []\<rparr>)))"
proof -
  have "fsm_view demo_meta = fsm_view (demo_meta\<lparr>ms_buckets := []\<rparr>)" by (simp add: fsm_view_def)
  then show ?thesis
    using replicas_converge [of demo_meta "demo_meta\<lparr>ms_buckets := []\<rparr>"
        "[(1, enc_RaftOp (put_op ''b'' ''k'' (demo_object ''k'')))]"
        "[(2, enc_RaftOp (put_op ''b'' ''k'' (demo_object ''k'')))]"] demo_put_clock_free
    by simp
qed

text \<open>C40. A committed \<^verbatim>\<open>delete_object\<close> entry is not deterministic: the delete marker carries the clock of
  the node that applies it, so two replicas in the same state that apply it at different times no
  longer hold the same versions.\<close>

definition delete_op :: "string \<Rightarrow> string \<Rightarrow> RaftOp" where
  "delete_op b k = \<lparr>op_Kind = ''delete_object'', op_Bucket = b, op_Key = k, op_VersionID = '''',
     op_Meta = None\<rparr>"

theorem delete_object_diverges:
  assumes "ms_wf m" and "ms_writable m b" and "ms_room m b k" and "ms_history m b k \<noteq> []"
    and "valid_utf8 b" and "valid_utf8 k" and "t \<noteq> t'"
  shows "om_CreatedAt (last (ms_history (snd (fsm_Apply t (enc_RaftOp (delete_op b k)) m)) b k)) = t \<and>
         fsm_view (snd (fsm_Apply t (enc_RaftOp (delete_op b k)) m)) \<noteq>
         fsm_view (snd (fsm_Apply t' (enc_RaftOp (delete_op b k)) m))"
proof -
  have "op_valid (delete_op b k)" using assms(5,6) by (simp add: op_valid_def delete_op_def)
  then have app: "snd (fsm_Apply u (enc_RaftOp (delete_op b k)) m) = snd (ms_DeleteObject u b k '''' m)" for u
    by (simp add: fsm_Apply_def dec_enc_RaftOp ApplyOp_def delete_op_def)
  have stamp: "om_CreatedAt (last (ms_history (snd (ms_DeleteObject u b k '''' m)) b k)) = u" for u
    using versions.mark_ok [OF assms(1-4), of u] by (auto simp: delete_marker_def)
  have "ms_objects (snd (ms_DeleteObject t b k '''' m)) \<noteq> ms_objects (snd (ms_DeleteObject t' b k '''' m))"
    using stamp [of t] stamp [of t'] assms(7) by (auto simp: ms_history_def)
  then show ?thesis using stamp [of t] by (simp add: app fsm_view_def)
qed

theorem delete_object_diverges_witness:
  "fsm_view (snd (fsm_Apply 1 (enc_RaftOp (delete_op ''b'' ''k'')) demo_one)) \<noteq>
   fsm_view (snd (fsm_Apply 2 (enc_RaftOp (delete_op ''b'' ''k'')) demo_one))"
proof -
  have "ms_history demo_one ''b'' ''k'' \<noteq> []" by (simp add: demo_one_facts(4))
  then show ?thesis
    using delete_object_diverges [OF demo_one_facts(1-3), of 1 2] by (simp add: valid_utf8_ascii)
qed

text \<open>\<^verbatim>\<open>RaftNode.Apply\<close> reports success for an entry that was committed even when the state machine
  refused it: an operation that fails on this node with an error is reported as done.\<close>

theorem raft_apply_drops_errors:
  assumes "rl_apply (rn_raft n) (enc_RaftOp op) = None"
    and "fsm_Apply t (enc_RaftOp op) m = (Err e, m')"
  shows "RaftNode_Apply t n op m = (Ok (), m')"
  using assms by (simp add: RaftNode_Apply_def)

text \<open>A library that commits everything it is given.\<close>

definition demo_lib :: raft_lib where
  "demo_lib = \<lparr>rl_leader = True, rl_apply = (\<lambda>_. None), rl_addvoter = (\<lambda>_ _. None),
     rl_bootstrap = (\<lambda>_. None), rl_shutdown = None\<rparr>"

definition demo_node :: RaftNode where
  "demo_node = \<lparr>rn_raft = demo_lib, rn_localID = ''node1'', rn_addr = ''localhost:9090''\<rparr>"

lemma demo_put_valid: "meta_valid (demo_object ''k'')"
  by (simp add: demo_object_def zero_meta_def meta_valid_def valid_utf8_ascii)

theorem raft_apply_drops_errors_witness:
  "fsm_Apply 1 (enc_RaftOp (put_op ''none'' ''k'' (demo_object ''k''))) demo_meta = (Err ErrNoBucket, demo_meta) \<and>
   RaftNode_Apply 1 demo_node (put_op ''none'' ''k'' (demo_object ''k'')) demo_meta = (Ok (), demo_meta)"
proof -
  have "fsm_Apply 1 (enc_RaftOp (put_op ''none'' ''k'' (demo_object ''k''))) demo_meta =
      (Err ErrNoBucket, demo_meta)"
    by (simp add: fsm_Apply_put demo_put_valid valid_utf8_ascii ms_PutObject_def demo_meta_def map_bool_def)
  then show ?thesis
    using raft_apply_drops_errors [of demo_node "put_op ''none'' ''k'' (demo_object ''k'')"]
    by (simp add: demo_node_def demo_lib_def)
qed

text \<open>C37. A node that restarts replays its log into a store without maps of keys: when the first entry
  it applies is a write to a bucket it has, the replay ends in a panic.\<close>

theorem restart_replay_panics:
  assumes "bolt_kv B" and "NewMetaStore B db = Ok m" and "db_wf B (ms_buckets m)"
    and "snd (BucketDB_List B (ms_buckets m)) = None" and "b \<in> bucket_names B (ms_buckets m)"
    and "valid_utf8 k" and "meta_valid meta"
  shows "replay ((t, enc_RaftOp (put_op b k meta)) # log) m =
    (Panic ''assignment to entry in nil map'', m)"
proof -
  have inv: "cache_exact B m" using reach_open_inv(3) [OF assms(1-4)] .
  have "valid_utf8 b"
    using assms(3,5) by (auto simp: db_wf_def bucket_names_def bucket_record_def)
  then have "fsm_Apply t (enc_RaftOp (put_op b k meta)) m = drop_value (ms_PutObject b k meta m)"
    using assms(6,7) by (rule fsm_Apply_put)
  then show ?thesis
    using inv NewMetaStore_Ok(1) [OF assms(2)] assms(5) by (simp add: ms_PutObject_def cache_exact_def)
qed

theorem restart_replay_panics_witness:
  "fst (replay [(1, enc_RaftOp (put_op ''b'' ''k'' (demo_object ''k'')))]
     (demo_meta\<lparr>ms_objects := [], ms_region := ''''\<rparr>)) = Panic ''assignment to entry in nil map''"
proof -
  have "replay [(1, enc_RaftOp (put_op ''b'' ''k'' (demo_object ''k'')))]
      (demo_meta\<lparr>ms_objects := [], ms_region := ''''\<rparr>) =
    (Panic ''assignment to entry in nil map'', demo_meta\<lparr>ms_objects := [], ms_region := ''''\<rparr>)"
    by (rule restart_replay_panics [OF alist_kv, of "ms_buckets demo_meta"])
      (simp_all add: NewMetaStore_def OpenBucketDB_def alist_bolt_def bucketdb_defs cache_of_def
        ordered_entries_def db_wf_def demo_meta_def bucket_record_def dec_enc_BucketMeta
        bucket_names_def valid_utf8_def utf8_coerce_ascii demo_put_valid)
  then show ?thesis by simp
qed

text \<open>A snapshot is not of the moment it was asked for: an entry that is applied between
  \<^verbatim>\<open>Snapshot\<close> and \<^verbatim>\<open>Persist\<close> is in the document, and a node that restores the document and then
  applies the entry, as the library does with every entry after the snapshot, has the write twice.\<close>

theorem late_persist_duplicates:
  assumes "ms_wf m" and "ms_writable m b" and "ms_room m b k" and "om_Key meta = k"
    and "valid_utf8 b" and "valid_utf8 k" and "meta_valid meta"
    and "m1 = snd (fsm_Apply t (enc_RaftOp (put_op b k meta)) m)" and "ms_serial m1"
    and "ms_objects m0 = []" and "b \<in> b_Name ` set (fst (BucketDB_List B (ms_buckets m0)))"
  shows "\<exists>m2 v v'. fsm_Persist (\<lambda>_. None) None m1 = (Ok (), SinkClosed (ms_Snapshot m1)) \<and>
      fsm_Restore B (ms_Snapshot m1) m0 = (Ok (), m2) \<and>
      ms_history (snd (fsm_Apply t' (enc_RaftOp (put_op b k meta)) m2)) b k =
        ms_history m b k @ [meta\<lparr>om_VersionID := v\<rparr>, meta\<lparr>om_VersionID := v'\<rparr>]"
proof -
  have app: "snd (fsm_Apply u (enc_RaftOp (put_op b k meta)) x) = snd (ms_PutObject b k meta x)" for u x
    by (simp add: fsm_Apply_put assms(5-7))
  from versions.put_ok [OF assms(1-4)] obtain v where wf1: "ms_wf m1"
    and h1: "ms_history m1 b k = ms_history m b k @ [meta\<lparr>om_VersionID := v\<rparr>]"
    and "ms_writable m1 b"
    using assms(2) by (auto simp: assms(8) app)
  from ms_Restore_lookup [OF wf1 assms(9), of B m0] obtain m2 where
    m2: "ms_Restore B (ms_Snapshot m1) m0 = (Ok (), m2)"
      "ms_cache m2 = cache_of (fst (BucketDB_List B (ms_buckets m0)))"
      "map_of (ms_objects m2) b = None \<longleftrightarrow> map_of (ms_objects m1) b = None \<and> map_of (ms_objects m0) b = None"
      "ms_lookup m2 b k = (case ms_lookup m1 b k of None \<Rightarrow> ms_lookup m0 b k | Some vs \<Rightarrow> Some vs)"
    by blast
  have "ms_lookup m0 b k = None" by (simp add: ms_lookup_def assms(10))
  then have h2: "ms_history m2 b k = ms_history m1 b k"
    using m2(4) by (simp add: lookup_reads(1) split: option.splits)
  have "ms_writable m2 b"
    using m2(2,3) assms(11) \<open>ms_writable m1 b\<close> by (simp add: ms_writable_def map_bool_cache_of)
  then obtain ks where ks: "map_of (ms_objects m2) b = Some ks" by (auto simp: ms_writable_def)
  have "ms_history (snd (ms_PutObject b k meta m2)) b k =
      ms_history m2 b k @ [meta\<lparr>om_VersionID := FormatInt (sint (vs_NextID (vs_before ks k)))\<rparr>]"
    using ms_PutObject_step [OF \<open>ms_writable m2 b\<close> ks, of k meta]
    by (simp add: append_version_eq ms_history_set_keys vs_before_history) (simp add: ms_history_def ks)
  then show ?thesis
    using m2(1) h1 h2 by (auto simp: fsm_Persist_def fsm_Restore_def app)
qed

theorem late_persist_duplicates_witness:
  "\<exists>m2 v v'. fsm_Restore alist_bolt (ms_Snapshot demo_one) (demo_meta\<lparr>ms_objects := []\<rparr>) = (Ok (), m2) \<and>
     ms_history (snd (fsm_Apply 2 (enc_RaftOp (put_op ''b'' ''k'' (demo_object ''k''))) m2)) ''b'' ''k'' =
       [(demo_object ''k'')\<lparr>om_VersionID := v\<rparr>, (demo_object ''k'')\<lparr>om_VersionID := v'\<rparr>]"
proof -
  have one: "demo_one = snd (fsm_Apply 1 (enc_RaftOp (put_op ''b'' ''k'' (demo_object ''k''))) demo_meta)"
    by (simp add: fsm_Apply_put demo_put_valid valid_utf8_ascii demo_one_def)
  have reg: "''b'' \<in> b_Name ` set (fst (BucketDB_List alist_bolt
      (ms_buckets (demo_meta\<lparr>ms_objects := []\<rparr>))))"
    by (simp add: demo_meta_def BucketDB_List_def alist_bolt_def ordered_entries_def dec_enc_BucketMeta
        utf8_coerce_ascii)
  have none: "ms_history demo_meta ''b'' ''k'' = []"
    by (simp add: ms_history_def demo_meta_def key_history_def)
  from late_persist_duplicates [OF demo_facts(1-4) _ _ demo_put_valid one demo_one_serial _ reg, of 2]
  show ?thesis by (auto simp: valid_utf8_ascii none)
qed

end
