(* ===== verification/Sha256.thy ===== *)
theory Sha256
  imports Prelude
begin

text \<open>
  The functions of \<^verbatim>\<open>crypto/sha256\<close> and \<^verbatim>\<open>crypto/hmac\<close> that the server calls, over 32-bit
  words. Object data, multipart parts and request bodies are named by their digest, and request
  signatures are keyed digests.
\<close>

unbundle bit_operations_syntax

type_synonym u32 = "32 word"

text \<open>
  The standard's constants are defined rather than listed: the first 32 bits of the fractional parts
  of the cube roots of the first 64 primes, and of the square roots of the first eight. A root is
  found bit by bit, from the highest.
\<close>

fun root_bits :: "nat \<Rightarrow> int \<Rightarrow> nat \<Rightarrow> int \<Rightarrow> int" where
  "root_bits k x 0 r = r"
| "root_bits k x (Suc i) r = root_bits k x i (if (r + 2 ^ i) ^ k \<le> x then r + 2 ^ i else r)"

definition root_fraction :: "nat \<Rightarrow> int \<Rightarrow> u32" where
  "root_fraction k p = word_of_int (root_bits k (p * 2 ^ (32 * k)) 37 0)"

definition small_primes :: "int list" where
  "small_primes = filter (\<lambda>n. list_all (\<lambda>d. n mod d \<noteq> 0) [2..n - 1]) [2..311]"

definition K256 :: "u32 list" where
  "K256 = map (root_fraction 3) small_primes"

definition H256 :: "u32 list" where
  "H256 = map (root_fraction 2) [2, 3, 5, 7, 11, 13, 17, 19]"

definition rotr32 :: "nat \<Rightarrow> u32 \<Rightarrow> u32" where
  "rotr32 n x = drop_bit n x OR push_bit (32 - n) x"

definition sha_s0 :: "u32 \<Rightarrow> u32" where
  "sha_s0 x = rotr32 7 x XOR rotr32 18 x XOR drop_bit 3 x"

definition sha_s1 :: "u32 \<Rightarrow> u32" where
  "sha_s1 x = rotr32 17 x XOR rotr32 19 x XOR drop_bit 10 x"

definition sha_S0 :: "u32 \<Rightarrow> u32" where
  "sha_S0 x = rotr32 2 x XOR rotr32 13 x XOR rotr32 22 x"

definition sha_S1 :: "u32 \<Rightarrow> u32" where
  "sha_S1 x = rotr32 6 x XOR rotr32 11 x XOR rotr32 25 x"

definition sha_Ch :: "u32 \<Rightarrow> u32 \<Rightarrow> u32 \<Rightarrow> u32" where
  "sha_Ch x y z = (x AND y) XOR (NOT x AND z)"

definition sha_Maj :: "u32 \<Rightarrow> u32 \<Rightarrow> u32 \<Rightarrow> u32" where
  "sha_Maj x y z = (x AND y) XOR (x AND z) XOR (y AND z)"

text \<open>The message schedule, kept as a window of sixteen words.\<close>

fun sha_rounds :: "u32 list \<Rightarrow> u32 list \<Rightarrow> u32 list \<Rightarrow> u32 list" where
  "sha_rounds (k # ks) (w # ws) [a, b, c, d, e, f, g, h] =
     (let t1 = h + sha_S1 e + sha_Ch e f g + k + w;
          t2 = sha_S0 a + sha_Maj a b c;
          w' = sha_s1 (ws ! 13) + ws ! 8 + sha_s0 (ws ! 0) + w
      in sha_rounds ks (ws @ [w']) [t1 + t2, a, b, c, d + t1, e, f, g])"
| "sha_rounds ks ws st = st"

definition sha_block :: "u32 list \<Rightarrow> u32 list \<Rightarrow> u32 list" where
  "sha_block st ws = map2 (+) st (sha_rounds K256 ws st)"

fun be_words :: "bytes \<Rightarrow> u32 list" where
  "be_words (a # b # c # d # bs) =
     (push_bit 24 (of_char a) OR push_bit 16 (of_char b) OR push_bit 8 (of_char c) OR of_char d)
       # be_words bs"
| "be_words bs = []"

fun be_bytes :: "nat \<Rightarrow> int \<Rightarrow> bytes" where
  "be_bytes 0 x = []"
| "be_bytes (Suc n) x = be_bytes n (x div 256) @ [char_of (x mod 256)]"

text \<open>Padding: a one bit, zeros, and the length in bits as 64 bits.\<close>

definition sha_pad :: "bytes \<Rightarrow> bytes" where
  "sha_pad data =
     (let zeros = (119 - length data mod 64) mod 64
      in data @ [char_of (128 :: int)] @ replicate zeros (char_of (0 :: int)) @ be_bytes 8 (8 * int (length data)))"

fun sha_blocks :: "u32 list \<Rightarrow> bytes \<Rightarrow> u32 list" where
  "sha_blocks st bs =
     (if length bs < 64 then st
      else sha_blocks (sha_block st (be_words (take 64 bs))) (drop 64 bs))"

definition sha256_Sum256 :: "bytes \<Rightarrow> bytes" where
  "sha256_Sum256 data = concat (map (\<lambda>w. be_bytes 4 (uint w)) (sha_blocks H256 (sha_pad data)))"

definition sha_hex :: "bytes \<Rightarrow> string" where
  "sha_hex data = hex_EncodeToString (sha256_Sum256 data)"

text \<open>\<^verbatim>\<open>hmac.New(sha256.New, key)\<close>, written with \<open>data\<close> and summed.\<close>

definition hmac_pad :: "int \<Rightarrow> bytes \<Rightarrow> bytes" where
  "hmac_pad x key = map (\<lambda>c. char_of (of_char c XOR x)) (key @ replicate (64 - length key) (char_of (0 :: int)))"

definition hmac_sha256 :: "bytes \<Rightarrow> bytes \<Rightarrow> bytes" where
  "hmac_sha256 key data =
     (let k = (if 64 < length key then sha256_Sum256 key else key)
      in sha256_Sum256 (hmac_pad 0x5c k @ sha256_Sum256 (hmac_pad 0x36 k @ data)))"

section \<open>Digests have 32 bytes\<close>

lemma length_be_bytes [simp]: "length (be_bytes n x) = n"
  by (induction n arbitrary: x) auto

lemma length_sha_rounds: "length (sha_rounds ks ws st) = length st"
  by (induction ks ws st rule: sha_rounds.induct) (auto simp: Let_def)

lemma length_sha_block [simp]: "length (sha_block st ws) = length st"
  by (simp add: sha_block_def length_sha_rounds)

declare sha_blocks.simps [simp del]

lemma length_sha_blocks [simp]: "length (sha_blocks st bs) = length st"
proof (induction st bs rule: sha_blocks.induct)
  case (1 st bs)
  then show ?case by (subst sha_blocks.simps) simp
qed

lemma length_Sum256 [simp]: "length (sha256_Sum256 data) = 32"
proof -
  have "length (concat (map (\<lambda>w. be_bytes 4 (uint w)) ws)) = 4 * length ws" for ws :: "u32 list"
    by (induction ws) auto
  then show ?thesis by (simp add: sha256_Sum256_def H256_def)
qed

lemma length_sha_hex [simp]: "length (sha_hex data) = 64"
  by (simp add: sha_hex_def)

lemma sha_hex_eq_iff: "sha_hex d = sha_hex d' \<longleftrightarrow> sha256_Sum256 d = sha256_Sum256 d'"
  by (simp add: sha_hex_def)

end
