(* ===== verification/Store.thy ===== *)
theory Store
  imports Listing Raft Sha256
begin

text \<open>
  The storage engine (\<^verbatim>\<open>internal/store/store.go\<close>): object data in files named by their digest, and
  metadata operations that go through the replicated log when a Raft node is wired in. The file
  system is a component of the state; the answers of the operating system to one call of the server,
  failures included, are the fields of the record \<open>os\<close>. A path is the list of its components.
\<close>

section \<open>Files\<close>

type_synonym path = "string list"

record disk =
  dk_dirs :: "path list"
  dk_files :: "(path, bytes) gomap"

text \<open>\<^verbatim>\<open>os.WriteFile\<close> opens and truncates the file, then writes: it may fail to open it, or stop after
  some bytes.\<close>

datatype write_fault = NoFault | CannotOpen err | ShortWrite nat err

record os =
  os_mkdir :: "path \<Rightarrow> err option"
  os_write :: "path \<Rightarrow> bytes \<Rightarrow> write_fault"
  os_open :: "path \<Rightarrow> err option"
  os_remove :: "path \<Rightarrow> err option"

definition os_ok :: os where
  "os_ok = \<lparr>os_mkdir = \<lambda>_. None, os_write = \<lambda>_ _. NoFault, os_open = \<lambda>_. None, os_remove = \<lambda>_. None\<rparr>"

definition no_such_file :: err where
  "no_such_file = ErrText ''no such file or directory''"

definition is_dir :: "disk \<Rightarrow> path \<Rightarrow> bool" where
  "is_dir dk p = (list_ex (prefix p) (dk_dirs dk) \<or> list_ex (\<lambda>(q, _). strict_prefix p q) (dk_files dk))"

definition os_MkdirAll :: "os \<Rightarrow> path \<Rightarrow> disk \<Rightarrow> unit outcome \<times> disk" where
  "os_MkdirAll E p dk =
     (case os_mkdir E p of
        Some e \<Rightarrow> (Err e, dk)
      | None \<Rightarrow> (Ok (), dk\<lparr>dk_dirs := List.insert p (dk_dirs dk)\<rparr>))"

definition put_file :: "path \<Rightarrow> bytes \<Rightarrow> disk \<Rightarrow> disk" where
  "put_file p data dk = dk\<lparr>dk_files := AList.update p data (dk_files dk)\<rparr>"

definition os_WriteFile :: "os \<Rightarrow> path \<Rightarrow> bytes \<Rightarrow> disk \<Rightarrow> unit outcome \<times> disk" where
  "os_WriteFile E p data dk =
     (if \<not> is_dir dk (butlast p) then (Err no_such_file, dk)
      else case os_write E p data of
        NoFault \<Rightarrow> (Ok (), put_file p data dk)
      | CannotOpen e \<Rightarrow> (Err e, dk)
      | ShortWrite n e \<Rightarrow> (Err e, put_file p (take n data) dk))"

text \<open>\<^verbatim>\<open>os.Open\<close> followed by reading to the end, and \<^verbatim>\<open>os.ReadFile\<close>.\<close>

definition os_Open :: "os \<Rightarrow> path \<Rightarrow> disk \<Rightarrow> bytes outcome" where
  "os_Open E p dk =
     (case map_of (dk_files dk) p of
        None \<Rightarrow> Err no_such_file
      | Some data \<Rightarrow> (case os_open E p of Some e \<Rightarrow> Err e | None \<Rightarrow> Ok data))"

text \<open>The server ignores what \<^verbatim>\<open>os.Remove\<close> and \<^verbatim>\<open>os.RemoveAll\<close> return; a file that cannot be removed
  stays.\<close>

definition os_Remove :: "os \<Rightarrow> path \<Rightarrow> disk \<Rightarrow> disk" where
  "os_Remove E p dk =
     (if os_remove E p = None then dk\<lparr>dk_files := AList.delete p (dk_files dk)\<rparr> else dk)"

definition os_RemoveAll :: "os \<Rightarrow> path \<Rightarrow> disk \<Rightarrow> disk" where
  "os_RemoveAll E p dk =
     dk\<lparr>dk_dirs := filter (\<lambda>q. \<not> prefix p q) (dk_dirs dk),
        dk_files := filter (\<lambda>(q, _). \<not> prefix p q \<or> os_remove E q \<noteq> None) (dk_files dk)\<rparr>"

text \<open>
  A request body delivers its bytes and then ends or fails. \<^verbatim>\<open>io.LimitReader\<close> reports an ordinary end
  after its limit, so that neither the bytes nor an error behind the limit are seen.
\<close>

record reader =
  rd_data :: bytes
  rd_err :: "err option"

definition ReadAll_limit :: "nat \<Rightarrow> reader \<Rightarrow> bytes outcome" where
  "ReadAll_limit limit body =
     (if limit \<le> length (rd_data body) then Ok (take limit (rd_data body))
      else case rd_err body of None \<Rightarrow> Ok (rd_data body) | Some e \<Rightarrow> Err e)"

section \<open>State\<close>

record Part =
  pt_PartNumber :: int
  pt_Size :: i64
  pt_ETag :: string
  pt_Sha256 :: string
  pt_CreatedAt :: time

record multipartUpload =
  mu_id :: string
  mu_bucket :: string
  mu_key :: string
  mu_initiated :: time
  mu_parts :: "(int, Part) gomap"

record 'db Store =
  st_dataDir :: path
  st_meta :: "'db MetaStore"
  st_raft :: "RaftNode option"
  st_multipart :: "(string, multipartUpload) gomap"
  st_region :: string
  st_disk :: disk

definition MaxObjectSize :: nat where
  "MaxObjectSize = 5 * 2 ^ 30"

definition newMultipartState :: "(string, multipartUpload) gomap" where
  "newMultipartState = []"

definition st_NewWithMeta :: "os \<Rightarrow> path \<Rightarrow> 'db MetaStore \<Rightarrow> disk \<Rightarrow> 'db Store outcome" where
  "st_NewWithMeta E dataDir meta dk =
     (case os_MkdirAll E (dataDir @ [''blobs'']) dk of
        (Ok _, dk') \<Rightarrow>
          Ok \<lparr>st_dataDir = dataDir, st_meta = meta, st_raft = None, st_multipart = newMultipartState,
              st_region = '''', st_disk = dk'\<rparr>
      | (Err e, _) \<Rightarrow> Err (ErrWrap ''mkdir blobs'' e)
      | (Panic p, _) \<Rightarrow> Panic p)"

definition st_New :: "os \<Rightarrow> 'db bolt \<Rightarrow> 'db \<Rightarrow> path \<Rightarrow> disk \<Rightarrow> 'db Store outcome" where
  "st_New E B file dataDir dk =
     (case os_MkdirAll E (dataDir @ [''blobs'']) dk of
        (Ok _, dk') \<Rightarrow>
          (case NewMetaStore B file of
             Ok meta \<Rightarrow>
               Ok \<lparr>st_dataDir = dataDir, st_meta = meta, st_raft = None,
                   st_multipart = newMultipartState, st_region = '''', st_disk = dk'\<rparr>
           | Err e \<Rightarrow> Err e
           | Panic p \<Rightarrow> Panic p)
      | (Err e, _) \<Rightarrow> Err (ErrWrap ''mkdir blobs'' e)
      | (Panic p, _) \<Rightarrow> Panic p)"

definition st_SetRaft :: "RaftNode \<Rightarrow> 'db Store \<Rightarrow> 'db Store" where
  "st_SetRaft r s = s\<lparr>st_raft := Some r\<rparr>"

text \<open>An operation of the metadata store, run on the store's pointer to it.\<close>

definition on_meta :: "('db MetaStore \<Rightarrow> 'r \<times> 'db MetaStore) \<Rightarrow> 'db Store \<Rightarrow> 'r \<times> 'db Store" where
  "on_meta f s = (case f (st_meta s) of (r, m) \<Rightarrow> (r, s\<lparr>st_meta := m\<rparr>))"

definition raftApply :: "time \<Rightarrow> RaftOp \<Rightarrow> 'db Store \<Rightarrow> unit outcome \<times> 'db Store" where
  "raftApply now op s =
     (case st_raft s of
        None \<Rightarrow> on_meta (ApplyOp now op) s
      | Some r \<Rightarrow>
          if \<not> RaftNode_IsLeader r then (Err ErrNotLeader, s)
          else on_meta (RaftNode_Apply now r op) s)"

section \<open>Buckets\<close>

definition st_CreateBucket :: "'db bolt \<Rightarrow> time \<Rightarrow> string \<Rightarrow> 'db Store \<Rightarrow> unit outcome \<times> 'db Store" where
  "st_CreateBucket B now name s = on_meta (ms_CreateBucket B now name) s"

definition st_DeleteBucket :: "'db bolt \<Rightarrow> string \<Rightarrow> 'db Store \<Rightarrow> unit outcome \<times> 'db Store" where
  "st_DeleteBucket B name s = on_meta (ms_DeleteBucket B name) s"

definition st_GetBucket :: "'db bolt \<Rightarrow> string \<Rightarrow> 'db Store \<Rightarrow> Bucket outcome" where
  "st_GetBucket B name s = ms_GetBucket B name (st_meta s)"

definition st_ListBuckets :: "'db bolt \<Rightarrow> 'db Store \<Rightarrow> Bucket list" where
  "st_ListBuckets B s = ms_ListBuckets B (st_meta s)"

section \<open>Blobs\<close>

text \<open>\<^verbatim>\<open>s[:n]\<close> of a string.\<close>

definition slice_to :: "nat \<Rightarrow> string \<Rightarrow> string outcome" where
  "slice_to n s = (if n \<le> length s then Ok (take n s) else Panic ''slice bounds out of range'')"

definition blobPath :: "path \<Rightarrow> string \<Rightarrow> path outcome" where
  "blobPath dataDir sha =
     (case slice_to 2 sha of
        Ok shard \<Rightarrow> Ok (dataDir @ [''blobs'', shard, sha])
      | Err e \<Rightarrow> Err e
      | Panic p \<Rightarrow> Panic p)"

definition writeBlob :: "os \<Rightarrow> path \<Rightarrow> string \<Rightarrow> bytes \<Rightarrow> disk \<Rightarrow> unit outcome \<times> disk" where
  "writeBlob E dataDir sha data dk =
     (case slice_to 2 sha of
        Ok shard \<Rightarrow>
          (case os_MkdirAll E (dataDir @ [''blobs'', shard]) dk of
             (Ok _, dk') \<Rightarrow>
               (case blobPath dataDir sha of
                  Ok p \<Rightarrow> os_WriteFile E p data dk'
                | Err e \<Rightarrow> (Err e, dk')
                | Panic p \<Rightarrow> (Panic p, dk'))
           | (x, dk') \<Rightarrow> (x, dk'))
      | Err e \<Rightarrow> (Err e, dk)
      | Panic p \<Rightarrow> (Panic p, dk))"

section \<open>Objects\<close>

definition new_meta :: "time \<Rightarrow> string \<Rightarrow> i64 \<Rightarrow> string \<Rightarrow> ObjectMeta" where
  "new_meta now key sz sha =
     zero_meta\<lparr>om_Key := key, om_Size := sz, om_ETag := sha, om_Sha256 := sha, om_CreatedAt := now\<rparr>"

definition st_PutObject :: "os \<Rightarrow> time \<Rightarrow> string \<Rightarrow> string \<Rightarrow> reader \<Rightarrow> 'db Store
    \<Rightarrow> (string \<times> string) outcome \<times> 'db Store" where
  "st_PutObject E now bucket key body s =
     (case ReadAll_limit MaxObjectSize body of
        Err e \<Rightarrow> (Err (ErrWrap ''read body'' e), s)
      | Panic p \<Rightarrow> (Panic p, s)
      | Ok data \<Rightarrow>
          (let shaHex = hex_EncodeToString (sha256_Sum256 data)
           in case writeBlob E (st_dataDir s) shaHex data (st_disk s) of
                (Err e, dk) \<Rightarrow> (Err (ErrWrap ''write blob'' e), s\<lparr>st_disk := dk\<rparr>)
              | (Panic p, dk) \<Rightarrow> (Panic p, s\<lparr>st_disk := dk\<rparr>)
              | (Ok _, dk) \<Rightarrow>
                  (let meta = new_meta now key (word_of_int (int (length data))) shaHex;
                       op = \<lparr>op_Kind = ''put_object'', op_Bucket = bucket, op_Key = key,
                             op_VersionID = '''', op_Meta = Some (enc_ObjectMeta meta)\<rparr>
                   in case raftApply now op (s\<lparr>st_disk := dk\<rparr>) of
                        (Err e, s') \<Rightarrow> (Err e, s')
                      | (Panic p, s') \<Rightarrow> (Panic p, s')
                      | (Ok _, s') \<Rightarrow>
                          (case ms_GetObject bucket key '''' (st_meta s') of
                             Ok m \<Rightarrow> (Ok (shaHex, om_VersionID m), s')
                           | _ \<Rightarrow> (Ok (shaHex, ''''), s')))))"

definition st_GetObject :: "os \<Rightarrow> string \<Rightarrow> string \<Rightarrow> string \<Rightarrow> 'db Store
    \<Rightarrow> (bytes \<times> ObjectMeta) outcome" where
  "st_GetObject E bucket key versionID s =
     (case ms_GetObject bucket key versionID (st_meta s) of
        Err e \<Rightarrow> Err e
      | Panic p \<Rightarrow> Panic p
      | Ok meta \<Rightarrow>
          (case blobPath (st_dataDir s) (om_Sha256 meta) of
             Err e \<Rightarrow> Err e
           | Panic p \<Rightarrow> Panic p
           | Ok p \<Rightarrow>
               (case os_Open E p (st_disk s) of
                  Ok data \<Rightarrow> Ok (data, meta)
                | Panic p \<Rightarrow> Panic p
                | Err e \<Rightarrow>
                    (case slice_to 8 (om_Sha256 meta) of
                       Ok short \<Rightarrow> Err (ErrWrap (''open blob '' @ short) e)
                     | Err e \<Rightarrow> Err e
                     | Panic p \<Rightarrow> Panic p))))"

text \<open>
  \<^verbatim>\<open>GetObjectVersion\<close> returned a pointer to cell \<open>i\<close> of the array of versions. The removal moves the
  later versions down by one cell in place, so what the pointer shows afterwards is the version that
  now has index \<open>i\<close>, and the old contents only where the list has become too short to reach the cell.
\<close>

definition cell_after :: "nat \<Rightarrow> ObjectMeta \<Rightarrow> ObjectMeta list \<Rightarrow> ObjectMeta" where
  "cell_after i old versions = (if i < length versions then versions ! i else old)"

definition st_DeleteObject :: "os \<Rightarrow> time \<Rightarrow> string \<Rightarrow> string \<Rightarrow> string \<Rightarrow> 'db Store
    \<Rightarrow> string outcome \<times> 'db Store" where
  "st_DeleteObject E now bucket key versionID s =
     (if versionID \<noteq> '''' then
        (case ms_GetObjectVersion_ptr bucket key versionID (st_meta s) of
           Err e \<Rightarrow> (Err e, s)
         | Panic p \<Rightarrow> (Panic p, s)
         | Ok (i, old) \<Rightarrow>
             (case raftApply now \<lparr>op_Kind = ''delete_version'', op_Bucket = bucket, op_Key = key,
                                  op_VersionID = versionID, op_Meta = None\<rparr> s of
                (Err e, s') \<Rightarrow> (Err e, s')
              | (Panic p, s') \<Rightarrow> (Panic p, s')
              | (Ok _, s') \<Rightarrow>
                  (let meta = cell_after i old (ms_history (st_meta s') bucket key)
                   in if om_IsDeleteMarker meta then (Ok '''', s')
                      else case blobPath (st_dataDir s') (om_Sha256 meta) of
                        Ok p \<Rightarrow> (Ok '''', s'\<lparr>st_disk := os_Remove E p (st_disk s')\<rparr>)
                      | Err e \<Rightarrow> (Err e, s')
                      | Panic p \<Rightarrow> (Panic p, s'))))
      else on_meta (ms_DeleteObject now bucket key '''') s)"

definition st_GetMeta :: "string \<Rightarrow> string \<Rightarrow> 'db Store \<Rightarrow> ObjectMeta outcome" where
  "st_GetMeta bucket key s = ms_GetObject bucket key '''' (st_meta s)"

definition st_GetMetaVersion :: "string \<Rightarrow> string \<Rightarrow> string \<Rightarrow> 'db Store \<Rightarrow> ObjectMeta outcome" where
  "st_GetMetaVersion bucket key versionID s = ms_GetObjectVersion bucket key versionID (st_meta s)"

definition st_ListObjectVersions :: "string \<Rightarrow> string \<Rightarrow> 'db Store
    \<Rightarrow> ObjectVersion list \<times> ObjectVersion list" where
  "st_ListObjectVersions bucket pfx s = ms_ListObjectVersions bucket pfx (st_meta s)"

definition st_ListObjectsPaged :: "string \<Rightarrow> string \<Rightarrow> string \<Rightarrow> int \<Rightarrow> 'db Store
    \<Rightarrow> ObjectMeta list \<times> string" where
  "st_ListObjectsPaged bucket pfx startAfter maxKeys s =
     ms_ListObjectsPaged bucket pfx startAfter maxKeys (st_meta s)"

section \<open>Lemmas on files and blobs\<close>

lemma os_ok_simps [simp]:
  "os_mkdir os_ok p = None" "os_write os_ok p d = NoFault" "os_open os_ok p = None"
  "os_remove os_ok p = None"
  by (simp_all add: os_ok_def)

lemma is_dir_mkdir: "is_dir (dk\<lparr>dk_dirs := List.insert p (dk_dirs dk)\<rparr>) p"
  by (auto simp: is_dir_def list_ex_iff)

lemma put_file_simps [simp]:
  "map_of (dk_files (put_file p data dk)) q = (if q = p then Some data else map_of (dk_files dk) q)"
  "dk_dirs (put_file p data dk) = dk_dirs dk"
  by (auto simp: put_file_def)

definition blob_path :: "path \<Rightarrow> string \<Rightarrow> path" where
  "blob_path dir sha = dir @ [''blobs'', take 2 sha, sha]"

definition blob_at :: "path \<Rightarrow> string \<Rightarrow> disk \<Rightarrow> bytes option" where
  "blob_at dir sha dk = map_of (dk_files dk) (blob_path dir sha)"

definition remove_blob :: "os \<Rightarrow> path \<Rightarrow> string \<Rightarrow> disk \<Rightarrow> disk" where
  "remove_blob E dir sha dk = os_Remove E (blob_path dir sha) dk"

lemma blob_path_inject [simp]: "blob_path dir sha = blob_path dir sha' \<longleftrightarrow> sha = sha'"
  by (auto simp: blob_path_def)

lemma blobPath_eq: "blobPath dir sha =
    (if 2 \<le> length sha then Ok (blob_path dir sha) else Panic ''slice bounds out of range'')"
  by (simp add: blobPath_def slice_to_def blob_path_def)

text \<open>A blob is written whole, or not at all, or only a part of it.\<close>

lemma writeBlob_cases:
  assumes "writeBlob E dir sha data dk = (r, dk')" and "2 \<le> length sha"
  obtains (ok) "r = Ok ()" and "\<And>n. blob_at dir n dk' = (if n = sha then Some data else blob_at dir n dk)"
  | (kept) e where "r = Err e" and "\<And>n. blob_at dir n dk' = blob_at dir n dk"
  | (short) e m where "r = Err e" and "os_write E (blob_path dir sha) data = ShortWrite m e"
      and "\<And>n. blob_at dir n dk' = (if n = sha then Some (take m data) else blob_at dir n dk)"
  using assms
  by (auto simp: writeBlob_def slice_to_def blobPath_eq os_MkdirAll_def os_WriteFile_def blob_at_def
      split: option.splits if_splits write_fault.splits)

lemma writeBlob_ok:
  assumes "2 \<le> length sha"
  shows "\<exists>dk'. writeBlob os_ok dir sha data dk = (Ok (), dk') \<and>
    (\<forall>n. blob_at dir n dk' = (if n = sha then Some data else blob_at dir n dk))"
  using assms is_dir_mkdir [of "dir @ [''blobs'', take 2 sha]" dk]
  by (auto simp: writeBlob_def slice_to_def blobPath_eq os_MkdirAll_def os_WriteFile_def blob_at_def
      blob_path_def butlast_append)

lemma writeBlob_short:
  assumes "2 \<le> length sha" and "\<And>p. os_mkdir E p = None"
    and "os_write E (blob_path dir sha) data = ShortWrite m e"
  shows "\<exists>dk'. writeBlob E dir sha data dk = (Err e, dk') \<and>
    (\<forall>n. blob_at dir n dk' = (if n = sha then Some (take m data) else blob_at dir n dk))"
  using assms is_dir_mkdir [of "dir @ [''blobs'', take 2 sha]" dk]
  by (auto simp: writeBlob_def slice_to_def blobPath_eq os_MkdirAll_def os_WriteFile_def blob_at_def
      blob_path_def butlast_append)

lemma blob_at_remove:
  "blob_at dir n (remove_blob os_ok dir sha dk) = (if n = sha then None else blob_at dir n dk)"
  by (simp add: remove_blob_def os_Remove_def blob_at_def)

text \<open>
  The contract of a content-addressed store. Names are digests: two different contents may share one
  in principle, so what is kept of other contents is stated for contents with another digest.
\<close>

locale blob_store =
  fixes wr :: "string \<Rightarrow> bytes \<Rightarrow> 'd \<Rightarrow> unit outcome \<times> 'd"
    and look :: "string \<Rightarrow> 'd \<Rightarrow> bytes option"
    and remove :: "string \<Rightarrow> 'd \<Rightarrow> 'd"
    and digest :: "bytes \<Rightarrow> string"
  assumes write_ok: "\<exists>d'. wr (digest data) data d = (Ok (), d') \<and>
      (\<forall>n. look n d' = (if n = digest data then Some data else look n d))"
    and remove_look: "look n (remove m d) = (if n = m then None else look n d)"
begin

text \<open>Blobs whose contents have their name as digest stay so, and stay readable, under writes of data
  that does not collide with them; writing what is there already changes nothing.\<close>

lemma write_keeps:
  assumes "wr (digest data) data d = (Ok (), d')" and "\<forall>n x. look n d = Some x \<longrightarrow> digest x = n"
  shows "\<forall>n x. look n d' = Some x \<longrightarrow> digest x = n"
    and "look n d = Some x \<Longrightarrow> (digest x = digest data \<Longrightarrow> x = data) \<Longrightarrow> look n d' = Some x"
  using write_ok [of data d] assms by auto

lemma rewrite_same:
  assumes "wr (digest data) data d = (Ok (), d')" and "look (digest data) d = Some data"
  shows "look n d' = look n d"
  using write_ok [of data d] assms by auto

lemma remove_keeps:
  "\<forall>n x. look n d = Some x \<longrightarrow> digest x = n \<Longrightarrow> \<forall>n x. look n (remove m d) = Some x \<longrightarrow> digest x = n"
  by (simp add: remove_look)

end

interpretation blobs: blob_store "writeBlob os_ok dir" "blob_at dir" "remove_blob os_ok dir" sha_hex
  for dir
proof (unfold_locales, goal_cases)
  case (1 data d)
  then show ?case using writeBlob_ok by simp
next
  case (2 n m d)
  then show ?case by (rule blob_at_remove)
qed

definition blobs_intact :: "path \<Rightarrow> disk \<Rightarrow> bool" where
  "blobs_intact dir dk = (\<forall>n x. blob_at dir n dk = Some x \<longrightarrow> sha_hex x = n)"

section \<open>Lemmas on metadata operations\<close>

text \<open>The store's metadata operations take effect here: it stands alone, or its node leads and the
  log commits.\<close>

definition accepts :: "'db Store \<Rightarrow> bool" where
  "accepts s =
     (case st_raft s of None \<Rightarrow> True
      | Some r \<Rightarrow> RaftNode_IsLeader r \<and> (\<forall>data. rl_apply (rn_raft r) data = None))"

lemma on_meta_simps [simp]:
  "fst (on_meta f s) = fst (f (st_meta s))" "st_meta (snd (on_meta f s)) = snd (f (st_meta s))"
  "st_disk (snd (on_meta f s)) = st_disk s" "st_dataDir (snd (on_meta f s)) = st_dataDir s"
  "st_raft (snd (on_meta f s)) = st_raft s" "st_multipart (snd (on_meta f s)) = st_multipart s"
  by (simp_all add: on_meta_def split: prod.split)

lemma raftApply_frame:
  assumes "raftApply now op s = (r, s')"
  shows "st_disk s' = st_disk s" "st_dataDir s' = st_dataDir s" "st_raft s' = st_raft s"
    "st_multipart s' = st_multipart s" "s' = s\<lparr>st_meta := st_meta s'\<rparr>"
  using assms by (auto simp: raftApply_def on_meta_def split: option.splits if_splits prod.splits)

lemma raftApply_Ok:
  assumes "accepts s" and "op_valid op" and "ApplyOp now op (st_meta s) = (Ok (), m')"
  shows "raftApply now op s = (Ok (), s\<lparr>st_meta := m'\<rparr>)"
  using assms
  by (auto simp: raftApply_def accepts_def on_meta_def RaftNode_Apply_def Let_def fsm_Apply_def
      dec_enc_RaftOp split: option.splits)

lemma ApplyOp_put:
  "meta_valid meta \<Longrightarrow> ApplyOp now (put_op b k meta) m = drop_value (ms_PutObject b k meta m)"
  by (simp add: ApplyOp_def put_op_def dec_enc_ObjectMeta)

lemma ApplyOp_delete_version:
  "ApplyOp now \<lparr>op_Kind = ''delete_version'', op_Bucket = b, op_Key = k, op_VersionID = vid,
     op_Meta = j\<rparr> m = drop_value (ms_DeleteObject now b k vid m)"
  by (simp add: ApplyOp_def)

lemma op_valid_put: "valid_utf8 b \<Longrightarrow> valid_utf8 k \<Longrightarrow> op_valid (put_op b k meta)"
  by (simp add: op_valid_def put_op_def)

lemma valid_utf8_sha_hex [simp]: "valid_utf8 (sha_hex data)"
  by (simp add: sha_hex_def)

lemma new_meta_simps [simp]:
  "om_Key (new_meta t k n sha) = k" "om_Size (new_meta t k n sha) = n"
  "om_ETag (new_meta t k n sha) = sha" "om_Sha256 (new_meta t k n sha) = sha"
  "om_CreatedAt (new_meta t k n sha) = t" "\<not> om_IsDeleteMarker (new_meta t k n sha)"
  "valid_utf8 k \<Longrightarrow> valid_utf8 sha \<Longrightarrow> meta_valid (new_meta t k n sha)"
  by (simp_all add: new_meta_def zero_meta_def meta_valid_def)

lemma st_GetObject_eq:
  assumes "ms_GetObject b k v (st_meta s) = Ok meta" and "8 \<le> length (om_Sha256 meta)"
  shows "st_GetObject os_ok b k v s =
    (case blob_at (st_dataDir s) (om_Sha256 meta) (st_disk s) of
       Some data \<Rightarrow> Ok (data, meta)
     | None \<Rightarrow> Err (ErrWrap (''open blob '' @ take 8 (om_Sha256 meta)) no_such_file))"
  using assms
  by (simp add: st_GetObject_def blobPath_eq os_Open_def blob_at_def slice_to_def split: option.split)

lemma st_GetObject_OkD:
  assumes "st_GetObject E b k v s = Ok (data, meta)"
  shows "ms_GetObject b k v (st_meta s) = Ok meta"
    and "blob_at (st_dataDir s) (om_Sha256 meta) (st_disk s) = Some data"
  using assms
  by (auto simp: st_GetObject_def blobPath_eq os_Open_def blob_at_def slice_to_def
      split: outcome.splits option.splits if_splits)

text \<open>What the pointer shows is the cell of the shifted backing array.\<close>

lemma cell_after_shift:
  assumes "i < length xs"
  shows "cell_after i (xs ! i) (slice_delete xs i) = slice_shift xs i ! i"
  using assms by (auto simp: cell_after_def slice_shift_nth nth_append)

lemma history_ids:
  assumes "ms_wf m" and "v \<in> set (ms_history m b k)"
  shows "om_VersionID v \<noteq> ''''" and "valid_utf8 (om_VersionID v)"
proof -
  have "ms_history m b k \<noteq> []" using assms(2) by auto
  then obtain ks vst where "map_of (ms_objects m) b = Some ks" "map_of ks k = Some vst"
    and hist: "ms_history m b k = vs_Versions vst"
    by (rule ms_historyE)
  then have "vs_wf k vst" using assms(1) by (auto dest: ms_wf_lookup keys_wf_lookup)
  then have "om_VersionID v = FormatInt (version_num v)"
    using assms(2) by (simp add: hist vs_wf_def vs_numbered_def)
  then show "om_VersionID v \<noteq> ''''" "valid_utf8 (om_VersionID v)"
    by (metis FormatInt_nonempty, metis valid_utf8_FormatInt)
qed

lemma version_ptr:
  "ms_GetObjectVersion_ptr b k vid m =
     (case find_version vid (ms_history m b k) of
        Some i \<Rightarrow> Ok (i, ms_history m b k ! i) | None \<Rightarrow> Err ErrNoKey)"
  by (simp add: ms_GetObjectVersion_ptr_def ms_history_def key_history_def split: option.split)

lemma get_version_nth:
  assumes "ms_wf m" and "i < length (ms_history m b k)"
  shows "ms_GetObject b k (om_VersionID (ms_history m b k ! i)) m = Ok (ms_history m b k ! i)"
proof -
  let ?v = "ms_history m b k ! i"
  have "find_version (om_VersionID ?v) (ms_history m b k) = Some i"
    using assms ms_history_distinct by (intro find_version_nth)
  moreover have "om_VersionID ?v \<noteq> ''''" using assms history_ids(1) nth_mem by blast
  ultimately show ?thesis
    by (simp add: ms_GetObject_version find_version_first)
qed

text \<open>Removing the version at index \<open>i\<close> of a key, through the log or directly.\<close>

lemma st_DeleteObject_version:
  assumes "ms_wf (st_meta s)" and "ms_writable (st_meta s) b" and "accepts s"
    and "valid_utf8 b" and "valid_utf8 k" and hist: "ms_history (st_meta s) b k = vs" and "i < length vs"
    and cell: "meta = slice_shift vs i ! i" and "om_IsDeleteMarker meta \<or> 2 \<le> length (om_Sha256 meta)"
  shows "\<exists>m'. st_DeleteObject os_ok now b k (om_VersionID (vs ! i)) s =
      (Ok '''', s\<lparr>st_meta := m',
         st_disk := (if om_IsDeleteMarker meta then st_disk s
                     else remove_blob os_ok (st_dataDir s) (om_Sha256 meta) (st_disk s))\<rparr>) \<and>
    ms_wf m' \<and>
    (\<forall>b' k'. ms_history m' b' k' =
      (if b' = b \<and> k' = k then slice_delete vs i else ms_history (st_meta s) b' k'))"
proof -
  let ?vid = "om_VersionID (vs ! i)"
  have mem: "vs ! i \<in> set (ms_history (st_meta s) b k)" using assms(7) by (simp add: hist)
  note ids = history_ids [OF assms(1) mem]
  have find: "find_version ?vid vs = Some i"
    using ms_history_distinct [OF assms(1), of b k] assms(7) by (intro find_version_nth) (simp_all add: hist)
  have "slice_delete vs i = filter (\<lambda>v. om_VersionID v \<noteq> ?vid) vs"
    using ms_history_distinct [OF assms(1), of b k] find by (intro slice_delete_filter) (simp_all add: hist)
  moreover obtain m' where m': "ms_DeleteObject now b k ?vid (st_meta s) = (Ok '''', m')" "ms_wf m'"
    "\<And>b' k'. ms_history m' b' k' =
        (if b' = b \<and> k' = k then filter (\<lambda>v. om_VersionID v \<noteq> ?vid) vs
         else ms_history (st_meta s) b' k')"
    using versions.del_ok [OF assms(1,2) ids(1), of k now] mem by (auto simp: hist)
  ultimately have h: "ms_history m' b' k' =
      (if b' = b \<and> k' = k then slice_delete vs i else ms_history (st_meta s) b' k')" for b' k'
    by simp
  define op where "op = \<lparr>op_Kind = ''delete_version'', op_Bucket = b, op_Key = k,
    op_VersionID = ?vid, op_Meta = None\<rparr>"
  have "raftApply now op s = (Ok (), s\<lparr>st_meta := m'\<rparr>)"
    using m'(1) assms(4,5) ids(2)
    by (intro raftApply_Ok [OF assms(3)])
      (simp_all add: op_valid_def op_def ApplyOp_delete_version)
  moreover have "ms_GetObjectVersion_ptr b k ?vid (st_meta s) = Ok (i, vs ! i)"
    using find by (simp add: version_ptr hist)
  moreover have "cell_after i (vs ! i) (ms_history m' b k) = meta"
    using cell_after_shift [OF assms(7)] by (simp add: h cell)
  ultimately have "st_DeleteObject os_ok now b k ?vid s =
      (Ok '''', s\<lparr>st_meta := m',
         st_disk := (if om_IsDeleteMarker meta then st_disk s
                     else remove_blob os_ok (st_dataDir s) (om_Sha256 meta) (st_disk s))\<rparr>)"
    using ids(1) assms(9)
    by (auto simp: st_DeleteObject_def op_def Let_def blobPath_eq remove_blob_def)
  then show ?thesis using m'(2) h by blast
qed

text \<open>Storing a blob and registering it, the step that a write and a completed upload share.\<close>

lemma register_object:
  assumes "ms_wf (st_meta s)" and "ms_writable (st_meta s) b" and "ms_room (st_meta s) b k"
    and "accepts s" and "valid_utf8 b" and "valid_utf8 k" and meta: "meta = new_meta now k sz (sha_hex data)"
  obtains vid m' dk where "writeBlob os_ok (st_dataDir s) (sha_hex data) data (st_disk s) = (Ok (), dk)"
    and "ms_PutObject b k meta (st_meta s) = (Ok vid, m')"
    and "ms_GetObject b k '''' m' = Ok (meta\<lparr>om_VersionID := vid\<rparr>)"
    and "raftApply now (put_op b k meta) (s\<lparr>st_disk := dk\<rparr>) = (Ok (), s\<lparr>st_disk := dk, st_meta := m'\<rparr>)"
proof -
  obtain dk where dk: "writeBlob os_ok (st_dataDir s) (sha_hex data) data (st_disk s) = (Ok (), dk)"
    using blobs.write_ok by blast
  have key: "om_Key meta = k" "\<not> om_IsDeleteMarker meta" "meta_valid meta"
    using assms(6) by (simp_all add: meta)
  obtain vid m' where m': "ms_PutObject b k meta (st_meta s) = (Ok vid, m')"
    "ms_GetObject b k '''' m' = Ok (meta\<lparr>om_VersionID := vid\<rparr>)"
    using versions.put_then_get [OF assms(1-3) key(1,2)] by blast
  have "raftApply now (put_op b k meta) (s\<lparr>st_disk := dk\<rparr>) = (Ok (), s\<lparr>st_disk := dk, st_meta := m'\<rparr>)"
    using raftApply_Ok [of "s\<lparr>st_disk := dk\<rparr>" "put_op b k meta" now m'] assms(4-6) m'(1) key(3)
    by (simp add: accepts_def op_valid_put ApplyOp_put)
  then show ?thesis using that m' dk by blast
qed

text \<open>What can be read once a blob is stored and registered.\<close>

lemma stored_reads_back:
  assumes "ms_wf (st_meta s)" and "ms_writable (st_meta s) b" and "ms_room (st_meta s) b k"
    and meta: "meta = new_meta now k sz (sha_hex data)"
    and mput: "ms_PutObject b k meta (st_meta s) = (Ok vid, m')"
    and dk: "writeBlob os_ok (st_dataDir s) (sha_hex data) data (st_disk s) = (Ok (), dk)"
    and "blobs_intact (st_dataDir s) (st_disk s)"
    and s': "st_meta s' = m'" "st_dataDir s' = st_dataDir s"
      "\<And>n. blob_at (st_dataDir s) n (st_disk s') = blob_at (st_dataDir s) n dk"
  shows "v = '''' \<or> v = vid \<Longrightarrow> st_GetObject os_ok b k v s' = Ok (data, meta\<lparr>om_VersionID := vid\<rparr>)"
    and "blobs_intact (st_dataDir s') (st_disk s')"
    and "(b', k') \<noteq> (b, k) \<or> v \<noteq> '''' \<and> v \<noteq> vid \<Longrightarrow> st_GetObject os_ok b' k' v s = Ok (x, mt) \<Longrightarrow>
      (sha_hex x = sha_hex data \<longrightarrow> x = data) \<Longrightarrow> st_GetObject os_ok b' k' v s' = Ok (x, mt)"
proof -
  let ?meta = "meta\<lparr>om_VersionID := vid\<rparr>"
  have "om_Key meta = k" "\<not> om_IsDeleteMarker meta" by (simp_all add: meta)
  note mget = versions.put_then_get [OF assms(1-3) this]
  have intact: "\<forall>n x. blob_at (st_dataDir s) n (st_disk s) = Some x \<longrightarrow> sha_hex x = n"
    using assms(7) by (simp add: blobs_intact_def)
  note keep = blobs.write_keeps [OF dk intact]
  have sha: "om_Sha256 ?meta = sha_hex data" "8 \<le> length (om_Sha256 ?meta)" by (simp_all add: meta)
  have blob: "blob_at (st_dataDir s) (sha_hex data) (st_disk s') = Some data"
    using blobs.write_ok [of "st_dataDir s" data "st_disk s"] dk s'(3) by simp
  show "st_GetObject os_ok b k v s' = Ok (data, ?meta)" if "v = '''' \<or> v = vid" for v
  proof -
    have "ms_GetObject b k v (st_meta s') = Ok ?meta" using that mget mput s'(1) by auto
    from st_GetObject_eq [OF this sha(2)] show ?thesis using blob sha(1) s'(2) by simp
  qed
  show "blobs_intact (st_dataDir s') (st_disk s')"
    using keep(1) s'(2,3) by (simp add: blobs_intact_def)
  assume new: "(b', k') \<noteq> (b, k) \<or> v \<noteq> '''' \<and> v \<noteq> vid" and "st_GetObject os_ok b' k' v s = Ok (x, mt)"
    and coll: "sha_hex x = sha_hex data \<longrightarrow> x = data"
  note old = st_GetObject_OkD [OF this(2)]
  have "ms_GetObject b' k' v (st_meta s') = Ok mt"
    using new mget mput s'(1) old(1) by (cases "(b', k') = (b, k)") auto
  moreover have "om_Sha256 mt = sha_hex x" using intact old(2) by simp
  ultimately show "st_GetObject os_ok b' k' v s' = Ok (x, mt)"
    using st_GetObject_eq [of b' k' v s' mt] old keep(2) [OF old(2)] coll s'(2,3) by simp
qed

text \<open>A body that is read as \<open>data\<close> is stored and read back as \<open>data\<close>.\<close>

lemma put_reads_back:
  assumes "ms_wf (st_meta s)" and "ms_writable (st_meta s) b" and "ms_room (st_meta s) b k"
    and "accepts s" and "valid_utf8 b" and "valid_utf8 k" and "ReadAll_limit MaxObjectSize body = Ok data"
    and "blobs_intact (st_dataDir s) (st_disk s)"
  shows "\<exists>vid s' meta. st_PutObject os_ok now b k body s = (Ok (sha_hex data, vid), s') \<and>
      st_GetObject os_ok b k '''' s' = Ok (data, meta) \<and> st_GetObject os_ok b k vid s' = Ok (data, meta) \<and>
      om_Size meta = word_of_int (int (length data)) \<and> om_Sha256 meta = sha_hex data \<and>
      om_ETag meta = sha_hex data \<and> blobs_intact (st_dataDir s') (st_disk s') \<and>
      (\<forall>b' k' v x mt. ((b', k') \<noteq> (b, k) \<or> v \<noteq> '''' \<and> v \<noteq> vid) \<and>
         st_GetObject os_ok b' k' v s = Ok (x, mt) \<and> (sha_hex x = sha_hex data \<longrightarrow> x = data) \<longrightarrow>
         st_GetObject os_ok b' k' v s' = Ok (x, mt))"
proof -
  define meta where "meta = new_meta now k (word_of_int (int (length data))) (sha_hex data)"
  obtain vid m' dk where dk: "writeBlob os_ok (st_dataDir s) (sha_hex data) data (st_disk s) = (Ok (), dk)"
    and m': "ms_PutObject b k meta (st_meta s) = (Ok vid, m')" "ms_GetObject b k '''' m' = Ok (meta\<lparr>om_VersionID := vid\<rparr>)"
    and apply_op: "raftApply now (put_op b k meta) (s\<lparr>st_disk := dk\<rparr>) = (Ok (), s\<lparr>st_disk := dk, st_meta := m'\<rparr>)"
    using register_object [OF assms(1-6) meta_def] by blast
  let ?s = "s\<lparr>st_disk := dk, st_meta := m'\<rparr>"
  have "st_PutObject os_ok now b k body s = (Ok (sha_hex data, vid), ?s)"
    using dk m'(2) assms(7) apply_op
    by (simp add: st_PutObject_def Let_def sha_hex_def [symmetric] meta_def put_op_def)
  moreover note stored_reads_back [OF assms(1-3) meta_def m'(1) dk assms(8), of ?s]
  moreover have "om_Size (meta\<lparr>om_VersionID := vid\<rparr>) = word_of_int (int (length data))"
    "om_ETag (meta\<lparr>om_VersionID := vid\<rparr>) = sha_hex data" "om_Sha256 (meta\<lparr>om_VersionID := vid\<rparr>) = sha_hex data"
    by (simp_all add: meta_def)
  ultimately show ?thesis by (intro exI [of _ vid] exI [of _ ?s] exI [of _ "meta\<lparr>om_VersionID := vid\<rparr>"]) auto
qed

section \<open>Properties\<close>

text \<open>C2. What is written is what is read: a write succeeds and returns the digest of the body; the
  object then reads as exactly that body, as the current version and under the version it returned,
  with its length and digest in the metadata. Every object that could be read before still reads the
  same, unless its contents collide with the new ones. This holds standing alone and on a leader.\<close>

theorem put_get_content:
  assumes "ms_wf (st_meta s)" and "ms_writable (st_meta s) b" and "ms_room (st_meta s) b k"
    and "accepts s" and "valid_utf8 b" and "valid_utf8 k" and "length data \<le> MaxObjectSize"
    and "blobs_intact (st_dataDir s) (st_disk s)"
  shows "\<exists>vid s' meta. st_PutObject os_ok now b k \<lparr>rd_data = data, rd_err = None\<rparr> s =
        (Ok (sha_hex data, vid), s') \<and>
      st_GetObject os_ok b k '''' s' = Ok (data, meta) \<and> st_GetObject os_ok b k vid s' = Ok (data, meta) \<and>
      om_Size meta = word_of_int (int (length data)) \<and> om_Sha256 meta = sha_hex data \<and>
      om_ETag meta = sha_hex data \<and> blobs_intact (st_dataDir s') (st_disk s') \<and>
      (\<forall>b' k' v x mt. ((b', k') \<noteq> (b, k) \<or> v \<noteq> '''' \<and> v \<noteq> vid) \<and>
         st_GetObject os_ok b' k' v s = Ok (x, mt) \<and> (sha_hex x = sha_hex data \<longrightarrow> x = data) \<longrightarrow>
         st_GetObject os_ok b' k' v s' = Ok (x, mt))"
proof (rule put_reads_back [OF assms(1-6) _ assms(8)])
  show "ReadAll_limit MaxObjectSize \<lparr>rd_data = data, rd_err = None\<rparr> = Ok data"
    using assms(7) by (simp add: ReadAll_limit_def)
qed

definition demo_store :: "(string, json) gomap Store" where
  "demo_store = \<lparr>st_dataDir = [''data''], st_meta = demo_meta, st_raft = None, st_multipart = [],
     st_region = '''', st_disk = \<lparr>dk_dirs = [[''data'', ''blobs'']], dk_files = []\<rparr>\<rparr>"

lemma demo_store_facts:
  "ms_wf (st_meta demo_store)" "ms_writable (st_meta demo_store) ''b''"
  "ms_room (st_meta demo_store) ''b'' k" "accepts demo_store"
  "blobs_intact (st_dataDir demo_store) (st_disk demo_store)"
  by (simp_all add: demo_store_def demo_facts accepts_def blobs_intact_def blob_at_def)

lemma demo_names [simp]: "valid_utf8 ''b''" "valid_utf8 ''k''" "valid_utf8 ''j''"
  by (simp_all add: valid_utf8_ascii)

lemma MaxObjectSize_pos: "n \<le> 5 \<Longrightarrow> n \<le> MaxObjectSize"
  by (simp add: MaxObjectSize_def)

theorem put_get_content_witness:
  "\<exists>vid s' meta. st_PutObject os_ok 9 ''b'' ''k'' \<lparr>rd_data = ''hello'', rd_err = None\<rparr> demo_store =
       (Ok (sha_hex ''hello'', vid), s') \<and>
     st_GetObject os_ok ''b'' ''k'' '''' s' = Ok (''hello'', meta) \<and> om_Size meta = 5"
proof -
  have "length ''hello'' \<le> MaxObjectSize" by (simp add: MaxObjectSize_pos)
  from put_get_content [OF demo_store_facts(1-4) demo_names(1,2) this demo_store_facts(5), of 9]
  show ?thesis by auto
qed

lemma get_after_remove:
  assumes "ms_wf m" and "ms_wf m'"
    and h: "\<And>b' k'. ms_history m' b' k' = (if b' = b \<and> k' = k then slice_delete vs i else ms_history m b' k')"
    and "ms_history m b k = vs" and "i < length vs"
    and "v \<noteq> ''''" and "(b', k', v) \<noteq> (b, k, om_VersionID (vs ! i))"
  shows "ms_GetObject b' k' v m' = ms_GetObject b' k' v m"
proof -
  have "find_version (om_VersionID (vs ! i)) vs = Some i"
    using ms_history_distinct [OF assms(1), of b k] assms(4,5) by (simp add: find_version_nth)
  then have del: "slice_delete vs i = filter (\<lambda>x. om_VersionID x \<noteq> om_VersionID (vs ! i)) vs"
    using ms_history_distinct [OF assms(1), of b k] assms(4) by (simp add: slice_delete_filter del: slice_delete_eq)
  then show ?thesis
    using assms(4,6,7) by (auto simp: ms_GetObject_version h find_filter_other simp del: slice_delete_eq)
qed

lemma other_blobs_read:
  assumes "ms_GetObject b' k' v (st_meta s') = ms_GetObject b' k' v (st_meta s)"
    and "st_dataDir s' = st_dataDir s"
    and "\<And>n. n \<noteq> sha \<Longrightarrow> blob_at (st_dataDir s) n (st_disk s') = blob_at (st_dataDir s) n (st_disk s)"
    and "st_GetObject os_ok b' k' v s = Ok (x, mt)" and "om_Sha256 mt \<noteq> sha"
  shows "st_GetObject os_ok b' k' v s' = Ok (x, mt)"
  using assms st_GetObject_OkD [OF assms(4)]
  by (auto simp: st_GetObject_def blob_at_def blobPath_eq os_Open_def split: outcome.splits option.splits if_splits)

text \<open>Deleting the newest version of a key by its identifier removes its blob and nothing else:
  every object whose digest differs reads the same afterwards.\<close>

theorem delete_newest_version:
  assumes "ms_wf (st_meta s)" and "ms_writable (st_meta s) b" and "accepts s"
    and "valid_utf8 b" and "valid_utf8 k" and hist: "ms_history (st_meta s) b k = vs @ [v]"
    and "\<not> om_IsDeleteMarker v" and "2 \<le> length (om_Sha256 v)"
  shows "\<exists>s'. st_DeleteObject os_ok now b k (om_VersionID v) s = (Ok '''', s') \<and>
      st_GetObject os_ok b k (om_VersionID v) s' = Err ErrNoKey \<and>
      blob_at (st_dataDir s') (om_Sha256 v) (st_disk s') = None \<and>
      (\<forall>b' k' u x mt. u \<noteq> '''' \<and> (b', k', u) \<noteq> (b, k, om_VersionID v) \<and> om_Sha256 mt \<noteq> om_Sha256 v \<and>
         st_GetObject os_ok b' k' u s = Ok (x, mt) \<longrightarrow> st_GetObject os_ok b' k' u s' = Ok (x, mt))"
proof -
  let ?vs = "vs @ [v]" and ?i = "length vs"
  have i: "?i < length ?vs" and nth: "?vs ! ?i = v" by simp_all
  have "slice_shift ?vs ?i ! ?i = v" using slice_shift_nth [OF i] by simp
  with st_DeleteObject_version [OF assms(1-6) i refl, of now] assms(7,8) obtain m' where
    del: "st_DeleteObject os_ok now b k (om_VersionID v) s = (Ok '''', s\<lparr>st_meta := m',
      st_disk := remove_blob os_ok (st_dataDir s) (om_Sha256 v) (st_disk s)\<rparr>)" and "ms_wf m'"
    and h: "\<And>b' k'. ms_history m' b' k' =
      (if b' = b \<and> k' = k then slice_delete ?vs ?i else ms_history (st_meta s) b' k')"
    by (auto simp del: slice_delete_eq)
  let ?s = "s\<lparr>st_meta := m', st_disk := remove_blob os_ok (st_dataDir s) (om_Sha256 v) (st_disk s)\<rparr>"
  have "om_VersionID v \<notin> om_VersionID ` set vs"
    using ms_history_distinct [OF assms(1), of b k] by (simp add: hist)
  then have "find (\<lambda>x. om_VersionID x = om_VersionID v) vs = None"
    by (auto simp: find_None_iff image_iff dest: sym)
  moreover have "om_VersionID v \<noteq> ''''" using history_ids(1) [OF assms(1), of v b k] by (simp add: hist)
  ultimately have "ms_GetObject b k (om_VersionID v) m' = Err ErrNoKey"
    by (simp add: ms_GetObject_version h)
  then have gone: "st_GetObject os_ok b k (om_VersionID v) ?s = Err ErrNoKey"
    by (simp add: st_GetObject_def)
  have "st_GetObject os_ok b' k' u ?s = Ok (x, mt)"
    if "u \<noteq> ''''" "(b', k', u) \<noteq> (b, k, om_VersionID v)" "om_Sha256 mt \<noteq> om_Sha256 v"
      "st_GetObject os_ok b' k' u s = Ok (x, mt)" for b' k' u x mt
  proof (rule other_blobs_read [OF _ _ _ that(4) that(3)])
    show "ms_GetObject b' k' u (st_meta ?s) = ms_GetObject b' k' u (st_meta s)"
      using get_after_remove [OF assms(1) \<open>ms_wf m'\<close> h hist i that(1), of b' k'] that(2) nth by simp
  qed (simp_all add: blob_at_remove)
  then show ?thesis using del gone by (force simp: blob_at_remove)
qed

text \<open>A store in which key \<open>k\<close> has two versions, and key \<open>j\<close> has the contents of the second.\<close>

definition demo_blob :: "string \<Rightarrow> string \<Rightarrow> string \<Rightarrow> ObjectMeta" where
  "demo_blob k vid sha = zero_meta\<lparr>om_Key := k, om_Sha256 := sha, om_VersionID := vid\<rparr>"

definition demo_versions :: "(string, json) gomap Store" where
  "demo_versions = demo_store\<lparr>
     st_meta := demo_meta\<lparr>ms_objects := [(''b'',
       [(''k'', \<lparr>vs_Versions = [demo_blob ''k'' ''1'' ''01234567'', demo_blob ''k'' ''2'' ''89abcdef''],
                 vs_Current = 1, vs_NextID = 3\<rparr>),
        (''j'', \<lparr>vs_Versions = [demo_blob ''j'' ''1'' ''89abcdef''], vs_Current = 0, vs_NextID = 2\<rparr>)])]\<rparr>,
     st_disk := \<lparr>dk_dirs = [], dk_files = [(blob_path [''data''] ''01234567'', ''one''),
       (blob_path [''data''] ''89abcdef'', ''two'')]\<rparr>\<rparr>"

lemma demo_versions_facts:
  "ms_wf (st_meta demo_versions)" "ms_writable (st_meta demo_versions) ''b''" "accepts demo_versions"
  "ms_history (st_meta demo_versions) ''b'' ''k'' =
     [demo_blob ''k'' ''1'' ''01234567'', demo_blob ''k'' ''2'' ''89abcdef'']"
  "ms_history (st_meta demo_versions) ''b'' ''j'' = [demo_blob ''j'' ''1'' ''89abcdef'']"
  by (simp_all add: demo_versions_def demo_store_def demo_meta_def demo_blob_def zero_meta_def ms_wf_def
      keys_wf_def vs_wf_def vs_numbered_def version_num_def digits_val_def digit_val_def go_simps
      ms_writable_def map_bool_def accepts_def ms_history_def key_history_def)

lemma demo_versions_room: "ms_room (st_meta demo_versions) ''b'' ''k''"
  by (simp add: demo_versions_def ms_room_def ms_next_def key_next_def)

lemma demo_blob_simps [simp]:
  "om_VersionID (demo_blob k vid sha) = vid" "om_Sha256 (demo_blob k vid sha) = sha"
  "\<not> om_IsDeleteMarker (demo_blob k vid sha)"
  by (simp_all add: demo_blob_def zero_meta_def)

theorem delete_newest_version_witness:
  "\<exists>s'. st_DeleteObject os_ok 9 ''b'' ''k'' ''2'' demo_versions = (Ok '''', s') \<and>
     blob_at (st_dataDir s') ''89abcdef'' (st_disk s') = None"
proof -
  have "ms_history (st_meta demo_versions) ''b'' ''k'' =
      [demo_blob ''k'' ''1'' ''01234567''] @ [demo_blob ''k'' ''2'' ''89abcdef'']"
    by (simp add: demo_versions_facts(4))
  from delete_newest_version [OF demo_versions_facts(1-3) demo_names(1,2) this, of 9]
  show ?thesis by auto
qed

text \<open>C25. Deleting any older version removes the wrong blob: the pointer to the metadata of the removed
  version shows the next version by the time its digest is read. The next version is still listed
  and its metadata is still there, but its data is gone; the blob of the removed version stays.\<close>

theorem delete_removes_next_blob:
  assumes "ms_wf (st_meta s)" and "ms_writable (st_meta s) b" and "accepts s"
    and "valid_utf8 b" and "valid_utf8 k" and hist: "ms_history (st_meta s) b k = us @ [v, w] @ ws"
    and "\<not> om_IsDeleteMarker w" and "8 \<le> length (om_Sha256 w)"
  shows "\<exists>s'. st_DeleteObject os_ok now b k (om_VersionID v) s = (Ok '''', s') \<and>
      ms_GetObject b k (om_VersionID w) (st_meta s') = Ok w \<and>
      st_GetObject os_ok b k (om_VersionID w) s' =
        Err (ErrWrap (''open blob '' @ take 8 (om_Sha256 w)) no_such_file) \<and>
      (om_Sha256 v \<noteq> om_Sha256 w \<longrightarrow>
        blob_at (st_dataDir s) (om_Sha256 v) (st_disk s') = blob_at (st_dataDir s) (om_Sha256 v) (st_disk s))"
proof -
  let ?vs = "us @ [v, w] @ ws" and ?i = "length us"
  have i: "?i < length ?vs" and nth: "?vs ! ?i = v" by simp_all
  have "slice_shift ?vs ?i ! ?i = w" using slice_shift_nth [OF i] by (simp add: nth_append)
  with st_DeleteObject_version [OF assms(1-6) i refl, of now] assms(7,8) obtain m' where
    del: "st_DeleteObject os_ok now b k (om_VersionID v) s = (Ok '''', s\<lparr>st_meta := m',
      st_disk := remove_blob os_ok (st_dataDir s) (om_Sha256 w) (st_disk s)\<rparr>)" and "ms_wf m'"
    and h: "ms_history m' b k = us @ w # ws"
    by (auto simp: nth_append)
  have "ms_GetObject b k (om_VersionID w) m' = Ok w"
    using get_version_nth [OF \<open>ms_wf m'\<close>, of "length us" b k] by (simp add: h nth_append)
  moreover from this have "st_GetObject os_ok b k (om_VersionID w)
      (s\<lparr>st_meta := m', st_disk := remove_blob os_ok (st_dataDir s) (om_Sha256 w) (st_disk s)\<rparr>) =
      Err (ErrWrap (''open blob '' @ take 8 (om_Sha256 w)) no_such_file)"
    using assms(8) by (simp add: st_GetObject_eq blob_at_remove)
  ultimately show ?thesis using del by (auto simp: blob_at_remove)
qed

theorem delete_removes_next_blob_witness:
  "\<exists>s'. st_GetObject os_ok ''b'' ''k'' ''2'' demo_versions = Ok (''two'', demo_blob ''k'' ''2'' ''89abcdef'') \<and>
     st_DeleteObject os_ok 9 ''b'' ''k'' ''1'' demo_versions = (Ok '''', s') \<and>
     st_GetObject os_ok ''b'' ''k'' ''2'' s' = Err (ErrWrap ''open blob 89abcdef'' no_such_file)"
proof -
  have h: "ms_history (st_meta demo_versions) ''b'' ''k'' =
      [] @ [demo_blob ''k'' ''1'' ''01234567'', demo_blob ''k'' ''2'' ''89abcdef''] @ []"
    by (simp add: demo_versions_facts(4))
  have "st_GetObject os_ok ''b'' ''k'' ''2'' demo_versions = Ok (''two'', demo_blob ''k'' ''2'' ''89abcdef'')"
    using get_version_nth [OF demo_versions_facts(1), of 1 "''b''" "''k''"]
    by (simp add: demo_versions_facts(4) st_GetObject_eq)
      (simp add: demo_versions_def demo_store_def blob_at_def blob_path_def)
  then show ?thesis
    using delete_removes_next_blob [OF demo_versions_facts(1-3) demo_names(1,2) h, of 9] by auto
qed

text \<open>C26. Blobs are shared by contents but removed with one version: deleting the newest version of a
  key makes every other object with the same contents unreadable.\<close>

theorem delete_loses_shared_blob:
  assumes "ms_wf (st_meta s)" and "ms_writable (st_meta s) b" and "accepts s"
    and "valid_utf8 b" and "valid_utf8 k" and hist: "ms_history (st_meta s) b k = vs @ [v]"
    and "\<not> om_IsDeleteMarker v" and "8 \<le> length (om_Sha256 v)"
    and "(b', k') \<noteq> (b, k)" and "ms_history (st_meta s) b' k' = us @ w # ws"
    and "om_Sha256 w = om_Sha256 v"
  shows "\<exists>s'. st_DeleteObject os_ok now b k (om_VersionID v) s = (Ok '''', s') \<and>
      ms_GetObject b' k' (om_VersionID w) (st_meta s') = Ok w \<and>
      st_GetObject os_ok b' k' (om_VersionID w) s' =
        Err (ErrWrap (''open blob '' @ take 8 (om_Sha256 w)) no_such_file)"
proof -
  let ?vs = "vs @ [v]" and ?i = "length vs"
  have i: "?i < length ?vs" by simp
  have "slice_shift ?vs ?i ! ?i = v" using slice_shift_nth [OF i] by simp
  with st_DeleteObject_version [OF assms(1-6) i refl, of now] assms(7,8) obtain m' where
    del: "st_DeleteObject os_ok now b k (om_VersionID v) s = (Ok '''', s\<lparr>st_meta := m',
      st_disk := remove_blob os_ok (st_dataDir s) (om_Sha256 v) (st_disk s)\<rparr>)" and "ms_wf m'"
    and h: "ms_history m' b' k' = us @ w # ws"
    using assms(9,10) by (auto simp del: slice_delete_eq)
  have "ms_GetObject b' k' (om_VersionID w) m' = Ok w"
    using get_version_nth [OF \<open>ms_wf m'\<close>, of "length us" b' k'] by (simp add: h nth_append)
  moreover from this have "st_GetObject os_ok b' k' (om_VersionID w)
      (s\<lparr>st_meta := m', st_disk := remove_blob os_ok (st_dataDir s) (om_Sha256 v) (st_disk s)\<rparr>) =
      Err (ErrWrap (''open blob '' @ take 8 (om_Sha256 w)) no_such_file)"
    using assms(8,11) by (simp add: st_GetObject_eq blob_at_remove)
  ultimately show ?thesis using del by auto
qed

theorem delete_loses_shared_blob_witness:
  "\<exists>s'. st_DeleteObject os_ok 9 ''b'' ''k'' ''2'' demo_versions = (Ok '''', s') \<and>
     st_GetObject os_ok ''b'' ''j'' ''1'' s' = Err (ErrWrap ''open blob 89abcdef'' no_such_file)"
proof -
  have h: "ms_history (st_meta demo_versions) ''b'' ''k'' =
      [demo_blob ''k'' ''1'' ''01234567''] @ [demo_blob ''k'' ''2'' ''89abcdef'']"
    "ms_history (st_meta demo_versions) ''b'' ''j'' = [] @ demo_blob ''j'' ''1'' ''89abcdef'' # []"
    by (simp_all add: demo_versions_facts(4,5))
  from delete_loses_shared_blob [OF demo_versions_facts(1-3) demo_names(1,2) h(1) _ _ _ h(2), of 9]
  show ?thesis by auto
qed

text \<open>Reading a delete marker by its version panics: the identifier that a delete returned names a
  version whose digest is empty, and the path of its blob slices that digest.\<close>

theorem get_marker_panics:
  assumes "ms_wf (st_meta s)" and "ms_writable (st_meta s) b" and "ms_room (st_meta s) b k"
    and "ms_history (st_meta s) b k \<noteq> []"
  shows "\<exists>vid s'. st_DeleteObject E now b k '''' s = (Ok vid, s') \<and>
      st_GetObject E' b k vid s' = Panic ''slice bounds out of range''"
proof -
  obtain vid m' where m': "ms_DeleteObject now b k '''' (st_meta s) = (Ok vid, m')" "ms_wf m'"
    and h: "ms_history m' b k = ms_history (st_meta s) b k @ [(delete_marker k now)\<lparr>om_VersionID := vid\<rparr>]"
    using versions.mark_ok [OF assms, of now] by auto
  have "ms_GetObject b k vid m' = Ok ((delete_marker k now)\<lparr>om_VersionID := vid\<rparr>)"
    using get_version_nth [OF m'(2), of "length (ms_history (st_meta s) b k)" b k]
    by (simp add: h nth_append)
  then have "st_GetObject E' b k vid (s\<lparr>st_meta := m'\<rparr>) = Panic ''slice bounds out of range''"
    by (simp add: st_GetObject_def blobPath_eq delete_marker_def zero_meta_def)
  then show ?thesis using m'(1) by (auto simp: st_DeleteObject_def on_meta_def)
qed

theorem get_marker_panics_witness:
  "\<exists>vid s'. st_DeleteObject os_ok 9 ''b'' ''k'' '''' demo_versions = (Ok vid, s') \<and>
     st_GetObject os_ok ''b'' ''k'' vid s' = Panic ''slice bounds out of range''"
  by (rule get_marker_panics [OF demo_versions_facts(1,2) demo_versions_room])
    (simp add: demo_versions_facts)

definition follower :: RaftNode where
  "follower = \<lparr>rn_raft = demo_lib\<lparr>rl_leader := False\<rparr>, rn_localID = ''n2'', rn_addr = ''n2:7000''\<rparr>"

lemma follower_not_leader: "\<not> RaftNode_IsLeader follower"
  by (simp add: follower_def RaftNode_IsLeader_def)

text \<open>A delete without a version does not go through Raft: a follower carries it out on its own
  metadata, so that the follower and the leader, in the same state before, disagree on whether the
  object exists.\<close>

theorem follower_delete_is_local:
  assumes "ms_wf (st_meta f)" and "ms_writable (st_meta f) b" and "ms_room (st_meta f) b k"
    and "ms_GetObject b k '''' (st_meta f) = Ok meta"
    and "st_raft f = Some r" and "\<not> RaftNode_IsLeader r" and "st_meta l = st_meta f"
  shows "\<exists>vid f'. st_DeleteObject E now b k '''' f = (Ok vid, f') \<and> st_raft f' = Some r \<and>
      st_GetMeta b k l = Ok meta \<and> st_GetMeta b k f' = Err ErrNoKey \<and>
      ms_objects (st_meta f') \<noteq> ms_objects (st_meta l)"
proof -
  have "ms_history (st_meta f) b k \<noteq> []"
    using assms(4) ms_GetObject_current [OF assms(1), of b k] by auto
  then obtain vid m' where m': "ms_DeleteObject now b k '''' (st_meta f) = (Ok vid, m')"
    "ms_GetObject b k '''' m' = Err ErrNoKey"
    using versions.mark_then_get [OF assms(1-3), of now] by blast
  moreover have "ms_objects m' \<noteq> ms_objects (st_meta f)"
    using m'(2) assms(4) by (auto simp: ms_GetObject_def)
  ultimately show ?thesis
    using assms(4,5,7) by (auto simp: st_DeleteObject_def on_meta_def st_GetMeta_def)
qed

theorem follower_delete_is_local_witness:
  "\<exists>vid f'. st_DeleteObject os_ok 9 ''b'' ''k'' '''' (st_SetRaft follower demo_versions) = (Ok vid, f') \<and>
     st_GetMeta ''b'' ''k'' demo_versions = Ok (demo_blob ''k'' ''2'' ''89abcdef'') \<and>
     st_GetMeta ''b'' ''k'' f' = Err ErrNoKey"
proof -
  let ?f = "st_SetRaft follower demo_versions"
  have meta: "st_meta demo_versions = st_meta ?f" by (simp add: st_SetRaft_def)
  have "ms_GetObject ''b'' ''k'' '''' (st_meta ?f) = Ok (demo_blob ''k'' ''2'' ''89abcdef'')"
    unfolding meta [symmetric] by (simp add: ms_GetObject_current demo_versions_facts)
  from follower_delete_is_local [OF demo_versions_facts(1,2) [unfolded meta]
      demo_versions_room [unfolded meta] this _ follower_not_leader meta, of os_ok 9]
  show ?thesis by (auto simp: st_SetRaft_def)
qed

text \<open>On a leader, a write to a bucket that does not exist is reported as done: the blob is stored,
  the log entry is committed, its error is dropped, and the caller gets a digest and an empty version
  although no object exists.\<close>

theorem leader_put_missing_bucket:
  assumes "st_raft s = Some r" and "accepts s" and "valid_utf8 b" and "valid_utf8 k"
    and "\<not> map_bool (ms_cache (st_meta s)) b" and "ms_history (st_meta s) b k = []"
    and "ReadAll_limit MaxObjectSize body = Ok data"
  shows "\<exists>s'. st_PutObject os_ok now b k body s = (Ok (sha_hex data, ''''), s') \<and>
      st_meta s' = st_meta s \<and> st_GetMeta b k s' = Err ErrNoKey \<and>
      blob_at (st_dataDir s) (sha_hex data) (st_disk s') = Some data"
proof -
  obtain dk where dk: "writeBlob os_ok (st_dataDir s) (sha_hex data) data (st_disk s) = (Ok (), dk)"
    and blob: "blob_at (st_dataDir s) (sha_hex data) dk = Some data"
    using blobs.write_ok by fastforce
  define meta where "meta = new_meta now k (word_of_int (int (length data))) (sha_hex data)"
  have "meta_valid meta" using assms(4) by (simp add: meta_def)
  have "fsm_Apply now (enc_RaftOp (put_op b k meta)) (st_meta s) = (Err ErrNoBucket, st_meta s)"
    using assms(5) by (simp add: fsm_Apply_put [OF assms(3,4) \<open>meta_valid meta\<close>] ms_PutObject_def)
  then have "raftApply now (put_op b k meta) (s\<lparr>st_disk := dk\<rparr>) = (Ok (), s\<lparr>st_disk := dk\<rparr>)"
    using assms(1,2) by (simp add: raftApply_def accepts_def on_meta_def RaftNode_Apply_def Let_def)
  moreover have "ms_GetObject b k '''' (st_meta s) = Err ErrNoKey"
    using assms(6) by (auto simp: ms_GetObject_def ms_history_def key_history_def split: option.splits)
  ultimately show ?thesis
    using dk blob assms(7)
    by (simp add: st_PutObject_def Let_def sha_hex_def [symmetric] put_op_def meta_def st_GetMeta_def)
qed

theorem leader_put_missing_bucket_witness:
  "\<exists>s'. st_PutObject os_ok 9 ''j'' ''k'' \<lparr>rd_data = ''x'', rd_err = None\<rparr> (st_SetRaft demo_node demo_store) =
     (Ok (sha_hex ''x'', ''''), s') \<and> st_GetMeta ''j'' ''k'' s' = Err ErrNoKey"
proof -
  let ?s = "st_SetRaft demo_node demo_store"
  have facts: "st_raft ?s = Some demo_node" "accepts ?s" "\<not> map_bool (ms_cache (st_meta ?s)) ''j''"
    "ms_history (st_meta ?s) ''j'' ''k'' = []"
    by (simp_all add: st_SetRaft_def demo_store_def demo_meta_def map_bool_def ms_history_def accepts_def
        RaftNode_IsLeader_def demo_node_def demo_lib_def)
  have "ReadAll_limit MaxObjectSize \<lparr>rd_data = ''x'', rd_err = None\<rparr> = Ok ''x''"
    by (simp add: ReadAll_limit_def MaxObjectSize_def)
  from leader_put_missing_bucket [OF facts(1,2) demo_names(3,2) facts(3,4) this, of 9] show ?thesis
    by auto
qed

text \<open>A body longer than the limit is cut off without an error: the write succeeds, and what is
  stored and read back is the first 5 GiB of it, whatever comes after them, a failed transfer
  included.\<close>

theorem oversize_put_truncated:
  assumes "ms_wf (st_meta s)" and "ms_writable (st_meta s) b" and "ms_room (st_meta s) b k"
    and "accepts s" and "valid_utf8 b" and "valid_utf8 k" and "blobs_intact (st_dataDir s) (st_disk s)"
    and "MaxObjectSize < length data"
  shows "\<exists>vid s' meta. st_PutObject os_ok now b k \<lparr>rd_data = data, rd_err = e\<rparr> s =
        (Ok (sha_hex (take MaxObjectSize data), vid), s') \<and>
      st_GetObject os_ok b k vid s' = Ok (take MaxObjectSize data, meta) \<and>
      om_Size meta = 5 * 2 ^ 30 \<and> take MaxObjectSize data \<noteq> data"
proof -
  have len: "length (take MaxObjectSize data) = MaxObjectSize" using assms(8) by simp
  then have "take MaxObjectSize data \<noteq> data" using assms(8) by (metis less_irrefl)
  moreover have "ReadAll_limit MaxObjectSize \<lparr>rd_data = data, rd_err = e\<rparr> = Ok (take MaxObjectSize data)"
    using assms(8) by (simp add: ReadAll_limit_def)
  from put_reads_back [OF assms(1-6) this assms(7), of now] obtain vid s' meta where
    "st_PutObject os_ok now b k \<lparr>rd_data = data, rd_err = e\<rparr> s =
      (Ok (sha_hex (take MaxObjectSize data), vid), s')"
    "st_GetObject os_ok b k vid s' = Ok (take MaxObjectSize data, meta)"
    "om_Size meta = word_of_int (int (length (take MaxObjectSize data)))"
    by blast
  moreover have "(word_of_int (int MaxObjectSize) :: i64) = 5 * 2 ^ 30"
    by (simp add: MaxObjectSize_def)
  ultimately show ?thesis unfolding len by metis
qed

theorem oversize_put_truncated_witness:
  "\<exists>vid s' meta. st_PutObject os_ok 9 ''b'' ''k''
       \<lparr>rd_data = replicate (MaxObjectSize + 1) CHR ''a'', rd_err = Some (ErrText ''unexpected EOF'')\<rparr> demo_store =
       (Ok (sha_hex (replicate MaxObjectSize CHR ''a''), vid), s') \<and>
     st_GetObject os_ok ''b'' ''k'' vid s' = Ok (replicate MaxObjectSize CHR ''a'', meta)"
proof -
  have "MaxObjectSize < length (replicate (MaxObjectSize + 1) CHR ''a'')"
    by (simp only: length_replicate)
  moreover have "take MaxObjectSize (replicate (MaxObjectSize + 1) CHR ''a'') = replicate MaxObjectSize CHR ''a''"
    by (simp only: take_replicate) simp
  ultimately show ?thesis
    using oversize_put_truncated [OF demo_store_facts(1-4) demo_names(1,2) demo_store_facts(5)] by metis
qed

text \<open>Blobs are overwritten in place, also when they are there already: a write of contents that
  some object has, if it stops short, is reported as failed but leaves that object with the first
  bytes of its contents, which are then returned without an error.\<close>

theorem short_write_corrupts:
  assumes "blobs_intact (st_dataDir s) (st_disk s)" and "st_GetObject os_ok b' k' v s = Ok (data, meta)"
    and "length data < MaxObjectSize" and "\<And>p. os_mkdir E p = None"
    and "os_write E (blob_path (st_dataDir s) (sha_hex data)) data = ShortWrite n e" and "n < length data"
  shows "\<exists>s'. st_PutObject E now b k \<lparr>rd_data = data, rd_err = None\<rparr> s =
        (Err (ErrWrap ''write blob'' e), s') \<and>
      st_GetObject os_ok b' k' v s' = Ok (take n data, meta) \<and> take n data \<noteq> data"
proof -
  note old = st_GetObject_OkD [OF assms(2)]
  have sha: "om_Sha256 meta = sha_hex data"
    using assms(1) old(2) by (simp add: blobs_intact_def)
  obtain dk where dk: "writeBlob E (st_dataDir s) (sha_hex data) data (st_disk s) = (Err e, dk)"
    and blob: "blob_at (st_dataDir s) (sha_hex data) dk = Some (take n data)"
    using writeBlob_short [OF _ assms(4,5), of "st_disk s"] by auto
  have "st_GetObject os_ok b' k' v (s\<lparr>st_disk := dk\<rparr>) = Ok (take n data, meta)"
    using st_GetObject_eq [of b' k' v "s\<lparr>st_disk := dk\<rparr>" meta] old(1) sha blob by simp
  moreover have "take n data \<noteq> data"
    using assms(6) by (metis length_take min.absorb4 less_irrefl)
  ultimately show ?thesis
    using dk assms(3) by (simp add: st_PutObject_def ReadAll_limit_def Let_def sha_hex_def [symmetric])
qed

definition demo_saved :: "(string, json) gomap Store" where
  "demo_saved = demo_store\<lparr>
     st_meta := demo_meta\<lparr>ms_objects := [(''b'', [(''k'',
       \<lparr>vs_Versions = [demo_blob ''k'' ''1'' (sha_hex ''hello'')], vs_Current = 0, vs_NextID = 2\<rparr>)])]\<rparr>,
     st_disk := \<lparr>dk_dirs = [], dk_files = [(blob_path [''data''] (sha_hex ''hello''), ''hello'')]\<rparr>\<rparr>"

lemma demo_saved_facts:
  "blobs_intact (st_dataDir demo_saved) (st_disk demo_saved)"
  "st_GetObject os_ok ''b'' ''k'' '''' demo_saved = Ok (''hello'', demo_blob ''k'' ''1'' (sha_hex ''hello''))"
  by (auto simp: demo_saved_def demo_store_def blobs_intact_def blob_at_def ms_GetObject_def st_GetObject_eq
      split: if_splits)

definition full_disk :: os where
  "full_disk = os_ok\<lparr>os_write := \<lambda>_ _. ShortWrite 2 (ErrText ''no space left on device'')\<rparr>"

theorem short_write_corrupts_witness:
  "\<exists>s'. st_PutObject full_disk 9 ''b'' ''j'' \<lparr>rd_data = ''hello'', rd_err = None\<rparr> demo_saved =
       (Err (ErrWrap ''write blob'' (ErrText ''no space left on device'')), s') \<and>
     st_GetObject os_ok ''b'' ''k'' '''' s' = Ok (''he'', demo_blob ''k'' ''1'' (sha_hex ''hello''))"
proof -
  have "length ''hello'' < MaxObjectSize" by (simp add: MaxObjectSize_def)
  moreover have "os_mkdir full_disk p = None" and
    "os_write full_disk p d = ShortWrite 2 (ErrText ''no space left on device'')" for p d
    by (simp_all add: full_disk_def)
  ultimately show ?thesis
    using short_write_corrupts [OF demo_saved_facts, of full_disk 2 "ErrText ''no space left on device''" 9]
    by simp
qed

end
