(* ===== verification/Buckets.thy ===== *)
theory Buckets
  imports Store
begin

text \<open>
  The life of a bucket in the engine: what creating and deleting it do to the database, the cache, the
  objects and the disk, over a database that keeps what it is given (locale \<open>bolt_kv\<close>).
\<close>

section \<open>Lemmas\<close>

lemma deleted_bucket:
  assumes "bolt_kv B" and "st_DeleteBucket B b s = (Ok u, s')"
  shows "b \<in> bucket_names B (ms_buckets (st_meta s))"
    and "bucket_names B (ms_buckets (st_meta s')) = bucket_names B (ms_buckets (st_meta s)) - {b}"
    and "s' = s\<lparr>st_meta := st_meta s'\<rparr>"
    and "ms_objects (st_meta s') = AList.delete b (ms_objects (st_meta s))"
    and "ms_cache (st_meta s') = AList.delete b (ms_cache (st_meta s))"
proof -
  obtain db where db: "BucketDB_Delete B b (ms_buckets (st_meta s)) = (Ok (), db)"
    and s': "s' = s\<lparr>st_meta := (st_meta s)\<lparr>ms_buckets := db, ms_cache := AList.delete b (ms_cache (st_meta s)),
      ms_objects := AList.delete b (ms_objects (st_meta s))\<rparr>\<rparr>"
    using assms(2) by (auto simp: st_DeleteBucket_def on_meta_def ms_DeleteBucket_def split: prod.splits outcome.splits)
  show "b \<in> bucket_names B (ms_buckets (st_meta s))"
    "bucket_names B (ms_buckets (st_meta s')) = bucket_names B (ms_buckets (st_meta s)) - {b}"
    using bolt_kv.Delete_Ok(1,2) [OF assms(1) db] by (simp_all add: s')
  show "s' = s\<lparr>st_meta := st_meta s'\<rparr>" "ms_objects (st_meta s') = AList.delete b (ms_objects (st_meta s))"
    "ms_cache (st_meta s') = AList.delete b (ms_cache (st_meta s))"
    by (simp_all add: s')
qed

lemma created_bucket_state:
  assumes "bolt_kv B" and "st_CreateBucket B t b s = (Ok u, s')"
  shows "b \<notin> bucket_names B (ms_buckets (st_meta s))"
    and "bucket_names B (ms_buckets (st_meta s')) = insert b (bucket_names B (ms_buckets (st_meta s)))"
    and "bolt_get B (ms_buckets (st_meta s')) b =
      Some (enc_BucketMeta \<lparr>bm_Name = b, bm_Region = ms_region (st_meta s), bm_CreatedAt = t\<rparr>)"
    and "s' = s\<lparr>st_meta := st_meta s'\<rparr>"
    and "ms_objects (st_meta s') = AList.update b [] (ms_objects (st_meta s))"
    and "ms_cache (st_meta s') = AList.update b True (ms_cache (st_meta s))"
proof -
  obtain db where db: "BucketDB_Create B t b (ms_region (st_meta s)) (ms_buckets (st_meta s)) = (Ok (), db)"
    and s': "s' = s\<lparr>st_meta := (st_meta s)\<lparr>ms_buckets := db, ms_cache := AList.update b True (ms_cache (st_meta s)),
      ms_objects := AList.update b [] (ms_objects (st_meta s))\<rparr>\<rparr>"
    using assms(2) by (auto simp: st_CreateBucket_def on_meta_def ms_CreateBucket_def split: prod.splits outcome.splits)
  show "b \<notin> bucket_names B (ms_buckets (st_meta s))"
    "bucket_names B (ms_buckets (st_meta s')) = insert b (bucket_names B (ms_buckets (st_meta s)))"
    using bolt_kv.Create_Ok(1,2) [OF assms(1) db] by (simp_all add: s')
  from bolt_Update_cases [OF db [unfolded BucketDB_Create_def]]
  have "bolt_put B (ms_buckets (st_meta s)) b
      (enc_BucketMeta \<lparr>bm_Name = b, bm_Region = ms_region (st_meta s), bm_CreatedAt = t\<rparr>) = Inr db"
    by (auto split: if_splits)
  then show "bolt_get B (ms_buckets (st_meta s')) b =
      Some (enc_BucketMeta \<lparr>bm_Name = b, bm_Region = ms_region (st_meta s), bm_CreatedAt = t\<rparr>)"
    using bolt_kv.put_get [OF assms(1)] by (simp add: s')
  show "s' = s\<lparr>st_meta := st_meta s'\<rparr>" "ms_objects (st_meta s') = AList.update b [] (ms_objects (st_meta s))"
    "ms_cache (st_meta s') = AList.update b True (ms_cache (st_meta s))"
    by (simp_all add: s')
qed

text \<open>What a name that is taken, or missing, is answered.\<close>

lemma bucket_refused:
  assumes "bolt_kv B" and "bolt_begin B (ms_buckets (st_meta s)) = None"
  shows "b \<in> bucket_names B (ms_buckets (st_meta s)) \<Longrightarrow> st_CreateBucket B t b s = (Err ErrBucketExists, s)"
    and "b \<notin> bucket_names B (ms_buckets (st_meta s)) \<Longrightarrow> st_DeleteBucket B b s = (Err ErrNoBucket, s)"
    and "b \<notin> bucket_names B (ms_buckets (st_meta s)) \<Longrightarrow> st_GetBucket B b s = Err ErrNoBucket"
  using assms(2)
  by (simp_all add: bolt_kv.names_get [OF assms(1)] st_CreateBucket_def st_DeleteBucket_def st_GetBucket_def ms_GetBucket_def
      on_meta_def ms_CreateBucket_def ms_DeleteBucket_def bucketdb_defs)

text \<open>Reads of objects follow the keys of their bucket.\<close>

lemma read_same_keys:
  assumes "s' = s\<lparr>st_meta := st_meta s'\<rparr>" and "map_of (ms_objects (st_meta s')) b = map_of (ms_objects (st_meta s)) b"
  shows "st_GetObject E b k v s' = st_GetObject E b k v s"
proof -
  have "ms_GetObject b k v (st_meta s') = ms_GetObject b k v (st_meta s)" using assms(2) by (simp add: ms_GetObject_def)
  moreover have "st_dataDir s' = st_dataDir s" "st_disk s' = st_disk s" by (subst assms(1), simp)+
  ultimately show ?thesis by (simp add: st_GetObject_def cong: outcome.case_cong)
qed

section \<open>Properties\<close>

text \<open>C20. Deleting a bucket forgets its objects, without asking whether there are any: after it the bucket
  is gone from the database, every read in it finds no key, deleting it again is refused, and other
  buckets, the blobs and the uploads in progress are as before. Creating it again gives an empty bucket
  with the new time, in which the version counters start over; creating it twice is refused.\<close>

theorem bucket_lifecycle:
  assumes db: "bolt_kv B" "\<And>db. bolt_begin B db = None" and name: "valid_utf8 b"
    and deleted: "st_DeleteBucket B b s = (Ok (), s1)" and created: "st_CreateBucket B t b s1 = (Ok (), s2)"
  shows "(\<forall>k v. st_GetObject E b k v s1 = Err ErrNoKey) \<and> st_GetBucket B b s1 = Err ErrNoBucket \<and>
      st_DeleteBucket B b s1 = (Err ErrNoBucket, s1) \<and>
      (\<forall>b' k v. b' = b \<or> st_GetObject E b' k v s2 = st_GetObject E b' k v s) \<and>
      st_disk s2 = st_disk s \<and> st_multipart s2 = st_multipart s \<and>
      st_GetBucket B b s2 = Ok \<lparr>b_Name = b, b_CreatedAt = t\<rparr> \<and> st_CreateBucket B t' b s2 = (Err ErrBucketExists, s2) \<and>
      (\<forall>k. ms_history (st_meta s2) b k = [] \<and> ms_next (st_meta s2) b k = 1)"
proof -
  note del = deleted_bucket [OF db(1) deleted] and cre = created_bucket_state [OF db(1) created]
  note refused = bucket_refused [OF db(1,2)]
  have s2: "s2 = s\<lparr>st_meta := st_meta s2\<rparr>" by (subst cre(4), subst del(3)) simp
  have "map_of (ms_objects (st_meta s2)) b' = map_of (ms_objects (st_meta s)) b'" if "b' \<noteq> b" for b'
    using that by (simp add: cre(5) del(4) AList.update_conv' AList.delete_conv')
  then have "\<forall>b' k v. b' = b \<or> st_GetObject E b' k v s2 = st_GetObject E b' k v s"
    using read_same_keys [OF s2] by blast
  moreover have "st_GetObject E b k v s1 = Err ErrNoKey" for k v
    by (simp add: st_GetObject_def ms_GetObject_def del(4) AList.delete_conv')
  moreover have "st_GetBucket B b s2 = Ok \<lparr>b_Name = b, b_CreatedAt = t\<rparr>"
    using name by (simp add: st_GetBucket_def ms_GetBucket_def BucketDB_Get_def db(2) cre(3) dec_enc_BucketMeta valid_utf8_def)
  moreover have "st_disk s2 = st_disk s" "st_multipart s2 = st_multipart s" by (subst s2, simp)+
  moreover have "ms_history (st_meta s2) b k = [] \<and> ms_next (st_meta s2) b k = 1" for k
    by (simp add: ms_history_def key_history_def ms_next_def key_next_def cre(5) AList.update_conv')
  moreover have "b \<notin> bucket_names B (ms_buckets (st_meta s1))" "b \<in> bucket_names B (ms_buckets (st_meta s2))"
    using del(2) cre(2) by simp_all
  ultimately show ?thesis using refused by blast
qed

theorem bucket_lifecycle_witness:
  "\<exists>s1 s2. st_GetObject os_ok ''b'' ''k'' '''' demo_saved = Ok (''hello'', demo_blob ''k'' ''1'' (sha_hex ''hello'')) \<and>
     st_DeleteBucket alist_bolt ''b'' demo_saved = (Ok (), s1) \<and> st_GetObject os_ok ''b'' ''k'' '''' s1 = Err ErrNoKey \<and>
     st_CreateBucket alist_bolt 9 ''b'' s1 = (Ok (), s2) \<and>
     st_GetBucket alist_bolt ''b'' s2 = Ok \<lparr>b_Name = ''b'', b_CreatedAt = 9\<rparr> \<and> st_disk s2 = st_disk demo_saved"
proof -
  have db: "bolt_kv alist_bolt" "\<And>db. bolt_begin alist_bolt db = None"
    by (rule alist.bolt_kv_axioms) (simp add: alist_bolt_def)
  obtain s1 where s1: "st_DeleteBucket alist_bolt ''b'' demo_saved = (Ok (), s1)"
    by (simp add: st_DeleteBucket_def on_meta_def ms_DeleteBucket_def bucketdb_defs alist_bolt_def demo_saved_def
        demo_store_def demo_meta_def demo_one_eq)
  have "''b'' \<notin> bucket_names alist_bolt (ms_buckets (st_meta s1))" using deleted_bucket(2) [OF db(1) s1] by simp
  then have "bolt_get alist_bolt (ms_buckets (st_meta s1)) ''b'' = None" by (simp add: alist.names_get)
  then obtain s2 where s2: "st_CreateBucket alist_bolt 9 ''b'' s1 = (Ok (), s2)"
    by (simp add: st_CreateBucket_def on_meta_def ms_CreateBucket_def bucketdb_defs) (simp add: alist_bolt_def)
  show ?thesis
    using bucket_lifecycle [OF db demo_names(1) s1 s2, of os_ok] s1 s2 demo_saved_facts(2) by blast
qed

end
