(* ===== verification/Multipart.thy ===== *)
theory Multipart
  imports Store
begin

text \<open>
  Multipart uploads (\<^verbatim>\<open>internal/store/multipart.go\<close>): uploads in progress are kept in memory, their
  parts in files of a directory per upload; completing an upload concatenates the parts into a blob
  and registers it like a write. \<^verbatim>\<open>UploadPart\<close> looks the upload up twice, before and after it writes the
  part, without holding the lock in between: its two halves are definitions of their own, so that
  other calls can run between them.
\<close>

section \<open>Operations\<close>

record MultipartUpload =
  mpu_UploadID :: string
  mpu_Bucket :: string
  mpu_Key :: string
  mpu_Initiated :: time
  mpu_UploadID64 :: string

record CompletedPart =
  cp_PartNumber :: int
  cp_ETag :: string

definition multipartDir :: "path \<Rightarrow> string \<Rightarrow> path" where
  "multipartDir dataDir uploadID = dataDir @ [''multipart'', uploadID]"

definition partPath :: "path \<Rightarrow> string \<Rightarrow> int \<Rightarrow> path" where
  "partPath dataDir uploadID partNumber = multipartDir dataDir uploadID @ [''part'' @ FormatInt partNumber]"

text \<open>\<^verbatim>\<open>crypto/rand\<close> delivers the bytes.\<close>

definition randomHex :: "(nat \<Rightarrow> bytes) \<Rightarrow> nat \<Rightarrow> string" where
  "randomHex rand n = hex_EncodeToString (rand n)"

definition st_NewMultipartUpload :: "'db bolt \<Rightarrow> (nat \<Rightarrow> bytes) \<Rightarrow> time \<Rightarrow> time \<Rightarrow> string \<Rightarrow> string
    \<Rightarrow> 'db Store \<Rightarrow> string outcome \<times> 'db Store" where
  "st_NewMultipartUpload B rand now now' bucket key s =
     (case ms_GetBucket B bucket (st_meta s) of
        Err e \<Rightarrow> (Err e, s)
      | Panic p \<Rightarrow> (Panic p, s)
      | Ok _ \<Rightarrow>
          (let uid = FormatInt now @ ''-'' @ randomHex rand 8;
               u = \<lparr>mu_id = uid, mu_bucket = bucket, mu_key = key, mu_initiated = now', mu_parts = []\<rparr>
           in (Ok uid, s\<lparr>st_multipart := AList.update uid u (st_multipart s)\<rparr>)))"

definition validateUpload :: "string \<Rightarrow> string \<Rightarrow> string \<Rightarrow> 'db Store \<Rightarrow> unit outcome" where
  "validateUpload bucket key uploadID s =
     (case map_of (st_multipart s) uploadID of
        None \<Rightarrow> Err ErrInvalidUploadID
      | Some u \<Rightarrow>
          if mu_bucket u \<noteq> bucket \<or> mu_key u \<noteq> key then Err ErrInvalidUploadID else Ok ())"

text \<open>The part is read and written to its file; the digest is returned beside the data.\<close>

definition UploadPart_write :: "os \<Rightarrow> string \<Rightarrow> string \<Rightarrow> string \<Rightarrow> int \<Rightarrow> reader \<Rightarrow> 'db Store
    \<Rightarrow> (bytes \<times> string) outcome \<times> 'db Store" where
  "UploadPart_write E bucket key uploadID partNumber body s =
     (case validateUpload bucket key uploadID s of
        Err e \<Rightarrow> (Err e, s)
      | Panic p \<Rightarrow> (Panic p, s)
      | Ok _ \<Rightarrow>
          (case ReadAll_limit MaxObjectSize body of
             Err e \<Rightarrow> (Err (ErrWrap ''read part'' e), s)
           | Panic p \<Rightarrow> (Panic p, s)
           | Ok data \<Rightarrow>
               (let etag = hex_EncodeToString (sha256_Sum256 data)
                in case os_MkdirAll E (multipartDir (st_dataDir s) uploadID) (st_disk s) of
                     (Err e, dk) \<Rightarrow> (Err (ErrWrap ''mkdir parts'' e), s\<lparr>st_disk := dk\<rparr>)
                   | (Panic p, dk) \<Rightarrow> (Panic p, s\<lparr>st_disk := dk\<rparr>)
                   | (Ok _, dk) \<Rightarrow>
                       (case os_WriteFile E (partPath (st_dataDir s) uploadID partNumber) data dk of
                          (Err e, dk') \<Rightarrow> (Err (ErrWrap ''write part'' e), s\<lparr>st_disk := dk'\<rparr>)
                        | (Panic p, dk') \<Rightarrow> (Panic p, s\<lparr>st_disk := dk'\<rparr>)
                        | (Ok _, dk') \<Rightarrow> (Ok (data, etag), s\<lparr>st_disk := dk'\<rparr>)))))"

text \<open>The part is recorded in the upload, which is looked up again without a check.\<close>

definition UploadPart_record :: "time \<Rightarrow> string \<Rightarrow> int \<Rightarrow> bytes \<times> string \<Rightarrow> 'db Store
    \<Rightarrow> string outcome \<times> 'db Store" where
  "UploadPart_record now uploadID partNumber written s =
     (case written of (data, etag) \<Rightarrow>
        (case map_of (st_multipart s) uploadID of
           None \<Rightarrow> (Panic ''invalid memory address or nil pointer dereference'', s)
         | Some u \<Rightarrow>
             (let p = \<lparr>pt_PartNumber = partNumber, pt_Size = word_of_int (int (length data)),
                       pt_ETag = etag, pt_Sha256 = etag, pt_CreatedAt = now\<rparr>
              in (Ok etag, s\<lparr>st_multipart := AList.update uploadID
                    (u\<lparr>mu_parts := AList.update partNumber p (mu_parts u)\<rparr>) (st_multipart s)\<rparr>))))"

definition st_UploadPart :: "os \<Rightarrow> time \<Rightarrow> string \<Rightarrow> string \<Rightarrow> string \<Rightarrow> int \<Rightarrow> reader \<Rightarrow> 'db Store
    \<Rightarrow> string outcome \<times> 'db Store" where
  "st_UploadPart E now bucket key uploadID partNumber body s =
     (case UploadPart_write E bucket key uploadID partNumber body s of
        (Err e, s') \<Rightarrow> (Err e, s')
      | (Panic p, s') \<Rightarrow> (Panic p, s')
      | (Ok written, s') \<Rightarrow> UploadPart_record now uploadID partNumber written s')"

definition cleanupUpload :: "os \<Rightarrow> string \<Rightarrow> 'db Store \<Rightarrow> 'db Store" where
  "cleanupUpload E uploadID s =
     s\<lparr>st_disk := os_RemoveAll E (multipartDir (st_dataDir s) uploadID) (st_disk s),
       st_multipart := AList.delete uploadID (st_multipart s)\<rparr>"

text \<open>\<^verbatim>\<open>strings.Trim(s, `"`)\<close>.\<close>

definition trim_quotes :: "string \<Rightarrow> string" where
  "trim_quotes s =
     rev (dropWhile (\<lambda>c. c = CHR 0x22) (rev (dropWhile (\<lambda>c. c = CHR 0x22) s)))"

definition part_less :: "CompletedPart \<Rightarrow> CompletedPart \<Rightarrow> bool" where
  "part_less x y = (cp_PartNumber x < cp_PartNumber y)"

text \<open>The first loop of \<^verbatim>\<open>CompleteMultipartUpload\<close>, which adds up the sizes, and the second, which reads
  the files.\<close>

fun check_parts :: "(int, Part) gomap \<Rightarrow> CompletedPart list \<Rightarrow> i64 \<Rightarrow> i64 outcome" where
  "check_parts parts [] totalSize = Ok totalSize"
| "check_parts parts (cp # cps) totalSize =
     (case map_of parts (cp_PartNumber cp) of
        None \<Rightarrow> Err (ErrText (''part '' @ FormatInt (cp_PartNumber cp) @ '' not uploaded''))
      | Some p \<Rightarrow>
          if trim_quotes (cp_ETag cp) \<noteq> pt_ETag p then
            Err (ErrText (''part '' @ FormatInt (cp_PartNumber cp) @ '' ETag mismatch''))
          else check_parts parts cps (totalSize + pt_Size p))"

fun read_parts :: "os \<Rightarrow> path \<Rightarrow> string \<Rightarrow> disk \<Rightarrow> CompletedPart list \<Rightarrow> bytes \<Rightarrow> bytes outcome" where
  "read_parts E dataDir uploadID dk [] combined = Ok combined"
| "read_parts E dataDir uploadID dk (cp # cps) combined =
     (case os_Open E (partPath dataDir uploadID (cp_PartNumber cp)) dk of
        Err e \<Rightarrow> Err (ErrWrap (''read part '' @ FormatInt (cp_PartNumber cp)) e)
      | Panic p \<Rightarrow> Panic p
      | Ok data \<Rightarrow> read_parts E dataDir uploadID dk cps (combined @ data))"

definition register_complete :: "os \<Rightarrow> time \<Rightarrow> string \<Rightarrow> string \<Rightarrow> string \<Rightarrow> i64 \<Rightarrow> bytes \<Rightarrow> 'db Store
    \<Rightarrow> unit outcome \<times> 'db Store" where
  "register_complete E now bucket key uploadID totalSize combined s =
     (let etag = hex_EncodeToString (sha256_Sum256 combined)
      in case writeBlob E (st_dataDir s) etag combined (st_disk s) of
           (Err e, dk) \<Rightarrow> (Err (ErrWrap ''write blob'' e), s\<lparr>st_disk := dk\<rparr>)
         | (Panic p, dk) \<Rightarrow> (Panic p, s\<lparr>st_disk := dk\<rparr>)
         | (Ok _, dk) \<Rightarrow>
             (let meta = new_meta now key totalSize etag;
                  op = \<lparr>op_Kind = ''put_object'', op_Bucket = bucket, op_Key = key,
                        op_VersionID = '''', op_Meta = Some (enc_ObjectMeta meta)\<rparr>
              in case raftApply now op (s\<lparr>st_disk := dk\<rparr>) of
                   (Err e, s') \<Rightarrow> (Err e, s')
                 | (Panic p, s') \<Rightarrow> (Panic p, s')
                 | (Ok _, s') \<Rightarrow> (Ok (), cleanupUpload E uploadID s')))"

definition st_CompleteMultipartUpload :: "os \<Rightarrow> time \<Rightarrow> string \<Rightarrow> string \<Rightarrow> string \<Rightarrow> CompletedPart list
    \<Rightarrow> 'db Store \<Rightarrow> unit outcome \<times> 'db Store" where
  "st_CompleteMultipartUpload E now bucket key uploadID parts s =
     (case validateUpload bucket key uploadID s of
        Err e \<Rightarrow> (Err e, s)
      | Panic p \<Rightarrow> (Panic p, s)
      | Ok _ \<Rightarrow>
          (case map_of (st_multipart s) uploadID of
             None \<Rightarrow> (Err ErrInvalidUploadID, s)
           | Some u \<Rightarrow>
               (let sorted = sort_slice part_less parts
                in case check_parts (mu_parts u) sorted 0 of
                     Err e \<Rightarrow> (Err e, s)
                   | Panic p \<Rightarrow> (Panic p, s)
                   | Ok totalSize \<Rightarrow>
                       (case read_parts E (st_dataDir s) uploadID (st_disk s) sorted [] of
                          Err e \<Rightarrow> (Err e, s)
                        | Panic p \<Rightarrow> (Panic p, s)
                        | Ok combined \<Rightarrow>
                            register_complete E now bucket key uploadID totalSize combined s))))"

definition st_AbortMultipartUpload :: "os \<Rightarrow> string \<Rightarrow> string \<Rightarrow> string \<Rightarrow> 'db Store
    \<Rightarrow> unit outcome \<times> 'db Store" where
  "st_AbortMultipartUpload E bucket key uploadID s =
     (case validateUpload bucket key uploadID s of
        Ok _ \<Rightarrow> (Ok (), cleanupUpload E uploadID s)
      | x \<Rightarrow> (x, s))"

definition number_less :: "Part \<Rightarrow> Part \<Rightarrow> bool" where
  "number_less x y = (pt_PartNumber x < pt_PartNumber y)"

definition st_ListParts :: "string \<Rightarrow> string \<Rightarrow> string \<Rightarrow> 'db Store \<Rightarrow> Part list outcome" where
  "st_ListParts bucket key uploadID s =
     (case validateUpload bucket key uploadID s of
        Err e \<Rightarrow> Err e
      | Panic p \<Rightarrow> Panic p
      | Ok _ \<Rightarrow>
          (case map_of (st_multipart s) uploadID of
             None \<Rightarrow> Err ErrInvalidUploadID
           | Some u \<Rightarrow> Ok (sort_slice number_less (map snd (mu_parts u)))))"

definition initiated_less :: "MultipartUpload \<Rightarrow> MultipartUpload \<Rightarrow> bool" where
  "initiated_less x y = (mpu_Initiated x < mpu_Initiated y)"

definition st_ListMultipartUploads :: "'db bolt \<Rightarrow> string \<Rightarrow> 'db Store \<Rightarrow> MultipartUpload list outcome" where
  "st_ListMultipartUploads B bucket s =
     (case ms_GetBucket B bucket (st_meta s) of
        Err e \<Rightarrow> Err e
      | Panic p \<Rightarrow> Panic p
      | Ok _ \<Rightarrow>
          Ok (sort_slice initiated_less
            (map (\<lambda>(_, u). \<lparr>mpu_UploadID = mu_id u, mpu_Bucket = mu_bucket u, mpu_Key = mu_key u,
                            mpu_Initiated = mu_initiated u, mpu_UploadID64 = ''''\<rparr>)
              (filter (\<lambda>(_, u). mu_bucket u = bucket) (st_multipart s)))))"

definition st_AbortStaleUploads :: "os \<Rightarrow> time \<Rightarrow> time \<Rightarrow> 'db Store \<Rightarrow> nat \<times> 'db Store" where
  "st_AbortStaleUploads E now maxAge s =
     (let cutoff = now - maxAge;
          stale = map fst (filter (\<lambda>(_, u). mu_initiated u < cutoff) (st_multipart s))
      in (length stale, foldl (\<lambda>s uid. cleanupUpload E uid s) s stale))"

section \<open>Lemmas on files\<close>

interpretation by_part: slice_order part_less
  unfolding part_less_def [abs_def] by (rule slice_order_key)

interpretation by_number: slice_order number_less
  unfolding number_less_def [abs_def] by (rule slice_order_key)

interpretation by_initiated: slice_order initiated_less
  unfolding initiated_less_def [abs_def] by (rule slice_order_key)

text \<open>The order of completion is the library's sort by part number.\<close>

lemma sort_parts: "sort_slice part_less cps = sort_key cp_PartNumber cps"
proof -
  have "slice_insert part_less x xs = insort_key cp_PartNumber x xs" for x xs
    by (induction xs) (auto simp: part_less_def)
  then show ?thesis by (induction cps) (simp_all add: foldr_Cons)
qed

definition part_file :: "path \<Rightarrow> string \<Rightarrow> int \<Rightarrow> disk \<Rightarrow> bytes option" where
  "part_file dir uid n dk = map_of (dk_files dk) (partPath dir uid n)"

lemma partPath_inject [simp]: "partPath dir uid n = partPath dir uid' n' \<longleftrightarrow> uid = uid' \<and> n = n'"
  by (auto simp: partPath_def multipartDir_def)

lemma partPath_not_blob [simp]: "partPath dir uid n \<noteq> blob_path dir sha" "blob_path dir sha \<noteq> partPath dir uid n"
  by (simp_all add: partPath_def multipartDir_def blob_path_def)

lemma prefix_dir_part [simp]: "prefix (multipartDir dir uid) (partPath dir uid' n) \<longleftrightarrow> uid = uid'"
  by (auto simp: partPath_def multipartDir_def prefix_def)

lemma prefix_dir_blob [simp]: "\<not> prefix (multipartDir dir uid) (blob_path dir sha)"
  by (simp add: multipartDir_def blob_path_def)

lemma map_of_filter_fst: "map_of (filter (\<lambda>(q, _). P q) xs) p = (if P p then map_of xs p else None)"
  by (induction xs) auto

lemma removeAll_files:
  "part_file dir uid' n (os_RemoveAll os_ok (multipartDir dir uid) dk) =
     (if uid' = uid then None else part_file dir uid' n dk)"
  "blob_at dir sha (os_RemoveAll E (multipartDir dir uid) dk) = blob_at dir sha dk"
  by (simp_all add: part_file_def blob_at_def os_RemoveAll_def map_of_filter_fst)

lemma writeBlob_parts:
  assumes "writeBlob E dir sha data dk = (r, dk')" and "2 \<le> length sha"
  shows "part_file dir uid n dk' = part_file dir uid n dk"
  using assms
  by (auto simp: writeBlob_def slice_to_def blobPath_eq os_MkdirAll_def os_WriteFile_def part_file_def
      split: option.splits if_splits write_fault.splits)

section \<open>Sessions\<close>

text \<open>An upload in progress: its records agree with its files.\<close>

definition parts_match :: "path \<Rightarrow> disk \<Rightarrow> string \<Rightarrow> multipartUpload \<Rightarrow> bool" where
  "parts_match dir dk uid u =
     (distinct (map fst (mu_parts u)) \<and>
      (\<forall>(n, p) \<in> set (mu_parts u). pt_PartNumber p = n \<and>
         (\<exists>data. part_file dir uid n dk = Some data \<and> pt_ETag p = sha_hex data \<and>
            pt_Size p = word_of_int (int (length data)))))"

definition session :: "string \<Rightarrow> string \<Rightarrow> string \<Rightarrow> 'db Store \<Rightarrow> bool" where
  "session b k uid s =
     (\<exists>u. map_of (st_multipart s) uid = Some u \<and> mu_bucket u = b \<and> mu_key u = k \<and>
          parts_match (st_dataDir s) (st_disk s) uid u)"

definition session_part :: "string \<Rightarrow> 'db Store \<Rightarrow> int \<Rightarrow> bytes option" where
  "session_part uid s n =
     (case map_of (st_multipart s) uid of
        None \<Rightarrow> None
      | Some u \<Rightarrow> if map_of (mu_parts u) n = None then None else part_file (st_dataDir s) uid n (st_disk s))"

text \<open>What an uploaded part leaves alone: metadata, blobs, the node, other uploads.\<close>

definition same_objects :: "'db Store \<Rightarrow> 'db Store \<Rightarrow> bool" where
  "same_objects s s' =
     (st_meta s' = st_meta s \<and> st_raft s' = st_raft s \<and> st_dataDir s' = st_dataDir s \<and>
      (\<forall>sha. blob_at (st_dataDir s) sha (st_disk s') = blob_at (st_dataDir s) sha (st_disk s)))"

lemma same_objects_trans: "same_objects s s' \<Longrightarrow> same_objects s' s'' \<Longrightarrow> same_objects s s''"
  by (simp add: same_objects_def)

lemma parts_match_lookup:
  assumes "parts_match dir dk uid u" and "map_of (mu_parts u) n = Some p"
  shows "pt_PartNumber p = n"
    and "\<exists>data. part_file dir uid n dk = Some data \<and> pt_ETag p = sha_hex data \<and>
      pt_Size p = word_of_int (int (length data))"
  using assms by (fastforce simp: parts_match_def dest!: map_of_SomeD)+

lemma parts_match_update:
  assumes "parts_match dir dk uid u" and "pt_PartNumber p = n" and "pt_ETag p = sha_hex data"
    and "pt_Size p = word_of_int (int (length data))"
    and "\<And>m. part_file dir uid m dk' = (if m = n then Some data else part_file dir uid m dk)"
  shows "parts_match dir dk' uid (u\<lparr>mu_parts := AList.update n p (mu_parts u)\<rparr>)"
proof -
  have "distinct (map fst (mu_parts u))" using assms(1) by (simp add: parts_match_def)
  then have dist: "distinct (map fst (AList.update n p (mu_parts u)))" by simp
  have "pt_PartNumber q = m \<and> (\<exists>data. part_file dir uid m dk' = Some data \<and> pt_ETag q = sha_hex data \<and>
      pt_Size q = word_of_int (int (length data)))"
    if "(m, q) \<in> set (AList.update n p (mu_parts u))" for m q
  proof -
    have "map_of (AList.update n p (mu_parts u)) m = Some q" using dist that by (rule map_of_is_SomeI)
    then show ?thesis
      using assms parts_match_lookup [OF assms(1), of m q] by (auto split: if_splits)
  qed
  then show ?thesis using dist by (auto simp: parts_match_def)
qed

lemma validate_session: "session b k uid s \<Longrightarrow> validateUpload b k uid s = Ok ()"
  by (auto simp: session_def validateUpload_def)

lemma write_part_file:
  "\<exists>dk'. os_WriteFile os_ok (partPath dir uid n) data
      (dk\<lparr>dk_dirs := List.insert (multipartDir dir uid) (dk_dirs dk)\<rparr>) = (Ok (), dk') \<and>
     (\<forall>u m. part_file dir u m dk' = (if u = uid \<and> m = n then Some data else part_file dir u m dk)) \<and>
     (\<forall>sha. blob_at dir sha dk' = blob_at dir sha dk)"
proof -
  have "butlast (partPath dir uid n) = multipartDir dir uid" by (simp add: partPath_def)
  then show ?thesis
    using is_dir_mkdir [of "multipartDir dir uid" dk]
    by (auto simp: os_WriteFile_def part_file_def blob_at_def)
qed

lemma upload_ok:
  assumes "session b k uid s" and "length data \<le> MaxObjectSize"
  shows "\<exists>s'. st_UploadPart os_ok now b k uid n \<lparr>rd_data = data, rd_err = None\<rparr> s = (Ok (sha_hex data), s') \<and>
      session b k uid s' \<and> same_objects s s' \<and>
      (\<forall>m. session_part uid s' m = (if m = n then Some data else session_part uid s m))"
proof -
  obtain u where u: "map_of (st_multipart s) uid = Some u" "mu_bucket u = b" "mu_key u = k"
    and match: "parts_match (st_dataDir s) (st_disk s) uid u"
    using assms(1) by (auto simp: session_def)
  obtain dk where dk: "os_WriteFile os_ok (partPath (st_dataDir s) uid n) data
      ((st_disk s)\<lparr>dk_dirs := List.insert (multipartDir (st_dataDir s) uid) (dk_dirs (st_disk s))\<rparr>) = (Ok (), dk)"
    and part: "\<And>m. part_file (st_dataDir s) uid m dk =
      (if m = n then Some data else part_file (st_dataDir s) uid m (st_disk s))"
    and blob: "\<And>sha. blob_at (st_dataDir s) sha dk = blob_at (st_dataDir s) sha (st_disk s)"
    using write_part_file by metis
  let ?p = "\<lparr>pt_PartNumber = n, pt_Size = word_of_int (int (length data)), pt_ETag = sha_hex data,
    pt_Sha256 = sha_hex data, pt_CreatedAt = now\<rparr>"
  let ?u = "u\<lparr>mu_parts := AList.update n ?p (mu_parts u)\<rparr>"
  let ?s = "s\<lparr>st_disk := dk, st_multipart := AList.update uid ?u (st_multipart s)\<rparr>"
  have read: "ReadAll_limit MaxObjectSize \<lparr>rd_data = data, rd_err = None\<rparr> = Ok data"
    using assms(2) by (simp add: ReadAll_limit_def)
  have "st_UploadPart os_ok now b k uid n \<lparr>rd_data = data, rd_err = None\<rparr> s = (Ok (sha_hex data), ?s)"
    using validate_session [OF assms(1)] u(1) dk
    by (simp add: st_UploadPart_def UploadPart_write_def read Let_def os_MkdirAll_def
        sha_hex_def [symmetric] UploadPart_record_def)
  moreover have "parts_match (st_dataDir s) dk uid ?u"
    by (rule parts_match_update [OF match]) (simp_all add: part)
  then have "session b k uid ?s" using u by (simp add: session_def)
  moreover have "session_part uid ?s m = (if m = n then Some data else session_part uid s m)" for m
    using u(1) by (simp add: session_part_def part)
  ultimately show ?thesis using blob by (auto simp: same_objects_def)
qed

text \<open>A client that sends parts one after the other, and what it gets back.\<close>

fun upload_all :: "(int \<Rightarrow> bytes \<Rightarrow> 's \<Rightarrow> string outcome \<times> 's) \<Rightarrow> (int \<times> bytes) list \<Rightarrow> 's
    \<Rightarrow> string list outcome \<times> 's" where
  "upload_all up [] s = (Ok [], s)"
| "upload_all up ((n, data) # ps) s =
     (case up n data s of
        (Ok etag, s') \<Rightarrow>
          (case upload_all up ps s' of
             (Ok etags, s'') \<Rightarrow> (Ok (etag # etags), s'')
           | (Err e, s'') \<Rightarrow> (Err e, s'')
           | (Panic p, s'') \<Rightarrow> (Panic p, s''))
      | (Err e, s') \<Rightarrow> (Err e, s')
      | (Panic p, s') \<Rightarrow> (Panic p, s'))"

text \<open>The contract of an upload session: a part that was sent is there under its number, replacing an
  earlier one with the number, and everything outside the session is left alone.\<close>

locale part_session =
  fixes inv :: "'s \<Rightarrow> bool"
    and part :: "'s \<Rightarrow> int \<Rightarrow> bytes option"
    and up :: "int \<Rightarrow> bytes \<Rightarrow> 's \<Rightarrow> string outcome \<times> 's"
    and frame :: "'s \<Rightarrow> 's \<Rightarrow> bool"
    and etag :: "bytes \<Rightarrow> string"
    and fits :: "int \<Rightarrow> bytes \<Rightarrow> bool"
  assumes up_ok: "inv s \<Longrightarrow> fits n data \<Longrightarrow>
      \<exists>s'. up n data s = (Ok (etag data), s') \<and> inv s' \<and> frame s s' \<and>
        (\<forall>m. part s' m = (if m = n then Some data else part s m))"
    and frame_refl: "frame s s"
    and frame_trans: "frame s s' \<Longrightarrow> frame s' s'' \<Longrightarrow> frame s s''"
begin

lemma upload_all_ok:
  assumes "inv s" and "\<forall>(n, data) \<in> set ps. fits n data"
  shows "\<exists>s'. upload_all up ps s = (Ok (map (\<lambda>(n, data). etag data) ps), s') \<and> inv s' \<and> frame s s' \<and>
      (\<forall>m. part s' m = (case map_of (rev ps) m of Some data \<Rightarrow> Some data | None \<Rightarrow> part s m))"
  using assms
proof (induction ps arbitrary: s)
  case Nil
  then show ?case by (simp add: frame_refl)
next
  case (Cons p ps)
  obtain n data where p: "p = (n, data)" by (cases p)
  have "fits n data" using Cons.prems(2) by (simp add: p)
  from up_ok [OF Cons.prems(1) this] obtain s1 where s1: "up n data s = (Ok (etag data), s1)" "inv s1" "frame s s1"
    "\<And>m. part s1 m = (if m = n then Some data else part s m)"
    by blast
  have "\<forall>(n, data) \<in> set ps. fits n data" using Cons.prems(2) by simp
  from Cons.IH [OF s1(2) this] obtain s2 where
    s2: "upload_all up ps s1 = (Ok (map (\<lambda>(n, data). etag data) ps), s2)" "inv s2" "frame s1 s2"
    "\<And>m. part s2 m = (case map_of (rev ps) m of Some data \<Rightarrow> Some data | None \<Rightarrow> part s1 m)"
    by blast
  have "part s2 m = (case map_of (rev (p # ps)) m of Some data \<Rightarrow> Some data | None \<Rightarrow> part s m)" for m
    by (simp add: p s2(4) s1(4) map_add_def split: option.split)
  then show ?case
    using s1 s2 frame_trans by (auto simp: p)
qed

end

interpretation uploads: part_session "session b k uid" "session_part uid"
    "\<lambda>n data. st_UploadPart os_ok (clock n) b k uid n \<lparr>rd_data = data, rd_err = None\<rparr>"
    same_objects sha_hex "\<lambda>n data. length data \<le> MaxObjectSize"
  for b k uid clock
proof (unfold_locales, goal_cases)
  case (1 s data n)
  then show ?case using upload_ok by blast
next
  case (2 s)
  then show ?case by (simp add: same_objects_def)
next
  case (3 s s' s'')
  then show ?case by (rule same_objects_trans)
qed

section \<open>Completion\<close>

lemma check_parts_ok:
  assumes "\<forall>cp \<in> set cps. \<exists>p. map_of parts (cp_PartNumber cp) = Some p \<and>
      trim_quotes (cp_ETag cp) = pt_ETag p \<and> pt_Size p = word_of_int (int (length (f cp)))"
  shows "check_parts parts cps t = Ok (t + word_of_int (int (length (concat (map f cps)))))"
  using assms by (induction cps arbitrary: t) (auto simp: ac_simps)

lemma read_parts_ok:
  assumes "\<forall>cp \<in> set cps. part_file dir uid (cp_PartNumber cp) dk = Some (f cp)"
  shows "read_parts os_ok dir uid dk cps acc = Ok (acc @ concat (map f cps))"
  using assms by (induction cps arbitrary: acc) (auto simp: os_Open_def part_file_def)

text \<open>A request to complete that names parts of the session by their digests.\<close>

definition request_for :: "string \<Rightarrow> 'db Store \<Rightarrow> CompletedPart list \<Rightarrow> (CompletedPart \<Rightarrow> bytes) \<Rightarrow> bool" where
  "request_for uid s cps f =
     (\<forall>cp \<in> set cps. session_part uid s (cp_PartNumber cp) = Some (f cp) \<and>
        trim_quotes (cp_ETag cp) = sha_hex (f cp))"

lemma request_parts:
  assumes "session b k uid s" and "request_for uid s cps f" and "map_of (st_multipart s) uid = Some u"
  shows "check_parts (mu_parts u) (sort_slice part_less cps) 0 =
      Ok (word_of_int (int (length (concat (map f (sort_slice part_less cps))))))"
    and "read_parts os_ok (st_dataDir s) uid (st_disk s) (sort_slice part_less cps) [] =
      Ok (concat (map f (sort_slice part_less cps)))"
proof -
  have match: "parts_match (st_dataDir s) (st_disk s) uid u"
    using assms(1,3) by (auto simp: session_def)
  have each: "\<exists>p. map_of (mu_parts u) (cp_PartNumber cp) = Some p \<and> trim_quotes (cp_ETag cp) = pt_ETag p \<and>
      pt_Size p = word_of_int (int (length (f cp)))"
    and onfile: "part_file (st_dataDir s) uid (cp_PartNumber cp) (st_disk s) = Some (f cp)"
    if "cp \<in> set cps" for cp
  proof -
    have sp: "session_part uid s (cp_PartNumber cp) = Some (f cp)" "trim_quotes (cp_ETag cp) = sha_hex (f cp)"
      using assms(2) that by (auto simp: request_for_def)
    then obtain p where p: "map_of (mu_parts u) (cp_PartNumber cp) = Some p"
      and onfile: "part_file (st_dataDir s) uid (cp_PartNumber cp) (st_disk s) = Some (f cp)"
      by (auto simp: session_part_def assms(3) split: if_splits)
    show "part_file (st_dataDir s) uid (cp_PartNumber cp) (st_disk s) = Some (f cp)" by (rule onfile)
    show "\<exists>p. map_of (mu_parts u) (cp_PartNumber cp) = Some p \<and> trim_quotes (cp_ETag cp) = pt_ETag p \<and>
        pt_Size p = word_of_int (int (length (f cp)))"
      using parts_match_lookup(2) [OF match p] onfile p sp(2) by auto
  qed
  show "check_parts (mu_parts u) (sort_slice part_less cps) 0 =
      Ok (word_of_int (int (length (concat (map f (sort_slice part_less cps))))))"
    using check_parts_ok [of "sort_slice part_less cps" "mu_parts u" f 0] each
    by (simp add: by_part.set_sort_slice)
  show "read_parts os_ok (st_dataDir s) uid (st_disk s) (sort_slice part_less cps) [] =
      Ok (concat (map f (sort_slice part_less cps)))"
    using read_parts_ok [of "sort_slice part_less cps" "st_dataDir s" uid "st_disk s" f "[]"] onfile by (simp add: by_part.set_sort_slice)
qed

lemma cleanup_simps [simp]:
  "st_meta (cleanupUpload E uid s) = st_meta s" "st_raft (cleanupUpload E uid s) = st_raft s"
  "st_dataDir (cleanupUpload E uid s) = st_dataDir s"
  "map_of (st_multipart (cleanupUpload E uid s)) uid' =
     (if uid' = uid then None else map_of (st_multipart s) uid')"
  "blob_at (st_dataDir s) sha (st_disk (cleanupUpload E uid s)) = blob_at (st_dataDir s) sha (st_disk s)"
  by (simp_all add: cleanupUpload_def removeAll_files)

lemma complete_reads_back:
  assumes "ms_wf (st_meta s)" and "ms_writable (st_meta s) b" and "ms_room (st_meta s) b k"
    and "accepts s" and "valid_utf8 b" and "valid_utf8 k" and "blobs_intact (st_dataDir s) (st_disk s)"
    and "session b k uid s" and "request_for uid s cps f"
    and data: "data = concat (map f (sort_key cp_PartNumber cps))"
  shows "\<exists>s' meta. st_CompleteMultipartUpload os_ok now b k uid cps s = (Ok (), s') \<and>
      st_GetObject os_ok b k '''' s' = Ok (data, meta) \<and> om_Size meta = word_of_int (int (length data)) \<and>
      om_ETag meta = sha_hex data \<and> blobs_intact (st_dataDir s') (st_disk s') \<and>
      map_of (st_multipart s') uid = None \<and> (\<forall>n. part_file (st_dataDir s) uid n (st_disk s') = None)"
proof -
  obtain u where u: "map_of (st_multipart s) uid = Some u" using assms(8) by (auto simp: session_def)
  define meta where "meta = new_meta now k (word_of_int (int (length data))) (sha_hex data)"
  obtain vid m' dk where dk: "writeBlob os_ok (st_dataDir s) (sha_hex data) data (st_disk s) = (Ok (), dk)"
    and m': "ms_PutObject b k meta (st_meta s) = (Ok vid, m')"
    and apply_op: "raftApply now (put_op b k meta) (s\<lparr>st_disk := dk\<rparr>) = (Ok (), s\<lparr>st_disk := dk, st_meta := m'\<rparr>)"
    using register_object [OF assms(1-6) meta_def] by blast
  let ?s0 = "s\<lparr>st_disk := dk, st_meta := m'\<rparr>"
  let ?s = "cleanupUpload os_ok uid ?s0"
  have "st_CompleteMultipartUpload os_ok now b k uid cps s = (Ok (), ?s)"
    using validate_session [OF assms(8)] u dk apply_op request_parts [OF assms(8,9) u]
    by (simp add: st_CompleteMultipartUpload_def register_complete_def Let_def sha_hex_def [symmetric]
        sort_parts data [symmetric] meta_def put_op_def)
  moreover have "blob_at (st_dataDir s) n (st_disk ?s) = blob_at (st_dataDir s) n dk" for n
    by (simp add: cleanupUpload_def removeAll_files)
  note stored_reads_back [OF assms(1-3) meta_def m' dk assms(7), of ?s, OF _ _ this]
  moreover have "part_file (st_dataDir s) uid n (st_disk ?s) = None" for n
    by (simp add: cleanupUpload_def removeAll_files)
  moreover have "om_Size (meta\<lparr>om_VersionID := vid\<rparr>) = word_of_int (int (length data))"
    "om_ETag (meta\<lparr>om_VersionID := vid\<rparr>) = sha_hex data"
    by (simp_all add: meta_def)
  ultimately show ?thesis
    by (intro exI [of _ ?s] exI [of _ "meta\<lparr>om_VersionID := vid\<rparr>"]) auto
qed

section \<open>The request a client sends\<close>

lemma hex_no_quote: "CHR 0x22 \<notin> set (hex_EncodeToString bs)"
  using hex_chars [of bs] by auto

lemma trim_quoted: "CHR 0x22 \<notin> set s \<Longrightarrow> trim_quotes (quoted s) = s"
proof -
  assume no: "CHR 0x22 \<notin> set s"
  have "dropWhile (\<lambda>c. c = CHR 0x22) (s @ [CHR 0x22]) = (if s = [] then [] else s @ [CHR 0x22])"
    using no by (cases s) auto
  moreover have "s \<noteq> [] \<Longrightarrow> dropWhile (\<lambda>c. c = CHR 0x22) (rev s) = rev s"
    using no by (metis dropWhile_eq_self_iff hd_rev last_in_set)
  ultimately show ?thesis by (auto simp: trim_quotes_def quoted_def)
qed

definition completed :: "int \<times> bytes \<Rightarrow> CompletedPart" where
  "completed p = \<lparr>cp_PartNumber = fst p, cp_ETag = quoted (sha_hex (snd p))\<rparr>"

lemma trim_completed: "trim_quotes (cp_ETag (completed p)) = sha_hex (snd p)"
  by (simp add: completed_def trim_quoted hex_no_quote sha_hex_def)

lemma sort_key_map: "sort_key f (map g xs) = map g (sort_key (\<lambda>x. f (g x)) xs)"
proof -
  have "insort_key f (g x) (map g xs) = map g (insort_key (\<lambda>x. f (g x)) x xs)" for x xs
    by (induction xs) auto
  then show ?thesis by (induction xs) simp_all
qed

lemma sort_completed:
  assumes "distinct (map fst ps)" and "mset cps = mset (map completed ps)"
  shows "sort_key cp_PartNumber cps = map completed (sort_key fst ps)"
proof -
  have "set cps = completed ` set ps" using assms(2) by (metis set_mset_mset set_map)
  then have "x = y" if "x \<in> set cps" "y \<in> set cps" "\<not> part_less x y" "\<not> part_less y x" for x y
    using that assms(1) by (auto simp: part_less_def completed_def dest: eq_key_imp_eq_value)
  from by_part.sort_slice_perm [OF assms(2) this] have
    "sort_key cp_PartNumber cps = sort_key cp_PartNumber (map completed ps)"
    by (simp add: sort_parts)
  then show ?thesis by (simp add: sort_key_map) (simp add: completed_def)
qed

lemma completed_request:
  assumes "distinct (map fst ps)" and "mset cps = mset (map completed ps)"
    and "\<And>n. session_part uid s n = map_of ps n"
  shows "request_for uid s cps (\<lambda>cp. the (map_of ps (cp_PartNumber cp)))"
    and "concat (map (\<lambda>cp. the (map_of ps (cp_PartNumber cp))) (sort_key cp_PartNumber cps)) =
      concat (map snd (sort_key fst ps))"
proof -
  have look: "map_of ps (cp_PartNumber (completed p)) = Some (snd p)" if "p \<in> set ps" for p
    using that assms(1) by (simp add: completed_def)
  have "set cps = completed ` set ps" using assms(2) by (metis set_mset_mset set_map)
  then show "request_for uid s cps (\<lambda>cp. the (map_of ps (cp_PartNumber cp)))"
    using look trim_completed by (auto simp: request_for_def assms(3))
  have "map (\<lambda>p. the (map_of ps (cp_PartNumber (completed p)))) (sort_key fst ps) = map snd (sort_key fst ps)"
    using look by (intro map_cong) simp_all
  then have "concat (map (\<lambda>p. the (map_of ps (cp_PartNumber (completed p)))) (sort_key fst ps)) =
      concat (map snd (sort_key fst ps))"
    by (rule arg_cong)
  then show "concat (map (\<lambda>cp. the (map_of ps (cp_PartNumber cp))) (sort_key cp_PartNumber cps)) =
      concat (map snd (sort_key fst ps))"
    by (simp add: sort_completed [OF assms(1,2)] comp_def)
qed

lemma new_upload:
  assumes "ms_GetBucket B b (st_meta s) = Ok bk"
  shows "\<exists>uid s'. st_NewMultipartUpload B rand t t' b k s = (Ok uid, s') \<and> session b k uid s' \<and>
      same_objects s s' \<and> (\<forall>n. session_part uid s' n = None)"
  using assms
  by (auto simp: st_NewMultipartUpload_def Let_def session_def parts_match_def same_objects_def session_part_def)

lemma map_of_rev_distinct: "distinct (map fst ps) \<Longrightarrow> map_of (rev ps) = map_of ps"
  by (subst map_of_inject_set) (simp_all add: rev_map [symmetric])

lemma uploaded_completes:
  assumes "ms_wf (st_meta s)" and "ms_writable (st_meta s) b" and "ms_room (st_meta s) b k"
    and "accepts s" and "valid_utf8 b" and "valid_utf8 k" and "blobs_intact (st_dataDir s) (st_disk s)"
    and "session b k uid s'" and "same_objects s s'" and "distinct (map fst ps)"
    and "\<And>n. session_part uid s' n = map_of ps n" and "mset cps = mset (map completed ps)"
    and data: "data = concat (map snd (sort_key fst ps))"
  shows "\<exists>s'' meta. st_CompleteMultipartUpload os_ok now b k uid cps s' = (Ok (), s'') \<and>
      st_GetObject os_ok b k '''' s'' = Ok (data, meta) \<and> om_Size meta = word_of_int (int (length data)) \<and>
      om_ETag meta = sha_hex data \<and> map_of (st_multipart s'') uid = None \<and>
      (\<forall>n. part_file (st_dataDir s) uid n (st_disk s'') = None)"
proof -
  note same = assms(9) [unfolded same_objects_def]
  have pre: "ms_wf (st_meta s')" "ms_writable (st_meta s') b" "ms_room (st_meta s') b k" "accepts s'"
    "blobs_intact (st_dataDir s') (st_disk s')"
    using assms(1-4,7) same by (simp_all add: accepts_def blobs_intact_def)
  note req = completed_request [OF assms(10,12,11)]
  from complete_reads_back [OF pre(1-4) assms(5,6) pre(5) assms(8) req(1) refl, of now] same show ?thesis
    unfolding req(2) data [symmetric] by auto
qed

section \<open>Properties\<close>

text \<open>C5. A multipart upload stores the concatenation of its parts: starting an upload, sending any parts
  in any order, and completing it with their quoted digests listed in any order succeeds, and the
  object then reads as the parts joined by ascending part number, with their total size and the digest
  of the whole; the upload and its files are gone.\<close>

theorem multipart_roundtrip:
  assumes "ms_wf (st_meta s)" and "ms_writable (st_meta s) b" and "ms_room (st_meta s) b k"
    and "accepts s" and "valid_utf8 b" and "valid_utf8 k" and "blobs_intact (st_dataDir s) (st_disk s)"
    and "ms_GetBucket B b (st_meta s) = Ok bk" and "distinct (map fst ps)"
    and "\<forall>(n, data) \<in> set ps. length data \<le> MaxObjectSize" and "mset cps = mset (map completed ps)"
    and data: "data = concat (map snd (sort_key fst ps))"
  shows "\<exists>uid s1 s2 s3 meta. st_NewMultipartUpload B rand t t' b k s = (Ok uid, s1) \<and>
      upload_all (\<lambda>n d. st_UploadPart os_ok (clock n) b k uid n \<lparr>rd_data = d, rd_err = None\<rparr>) ps s1 =
        (Ok (map (\<lambda>(n, d). sha_hex d) ps), s2) \<and>
      st_CompleteMultipartUpload os_ok now b k uid cps s2 = (Ok (), s3) \<and>
      st_GetObject os_ok b k '''' s3 = Ok (data, meta) \<and> om_Size meta = word_of_int (int (length data)) \<and>
      om_ETag meta = sha_hex data \<and> map_of (st_multipart s3) uid = None \<and>
      (\<forall>n. part_file (st_dataDir s) uid n (st_disk s3) = None)"
proof -
  obtain uid s1 where new: "st_NewMultipartUpload B rand t t' b k s = (Ok uid, s1)"
    and s1: "session b k uid s1" "same_objects s s1" "\<And>n. session_part uid s1 n = None"
    using new_upload [OF assms(8)] by blast
  from uploads.upload_all_ok [OF s1(1) assms(10), of clock] obtain s2 where
    up: "upload_all (\<lambda>n d. st_UploadPart os_ok (clock n) b k uid n \<lparr>rd_data = d, rd_err = None\<rparr>) ps s1 =
      (Ok (map (\<lambda>(n, d). sha_hex d) ps), s2)"
    and s2: "session b k uid s2" "same_objects s1 s2"
    and parts: "\<And>m. session_part uid s2 m = (case map_of (rev ps) m of Some d \<Rightarrow> Some d | None \<Rightarrow> session_part uid s1 m)"
    by blast
  have "session_part uid s2 m = map_of ps m" for m
    using assms(9) by (simp add: parts s1(3) map_of_rev_distinct split: option.split)
  from uploaded_completes [OF assms(1-7) s2(1) same_objects_trans [OF s1(2) s2(2)] assms(9) this assms(11) data, of now]
  show ?thesis using new up by blast
qed

lemma demo_bucket: "\<exists>bk. ms_GetBucket alist_bolt ''b'' (st_meta demo_store) = Ok bk"
  by (simp add: demo_store_def demo_meta_def ms_GetBucket_def BucketDB_Get_def alist_bolt_def dec_enc_BucketMeta)

theorem multipart_roundtrip_witness:
  "\<exists>uid s1 s2 s3 meta.
     st_NewMultipartUpload alist_bolt (\<lambda>n. replicate n CHR ''r'') 5 6 ''b'' ''k'' demo_store = (Ok uid, s1) \<and>
     upload_all (\<lambda>n d. st_UploadPart os_ok 7 ''b'' ''k'' uid n \<lparr>rd_data = d, rd_err = None\<rparr>)
       [(2, ''b''), (1, ''a'')] s1 = (Ok [sha_hex ''b'', sha_hex ''a''], s2) \<and>
     st_CompleteMultipartUpload os_ok 9 ''b'' ''k'' uid [completed (2, ''b''), completed (1, ''a'')] s2 = (Ok (), s3) \<and>
     st_GetObject os_ok ''b'' ''k'' '''' s3 = Ok (''ab'', meta)"
proof -
  obtain bk where bk: "ms_GetBucket alist_bolt ''b'' (st_meta demo_store) = Ok bk"
    using demo_bucket by blast
  let ?ps = "[(2, ''b''), (1, ''a'')] :: (int \<times> bytes) list"
  have "distinct (map fst ?ps)" by simp
  moreover have "\<forall>(n, data) \<in> set ?ps. length data \<le> MaxObjectSize" by (simp add: MaxObjectSize_pos)
  moreover have "mset [completed (2, ''b''), completed (1, ''a'')] = mset (map completed ?ps)" by simp
  moreover have "''ab'' = concat (map snd (sort_key fst ?ps))" by simp
  ultimately show ?thesis
    using multipart_roundtrip [OF demo_store_facts(1-4) demo_names(1,2) demo_store_facts(5) bk, of ?ps
        "[completed (2, ''b''), completed (1, ''a'')]" "''ab''" "\<lambda>n. replicate n CHR ''r''" 5 6 "\<lambda>_. 7" 9]
    by auto
qed

lemma check_parts_all:
  assumes "check_parts parts cps t = Ok sz" and "cp \<in> set cps"
  shows "\<exists>p. map_of parts (cp_PartNumber cp) = Some p \<and> trim_quotes (cp_ETag cp) = pt_ETag p"
  using assms by (induction cps arbitrary: t) (auto split: option.splits if_splits)

lemma check_parts_refuses:
  assumes "cp \<in> set cps" and "\<nexists>p. map_of parts (cp_PartNumber cp) = Some p \<and> trim_quotes (cp_ETag cp) = pt_ETag p"
  shows "\<exists>msg. check_parts parts cps t = Err (ErrText msg)"
  using assms by (induction cps arbitrary: t) (auto split: option.splits)

text \<open>C31. Completion checks its request: it only succeeds for an upload of that bucket and key, and only
  when every part it names was uploaded with the digest it gives; a request that names a part that was
  not uploaded, or gives another digest, is refused and changes nothing.\<close>

theorem complete_checks_request:
  "(fst (st_CompleteMultipartUpload E now b k uid cps s) = Ok () \<longrightarrow>
      (\<exists>u. map_of (st_multipart s) uid = Some u \<and> mu_bucket u = b \<and> mu_key u = k \<and>
        (\<forall>cp \<in> set cps. \<exists>p. map_of (mu_parts u) (cp_PartNumber cp) = Some p \<and>
           trim_quotes (cp_ETag cp) = pt_ETag p))) \<and>
   (\<forall>u cp. map_of (st_multipart s) uid = Some u \<and> mu_bucket u = b \<and> mu_key u = k \<and> cp \<in> set cps \<and>
      (\<nexists>p. map_of (mu_parts u) (cp_PartNumber cp) = Some p \<and> trim_quotes (cp_ETag cp) = pt_ETag p) \<longrightarrow>
      (\<exists>msg. st_CompleteMultipartUpload E now b k uid cps s = (Err (ErrText msg), s)))"
proof (intro conjI allI impI)
  assume "fst (st_CompleteMultipartUpload E now b k uid cps s) = Ok ()"
  then obtain u sz where "map_of (st_multipart s) uid = Some u" "mu_bucket u = b" "mu_key u = k"
    "check_parts (mu_parts u) (sort_slice part_less cps) 0 = Ok sz"
    by (auto simp: st_CompleteMultipartUpload_def validateUpload_def Let_def
        split: outcome.splits option.splits if_splits)
  then show "\<exists>u. map_of (st_multipart s) uid = Some u \<and> mu_bucket u = b \<and> mu_key u = k \<and>
      (\<forall>cp \<in> set cps. \<exists>p. map_of (mu_parts u) (cp_PartNumber cp) = Some p \<and>
         trim_quotes (cp_ETag cp) = pt_ETag p)"
    using check_parts_all by (auto simp: by_part.set_sort_slice)
next
  fix u cp
  assume a: "map_of (st_multipart s) uid = Some u \<and> mu_bucket u = b \<and> mu_key u = k \<and> cp \<in> set cps \<and>
    (\<nexists>p. map_of (mu_parts u) (cp_PartNumber cp) = Some p \<and> trim_quotes (cp_ETag cp) = pt_ETag p)"
  then obtain msg where "check_parts (mu_parts u) (sort_slice part_less cps) 0 = Err (ErrText msg)"
    using check_parts_refuses [of cp "sort_slice part_less cps" "mu_parts u" 0]
    by (auto simp: by_part.set_sort_slice)
  then show "\<exists>msg. st_CompleteMultipartUpload E now b k uid cps s = (Err (ErrText msg), s)"
    using a by (simp add: st_CompleteMultipartUpload_def validateUpload_def Let_def)
qed

definition demo_upload :: multipartUpload where
  "demo_upload = \<lparr>mu_id = ''u'', mu_bucket = ''b'', mu_key = ''k'', mu_initiated = 3, mu_parts = []\<rparr>"

definition demo_uploading :: "(string, json) gomap Store" where
  "demo_uploading = demo_store\<lparr>st_multipart := [(''u'', demo_upload), (''w'', demo_upload\<lparr>mu_id := ''w'', mu_initiated := 8\<rparr>)]\<rparr>"

lemma demo_uploading_session: "session ''b'' ''k'' ''u'' demo_uploading"
  by (simp add: session_def demo_uploading_def demo_upload_def parts_match_def)

theorem complete_checks_request_witness:
  "\<exists>msg. st_CompleteMultipartUpload os_ok 9 ''b'' ''k'' ''u'' [completed (1, ''a'')] demo_uploading =
     (Err (ErrText msg), demo_uploading)"
  using conjunct2 [OF complete_checks_request [of os_ok 9 "''b''" "''k''" "''u''" "[completed (1, ''a'')]" demo_uploading]]
  by (simp add: demo_uploading_def demo_upload_def)

text \<open>C30. What a follower turns away: writing an object and completing an upload are never reported as done, and
  removing a version is refused, with the not-leader error where the version exists; the metadata stays as it
  is. A delete without a version is not turned away: it does not go through Raft, and where the object exists
  the follower adds the marker to its own metadata alone and reports success.\<close>

theorem follower_refuses:
  assumes "st_raft s = Some r" and "\<not> RaftNode_IsLeader r"
  shows "(\<forall>x. fst (st_PutObject E now b k body s) \<noteq> Ok x) \<and>
      st_meta (snd (st_PutObject E now b k body s)) = st_meta s \<and>
      (\<forall>x. fst (st_CompleteMultipartUpload E now b k uid cps s) \<noteq> Ok x) \<and>
      st_meta (snd (st_CompleteMultipartUpload E now b k uid cps s)) = st_meta s \<and>
      (\<forall>vid. vid \<noteq> '''' \<longrightarrow> st_DeleteObject E now b k vid s =
         (Err (if ms_GetObject b k vid (st_meta s) = Err ErrNoKey then ErrNoKey else ErrNotLeader), s)) \<and>
      (ms_wf (st_meta s) \<and> ms_writable (st_meta s) b \<and> ms_room (st_meta s) b k \<and> ms_history (st_meta s) b k \<noteq> [] \<longrightarrow>
         (\<exists>vid m'. st_DeleteObject E now b k '''' s = (Ok vid, s\<lparr>st_meta := m'\<rparr>) \<and>
            ms_history m' b k = ms_history (st_meta s) b k @ [(delete_marker k now)\<lparr>om_VersionID := vid\<rparr>]))"
proof -
  have apply_op: "raftApply now op (s\<lparr>st_disk := dk\<rparr>) = (Err ErrNotLeader, s\<lparr>st_disk := dk\<rparr>)" for op dk
    using assms by (simp add: raftApply_def)
  have register: "st_meta (snd (register_complete E now b k uid n data s)) = st_meta s"
    "fst (register_complete E now b k uid n data s) \<noteq> Ok x" for n data x
    by (simp_all add: register_complete_def Let_def apply_op split: outcome.split prod.split)
  have "fst (st_PutObject E now b k body s) \<noteq> Ok x" for x
    by (simp add: st_PutObject_def Let_def apply_op split: outcome.split prod.split)
  moreover have "st_meta (snd (st_PutObject E now b k body s)) = st_meta s"
    by (simp add: st_PutObject_def Let_def apply_op split: outcome.split prod.split)
  moreover have "fst (st_CompleteMultipartUpload E now b k uid cps s) \<noteq> Ok x" for x
    by (simp add: st_CompleteMultipartUpload_def Let_def register split: outcome.split option.split)
  moreover have "st_meta (snd (st_CompleteMultipartUpload E now b k uid cps s)) = st_meta s"
    by (simp add: st_CompleteMultipartUpload_def Let_def register split: outcome.split option.split)
  moreover have "st_DeleteObject E now b k vid s =
      (Err (if ms_GetObject b k vid (st_meta s) = Err ErrNoKey then ErrNoKey else ErrNotLeader), s)" if "vid \<noteq> ''''" for vid
    using that assms
    by (simp add: st_DeleteObject_def version_ptr raftApply_def ms_GetObject_version flip: find_version_find split: option.split)
  moreover have "\<exists>vid m'. st_DeleteObject E now b k '''' s = (Ok vid, s\<lparr>st_meta := m'\<rparr>) \<and>
      ms_history m' b k = ms_history (st_meta s) b k @ [(delete_marker k now)\<lparr>om_VersionID := vid\<rparr>]"
    if "ms_wf (st_meta s)" "ms_writable (st_meta s) b" "ms_room (st_meta s) b k" "ms_history (st_meta s) b k \<noteq> []"
    by (rule mark_step [OF that, of now]) (auto simp: st_DeleteObject_def on_meta_def)
  ultimately show ?thesis by simp
qed

theorem follower_refuses_witness:
  "st_DeleteObject os_ok 9 ''b'' ''k'' ''1'' (st_SetRaft follower demo_versions) =
     (Err ErrNotLeader, st_SetRaft follower demo_versions) \<and>
   (\<exists>vid s'. st_DeleteObject os_ok 9 ''b'' ''k'' '''' (st_SetRaft follower demo_versions) = (Ok vid, s'))"
proof -
  let ?s = "st_SetRaft follower demo_versions"
  have raft: "st_raft ?s = Some follower" and meta: "st_meta ?s = st_meta demo_versions" by (simp_all add: st_SetRaft_def)
  have "ms_GetObject ''b'' ''k'' ''1'' (st_meta ?s) = Ok (demo_blob ''k'' ''1'' ''01234567'')"
    using get_version_nth [OF demo_versions_facts(1), of 0 "''b''" "''k''"]
    by (simp add: demo_versions_facts(4) meta)
  then show ?thesis
    using follower_refuses [OF raft follower_not_leader, of os_ok 9 "''b''" "''k''" _ "''u''" "[]"]
      demo_versions_facts(1,2,4) demo_versions_room
    by (simp add: meta) blast
qed

text \<open>C32. Aborting an upload removes it and its files and nothing else, and ends it: every later call
  for that upload, a part, a completion, an abort or a listing, is refused.\<close>

theorem abort_ends_upload:
  assumes "validateUpload b k uid s = Ok ()"
  shows "\<exists>s'. st_AbortMultipartUpload os_ok b k uid s = (Ok (), s') \<and> same_objects s s' \<and>
      (\<forall>n. part_file (st_dataDir s) uid n (st_disk s') = None) \<and>
      (\<forall>v. v \<noteq> uid \<longrightarrow> map_of (st_multipart s') v = map_of (st_multipart s) v \<and>
         (\<forall>n. part_file (st_dataDir s) v n (st_disk s') = part_file (st_dataDir s) v n (st_disk s))) \<and>
      (\<forall>E now b' k' n body. st_UploadPart E now b' k' uid n body s' = (Err ErrInvalidUploadID, s')) \<and>
      (\<forall>E now b' k' cps. st_CompleteMultipartUpload E now b' k' uid cps s' = (Err ErrInvalidUploadID, s')) \<and>
      (\<forall>E b' k'. st_AbortMultipartUpload E b' k' uid s' = (Err ErrInvalidUploadID, s')) \<and>
      (\<forall>b' k'. st_ListParts b' k' uid s' = Err ErrInvalidUploadID)"
proof (intro exI [of _ "cleanupUpload os_ok uid s"] conjI allI impI)
  let ?s = "cleanupUpload os_ok uid s"
  have gone: "validateUpload b' k' uid ?s = Err ErrInvalidUploadID" for b' k'
    by (simp add: validateUpload_def)
  show "st_AbortMultipartUpload os_ok b k uid s = (Ok (), ?s)"
    using assms by (simp add: st_AbortMultipartUpload_def)
  show "same_objects s ?s" by (simp add: same_objects_def)
  show "part_file (st_dataDir s) uid n (st_disk ?s) = None" for n
    by (simp add: cleanupUpload_def removeAll_files)
  show "map_of (st_multipart ?s) v = map_of (st_multipart s) v"
    and "part_file (st_dataDir s) v n (st_disk ?s) = part_file (st_dataDir s) v n (st_disk s)"
    if "v \<noteq> uid" for v n
    using that by (simp_all add: cleanupUpload_def removeAll_files)
  show "st_UploadPart E now b' k' uid n body ?s = (Err ErrInvalidUploadID, ?s)" for E now b' k' n body
    by (simp add: st_UploadPart_def UploadPart_write_def gone)
  show "st_CompleteMultipartUpload E now b' k' uid cps ?s = (Err ErrInvalidUploadID, ?s)" for E now b' k' cps
    by (simp add: st_CompleteMultipartUpload_def gone)
  show "st_AbortMultipartUpload E b' k' uid ?s = (Err ErrInvalidUploadID, ?s)" for E b' k'
    by (simp add: st_AbortMultipartUpload_def gone)
  show "st_ListParts b' k' uid ?s = Err ErrInvalidUploadID" for b' k'
    by (simp add: st_ListParts_def gone)
qed

theorem abort_ends_upload_witness:
  "\<exists>s'. st_AbortMultipartUpload os_ok ''b'' ''k'' ''u'' demo_uploading = (Ok (), s') \<and>
     st_ListParts ''b'' ''k'' ''u'' s' = Err ErrInvalidUploadID"
  using abort_ends_upload [OF validate_session [OF demo_uploading_session]]
  by (elim exE conjE) auto

lemma cleanup_part_file:
  "part_file (st_dataDir s) v n (st_disk (cleanupUpload os_ok uid s)) =
     (if v = uid then None else part_file (st_dataDir s) v n (st_disk s))"
  by (simp add: cleanupUpload_def removeAll_files)

lemma cleanup_all:
  "same_objects s (foldl (\<lambda>s uid. cleanupUpload os_ok uid s) s uids)"
  "map_of (st_multipart (foldl (\<lambda>s uid. cleanupUpload os_ok uid s) s uids)) v =
     (if v \<in> set uids then None else map_of (st_multipart s) v)"
  "part_file (st_dataDir s) v n (st_disk (foldl (\<lambda>s uid. cleanupUpload os_ok uid s) s uids)) =
     (if v \<in> set uids then None else part_file (st_dataDir s) v n (st_disk s))"
proof (induction uids arbitrary: s)
  case (Cons u uids)
  { case 1
    have "same_objects s (cleanupUpload os_ok u s)" by (simp add: same_objects_def)
    from same_objects_trans [OF this Cons(1)] show ?case by simp }
  { case 2
    show ?case using Cons(2) [of "cleanupUpload os_ok u s"] by simp }
  { case 3
    show ?case using Cons(3) [of "cleanupUpload os_ok u s"] by (simp add: cleanup_part_file) }
qed (simp_all add: same_objects_def)

text \<open>C33. The reaper removes exactly the stale uploads: those initiated more than the maximum age before
  now, with their files, and it returns their number; every other upload with its parts, and every
  object, stays as it is.\<close>

theorem reaper_exact:
  assumes "distinct (map fst (st_multipart s))" and "st_AbortStaleUploads os_ok now maxAge s = (n, s')"
  shows "n = card {uid. \<exists>u. map_of (st_multipart s) uid = Some u \<and> mu_initiated u < now - maxAge} \<and>
      same_objects s s' \<and>
      (\<forall>uid. map_of (st_multipart s') uid =
         (case map_of (st_multipart s) uid of
            Some u \<Rightarrow> if mu_initiated u < now - maxAge then None else Some u
          | None \<Rightarrow> None)) \<and>
      (\<forall>uid m. part_file (st_dataDir s) uid m (st_disk s') =
         (case map_of (st_multipart s) uid of
            Some u \<Rightarrow> if mu_initiated u < now - maxAge then None else part_file (st_dataDir s) uid m (st_disk s)
          | None \<Rightarrow> part_file (st_dataDir s) uid m (st_disk s)))"
proof -
  let ?stale = "map fst (filter (\<lambda>(_, u). mu_initiated u < now - maxAge) (st_multipart s))"
  have s': "n = length ?stale" "s' = foldl (\<lambda>s uid. cleanupUpload os_ok uid s) s ?stale"
    using assms(2) by (simp_all add: st_AbortStaleUploads_def Let_def)
  have stale: "uid \<in> set ?stale \<longleftrightarrow> (\<exists>u. map_of (st_multipart s) uid = Some u \<and> mu_initiated u < now - maxAge)" for uid
    using assms(1) by force
  have "distinct ?stale"
    using assms(1) by (rule distinct_map_filter)
  then have "n = card (set ?stale)" using s'(1) by (simp only: distinct_card)
  also have "set ?stale = {uid. \<exists>u. map_of (st_multipart s) uid = Some u \<and> mu_initiated u < now - maxAge}"
    using stale by blast
  finally show ?thesis
    unfolding s'(2) using cleanup_all [where s = s and uids = ?stale] stale by (auto split: option.split)
qed

theorem reaper_exact_witness:
  "fst (st_AbortStaleUploads os_ok 10 5 demo_uploading) = 1 \<and>
   map_of (st_multipart (snd (st_AbortStaleUploads os_ok 10 5 demo_uploading))) ''u'' = None \<and>
   map_of (st_multipart (snd (st_AbortStaleUploads os_ok 10 5 demo_uploading))) ''w'' \<noteq> None"
proof -
  have d: "distinct (map fst (st_multipart demo_uploading))" by (simp add: demo_uploading_def)
  obtain n s' where r: "st_AbortStaleUploads os_ok 10 5 demo_uploading = (n, s')" by fastforce
  have "{uid. \<exists>u. map_of (st_multipart demo_uploading) uid = Some u \<and> mu_initiated u < 10 - 5} = {''u''}"
    by (auto simp: demo_uploading_def demo_upload_def split: if_splits)
  then show ?thesis
    using reaper_exact [OF d r] by (simp add: r) (simp add: demo_uploading_def demo_upload_def)
qed

text \<open>C34. An upload that ends while a part is being written crashes the request: between the two halves of
  \<^verbatim>\<open>UploadPart\<close> the upload can be aborted, completed or reaped, and the second half then dereferences a
  nil pointer.\<close>

theorem upload_abort_race:
  assumes "session b k uid s" and "length data \<le> MaxObjectSize"
  shows "\<exists>s1 s2. UploadPart_write os_ok b k uid n \<lparr>rd_data = data, rd_err = None\<rparr> s =
        (Ok (data, sha_hex data), s1) \<and>
      st_AbortMultipartUpload os_ok b k uid s1 = (Ok (), s2) \<and>
      UploadPart_record now uid n (data, sha_hex data) s2 =
        (Panic ''invalid memory address or nil pointer dereference'', s2) \<and>
      fst (UploadPart_record now uid n (data, sha_hex data) s1) = Ok (sha_hex data)"
proof -
  obtain u where u: "map_of (st_multipart s) uid = Some u" using assms(1) by (auto simp: session_def)
  obtain dk where dk: "os_WriteFile os_ok (partPath (st_dataDir s) uid n) data
      ((st_disk s)\<lparr>dk_dirs := List.insert (multipartDir (st_dataDir s) uid) (dk_dirs (st_disk s))\<rparr>) = (Ok (), dk)"
    using write_part_file by blast
  have "ReadAll_limit MaxObjectSize \<lparr>rd_data = data, rd_err = None\<rparr> = Ok data"
    using assms(2) by (simp add: ReadAll_limit_def)
  then have "UploadPart_write os_ok b k uid n \<lparr>rd_data = data, rd_err = None\<rparr> s =
      (Ok (data, sha_hex data), s\<lparr>st_disk := dk\<rparr>)"
    using validate_session [OF assms(1)] dk
    by (simp add: UploadPart_write_def Let_def os_MkdirAll_def sha_hex_def)
  moreover have "validateUpload b k uid (s\<lparr>st_disk := dk\<rparr>) = Ok ()"
    using validate_session [OF assms(1)] by (simp add: validateUpload_def)
  then have "st_AbortMultipartUpload os_ok b k uid (s\<lparr>st_disk := dk\<rparr>) =
      (Ok (), cleanupUpload os_ok uid (s\<lparr>st_disk := dk\<rparr>))"
    by (simp add: st_AbortMultipartUpload_def)
  ultimately show ?thesis using u by (simp add: UploadPart_record_def Let_def)
qed

theorem upload_abort_race_witness:
  "\<exists>s1 s2. UploadPart_write os_ok ''b'' ''k'' ''u'' 1 \<lparr>rd_data = ''a'', rd_err = None\<rparr> demo_uploading =
       (Ok (''a'', sha_hex ''a''), s1) \<and>
     st_AbortMultipartUpload os_ok ''b'' ''k'' ''u'' s1 = (Ok (), s2) \<and>
     UploadPart_record 9 ''u'' 1 (''a'', sha_hex ''a'') s2 =
       (Panic ''invalid memory address or nil pointer dereference'', s2)"
proof -
  have "length ''a'' \<le> MaxObjectSize" by (simp add: MaxObjectSize_pos)
  from upload_abort_race [OF demo_uploading_session this] show ?thesis by blast
qed

text \<open>\<^verbatim>\<open>ListParts\<close> returns the parts recorded for the upload, each once, by ascending part number.\<close>

theorem list_parts_sorted:
  assumes "session b k uid s"
  shows "\<exists>ps u. st_ListParts b k uid s = Ok ps \<and> map_of (st_multipart s) uid = Some u \<and>
      sorted_wrt (<) (map pt_PartNumber ps) \<and> set ps = ran (map_of (mu_parts u)) \<and>
      (\<forall>p \<in> set ps. map_option sha_hex (session_part uid s (pt_PartNumber p)) = Some (pt_ETag p))"
proof -
  obtain u where u: "map_of (st_multipart s) uid = Some u" and match: "parts_match (st_dataDir s) (st_disk s) uid u"
    using assms by (auto simp: session_def)
  let ?ps = "sort_slice number_less (map snd (mu_parts u))"
  have dist: "distinct (map fst (mu_parts u))" using match by (simp add: parts_match_def)
  have num: "map pt_PartNumber (map snd (mu_parts u)) = map fst (mu_parts u)"
    using match by (auto simp: parts_match_def)
  have "mset (map pt_PartNumber ?ps) = mset (map fst (mu_parts u))"
    using arg_cong [OF by_number.mset_sort_slice, of "image_mset pt_PartNumber"] num by (metis mset_map)
  then have "distinct (map pt_PartNumber ?ps)" using dist by (metis mset_eq_imp_distinct_iff)
  moreover have "sorted (map pt_PartNumber ?ps)"
    using by_number.sort_slice_ordered [of "map snd (mu_parts u)"]
    by (simp add: sorted_wrt_map number_less_def not_less)
  moreover have "set ?ps = ran (map_of (mu_parts u))"
    using dist by (simp add: by_number.set_sort_slice ran_distinct)
  moreover have "map_option sha_hex (session_part uid s (pt_PartNumber p)) = Some (pt_ETag p)"
    if "p \<in> ran (map_of (mu_parts u))" for p
    using that parts_match_lookup [OF match] by (fastforce simp: ran_def session_part_def u)
  ultimately show ?thesis
    using validate_session [OF assms] u by (simp add: st_ListParts_def strict_sorted_iff)
qed

theorem list_parts_sorted_witness: "st_ListParts ''b'' ''k'' ''u'' demo_uploading = Ok []"
  using list_parts_sorted [OF demo_uploading_session] by (auto simp: demo_uploading_def demo_upload_def)

end
