(* ===== verification/Concurrency.thy ===== *)
theory Concurrency
  imports Multipart
begin

text \<open>
  Writes that overlap. The metadata store locks each of its operations, but nothing locks a whole
  \<^verbatim>\<open>PutObject\<close> of \<^verbatim>\<open>internal/store/store.go\<close>: it writes the blob, then registers the object, then reads the
  version back, and other requests run in between. The three parts are separate steps here; run one after
  the other they are \<^verbatim>\<open>PutObject\<close>.
\<close>

section \<open>The steps of a write\<close>

definition PutObject_write :: "os \<Rightarrow> reader \<Rightarrow> 'db Store \<Rightarrow> bytes outcome \<times> 'db Store" where
  "PutObject_write E body s =
     (case ReadAll_limit MaxObjectSize body of
        Err e \<Rightarrow> (Err (ErrWrap ''read body'' e), s)
      | Panic p \<Rightarrow> (Panic p, s)
      | Ok data \<Rightarrow>
          (case writeBlob E (st_dataDir s) (hex_EncodeToString (sha256_Sum256 data)) data (st_disk s) of
             (Err e, dk) \<Rightarrow> (Err (ErrWrap ''write blob'' e), s\<lparr>st_disk := dk\<rparr>)
           | (Panic p, dk) \<Rightarrow> (Panic p, s\<lparr>st_disk := dk\<rparr>)
           | (Ok _, dk) \<Rightarrow> (Ok data, s\<lparr>st_disk := dk\<rparr>)))"

definition PutObject_register :: "time \<Rightarrow> string \<Rightarrow> string \<Rightarrow> bytes \<Rightarrow> 'db Store \<Rightarrow> unit outcome \<times> 'db Store" where
  "PutObject_register now bucket key data s =
     (let meta = new_meta now key (word_of_int (int (length data))) (hex_EncodeToString (sha256_Sum256 data))
      in raftApply now
           \<lparr>op_Kind = ''put_object'', op_Bucket = bucket, op_Key = key, op_VersionID = '''',
            op_Meta = Some (enc_ObjectMeta meta)\<rparr> s)"

definition PutObject_version :: "string \<Rightarrow> string \<Rightarrow> bytes \<Rightarrow> 'db Store \<Rightarrow> string \<times> string" where
  "PutObject_version bucket key data s =
     (hex_EncodeToString (sha256_Sum256 data),
      (case ms_GetObject bucket key '''' (st_meta s) of Ok m \<Rightarrow> om_VersionID m | _ \<Rightarrow> ''''))"

lemma PutObject_steps:
  "st_PutObject E now b k body s =
     (case PutObject_write E body s of
        (Err e, s1) \<Rightarrow> (Err e, s1)
      | (Panic p, s1) \<Rightarrow> (Panic p, s1)
      | (Ok data, s1) \<Rightarrow>
          (case PutObject_register now b k data s1 of
             (Err e, s2) \<Rightarrow> (Err e, s2)
           | (Panic p, s2) \<Rightarrow> (Panic p, s2)
           | (Ok _, s2) \<Rightarrow> (Ok (PutObject_version b k data s2), s2)))"
  by (simp add: st_PutObject_def PutObject_write_def PutObject_register_def PutObject_version_def Let_def
      split: outcome.split prod.split)

section \<open>Lemmas\<close>

lemma PutObject_register_op:
  "PutObject_register now b k data s =
     raftApply now (put_op b k (new_meta now k (word_of_int (int (length data))) (sha_hex data))) s"
  by (simp add: PutObject_register_def put_op_def sha_hex_def)

lemma write_ok:
  assumes "ReadAll_limit MaxObjectSize body = Ok data"
  shows "\<exists>dk. PutObject_write os_ok body s = (Ok data, s\<lparr>st_disk := dk\<rparr>) \<and>
    (\<forall>n. blob_at (st_dataDir s) n dk = (if n = sha_hex data then Some data else blob_at (st_dataDir s) n (st_disk s)))"
  using blobs.write_ok [of "st_dataDir s" data "st_disk s"] assms
  by (auto simp: PutObject_write_def sha_hex_def)

text \<open>Registering an object that takes effect: a version is appended to the history of its key.\<close>

lemma register_step:
  assumes "ms_wf (st_meta s)" and "ms_writable (st_meta s) b" and "ms_room (st_meta s) b k"
    and "accepts s" and "valid_utf8 b" and "valid_utf8 k"
  obtains m' meta where "PutObject_register now b k data s = (Ok (), s\<lparr>st_meta := m'\<rparr>)"
    and "ms_wf m'" and "\<And>b'. ms_writable m' b' = ms_writable (st_meta s) b'"
    and "\<And>b' k'. ms_next m' b' k' = ms_next (st_meta s) b' k' + (if b' = b \<and> k' = k then 1 else 0)"
    and "meta = (new_meta now k (word_of_int (int (length data))) (sha_hex data))
           \<lparr>om_VersionID := FormatInt (ms_next (st_meta s) b k)\<rparr>"
    and "om_VersionID meta \<notin> om_VersionID ` set (ms_history (st_meta s) b k)"
    and "\<And>b' k'. ms_history m' b' k' =
      (if b' = b \<and> k' = k then ms_history (st_meta s) b k @ [meta] else ms_history (st_meta s) b' k')"
proof -
  let ?meta = "new_meta now k (word_of_int (int (length data))) (sha_hex data)"
  obtain ks where ks: "map_of (ms_objects (st_meta s)) b = Some ks" using assms(2) by (auto simp: ms_writable_def)
  obtain vid vs' where app: "append_version ?meta (vs_before ks k) = (vid, vs')" by fastforce
  let ?m = "set_keys b (AList.update k vs' ks) (st_meta s)"
  note step = append_step [OF assms(1) ks assms(3) _ app refl]
  have put: "ms_PutObject b k ?meta (st_meta s) = (Ok vid, ?m)"
    using app by (simp add: ms_PutObject_step [OF assms(2) ks])
  have "raftApply now (put_op b k ?meta) s = (Ok (), s\<lparr>st_meta := ?m\<rparr>)"
    using assms(4-6) put by (intro raftApply_Ok) (simp_all add: op_valid_put ApplyOp_put)
  then show ?thesis
    using that [of ?m "?meta\<lparr>om_VersionID := vid\<rparr>"] step writable_step [OF assms(2)]
      ms_next_append [OF ks assms(3) app]
    by (auto simp: PutObject_register_op)
qed

text \<open>The newest two versions of a key are read by their identifiers, the newest one without as well.\<close>

lemma newest_two_read:
  assumes "ms_wf m" and history: "ms_history m b k = (h @ [v1]) @ [v2]" and "\<not> om_IsDeleteMarker v2"
    and fresh: "om_VersionID v1 \<notin> om_VersionID ` set h" "om_VersionID v2 \<notin> om_VersionID ` set (h @ [v1])"
    and named: "om_VersionID v1 \<noteq> ''''" "om_VersionID v2 \<noteq> ''''"
  shows "ms_GetObject b k '''' m = Ok v2" "ms_GetObject b k (om_VersionID v2) m = Ok v2"
    "ms_GetObject b k (om_VersionID v1) m = Ok v1"
proof -
  have ids: "om_VersionID v1 \<noteq> om_VersionID v2" using fresh(2) by auto
  show "ms_GetObject b k '''' m = Ok v2" using ms_GetObject_current [OF assms(1)] assms(3) by (simp add: history)
  show "ms_GetObject b k (om_VersionID v2) m = Ok v2"
    using versions.find_last_id [OF fresh(2) refl] ms_GetObject_version [OF named(2), of b k m] by (simp add: history)
  show "ms_GetObject b k (om_VersionID v1) m = Ok v1"
    using versions.find_last_id [OF fresh(1) refl] versions.find_other_id [OF ids [symmetric], of "h @ [v1]"]
      ms_GetObject_version [OF named(1), of b k m] by (simp add: history)
qed

section \<open>Properties\<close>

text \<open>C27. Two overlapping writes of one key can be told the same version: when both have written their blob
  and both register before either reads its version back, each succeeds, and each is given the identifier
  of the second, under which the contents of the second are read. The contents of the first are a version
  whose identifier nobody was told.\<close>

theorem concurrent_puts_mix_versions:
  assumes "ms_wf (st_meta s)" and "ms_writable (st_meta s) b" and "ms_next (st_meta s) b k < 2 ^ 63 - 2"
    and "accepts s" and "valid_utf8 b" and "valid_utf8 k"
    and body: "ReadAll_limit MaxObjectSize body1 = Ok d1" "ReadAll_limit MaxObjectSize body2 = Ok d2"
  shows "\<exists>s1 s2 s3 s4 vid vid1 meta meta1.
      PutObject_write os_ok body1 s = (Ok d1, s1) \<and> PutObject_write os_ok body2 s1 = (Ok d2, s2) \<and>
      PutObject_register t1 b k d1 s2 = (Ok (), s3) \<and> PutObject_register t2 b k d2 s3 = (Ok (), s4) \<and>
      PutObject_version b k d1 s4 = (sha_hex d1, vid) \<and> PutObject_version b k d2 s4 = (sha_hex d2, vid) \<and>
      st_GetObject os_ok b k vid s4 = Ok (d2, meta) \<and> om_ETag meta = sha_hex d2 \<and>
      st_GetObject os_ok b k vid1 s4 = Ok (if sha_hex d1 = sha_hex d2 then d2 else d1, meta1) \<and>
      om_ETag meta1 = sha_hex d1 \<and> vid1 \<noteq> vid"
proof -
  obtain dk1 where w1: "PutObject_write os_ok body1 s = (Ok d1, s\<lparr>st_disk := dk1\<rparr>)"
    "\<And>n. blob_at (st_dataDir s) n dk1 = (if n = sha_hex d1 then Some d1 else blob_at (st_dataDir s) n (st_disk s))"
    using write_ok [OF body(1)] by blast
  obtain dk2 where w2: "PutObject_write os_ok body2 (s\<lparr>st_disk := dk1\<rparr>) = (Ok d2, s\<lparr>st_disk := dk2\<rparr>)"
    "\<And>n. blob_at (st_dataDir s) n dk2 = (if n = sha_hex d2 then Some d2 else blob_at (st_dataDir s) n dk1)"
    using write_ok [OF body(2), of "s\<lparr>st_disk := dk1\<rparr>"] by auto
  let ?s2 = "s\<lparr>st_disk := dk2\<rparr>" and ?h = "ms_history (st_meta s) b k"
  have pre: "ms_wf (st_meta ?s2)" "ms_writable (st_meta ?s2) b" "ms_room (st_meta ?s2) b k" "accepts ?s2"
    using assms(1-4) by (simp_all add: ms_room_def accepts_def)
  obtain m3 v1 where r1: "PutObject_register t1 b k d1 ?s2 = (Ok (), ?s2\<lparr>st_meta := m3\<rparr>)" "ms_wf m3" "ms_writable m3 b"
    "ms_next m3 b k = ms_next (st_meta s) b k + 1" "ms_history m3 b k = ?h @ [v1]"
    and v1: "v1 = (new_meta t1 k (word_of_int (int (length d1))) (sha_hex d1))
      \<lparr>om_VersionID := FormatInt (ms_next (st_meta s) b k)\<rparr>" "om_VersionID v1 \<notin> om_VersionID ` set ?h"
    by (rule register_step [OF pre assms(5,6), of t1 d1]) (use assms(2) in auto)
  let ?s3 = "?s2\<lparr>st_meta := m3\<rparr>"
  have pre: "ms_wf (st_meta ?s3)" "ms_writable (st_meta ?s3) b" "ms_room (st_meta ?s3) b k" "accepts ?s3"
    using r1(2-4) assms(3,4) by (simp_all add: ms_room_def accepts_def)
  obtain m4 v2 where r2: "PutObject_register t2 b k d2 ?s3 = (Ok (), ?s3\<lparr>st_meta := m4\<rparr>)" "ms_wf m4"
    "ms_history m4 b k = (?h @ [v1]) @ [v2]"
    and v2: "v2 = (new_meta t2 k (word_of_int (int (length d2))) (sha_hex d2))\<lparr>om_VersionID := FormatInt (ms_next m3 b k)\<rparr>"
      "om_VersionID v2 \<notin> om_VersionID ` set (?h @ [v1])"
    by (rule register_step [OF pre assms(5,6), of t2 d2]) (use r1(5) in auto)
  let ?s4 = "?s3\<lparr>st_meta := m4\<rparr>"
  have ids: "om_VersionID v1 \<noteq> ''''" "om_VersionID v2 \<noteq> ''''" "om_VersionID v1 \<noteq> om_VersionID v2"
    using v2(2) by (auto simp: v1(1) v2(1))
  have "\<not> om_IsDeleteMarker v2" by (simp add: v2(1))
  note reads = newest_two_read [OF r2(2,3) this v1(2) v2(2) ids(1,2)]
  have version: "PutObject_version b k d ?s4 = (sha_hex d, om_VersionID v2)" for d
    using reads(1) by (simp add: PutObject_version_def sha_hex_def)
  have "om_Sha256 v1 = sha_hex d1" "om_Sha256 v2 = sha_hex d2"
    by (simp_all add: v1(1) v2(1))
  moreover have "blob_at (st_dataDir s) (sha_hex d1) dk2 = Some (if sha_hex d1 = sha_hex d2 then d2 else d1)"
    "blob_at (st_dataDir s) (sha_hex d2) dk2 = Some d2"
    using w1(2) w2(2) by simp_all
  ultimately have "st_GetObject os_ok b k (om_VersionID v2) ?s4 = Ok (d2, v2)"
    "st_GetObject os_ok b k (om_VersionID v1) ?s4 = Ok (if sha_hex d1 = sha_hex d2 then d2 else d1, v1)"
    using st_GetObject_eq [of b k "om_VersionID v2" ?s4 v2] st_GetObject_eq [of b k "om_VersionID v1" ?s4 v1] reads(2,3) by simp_all
  moreover have "om_ETag v1 = sha_hex d1" "om_ETag v2 = sha_hex d2" by (simp_all add: v1(1) v2(1))
  ultimately show ?thesis
    using w1(1) w2(1) r1(1) r2(1) version [of d1] version [of d2] ids(3) by metis
qed

theorem concurrent_puts_mix_versions_witness:
  "\<exists>s1 s2 s3 s4 vid vid1 meta meta1.
     PutObject_write os_ok \<lparr>rd_data = ''one'', rd_err = None\<rparr> demo_store = (Ok ''one'', s1) \<and>
     PutObject_write os_ok \<lparr>rd_data = ''two'', rd_err = None\<rparr> s1 = (Ok ''two'', s2) \<and>
     PutObject_register 8 ''b'' ''k'' ''one'' s2 = (Ok (), s3) \<and>
     PutObject_register 9 ''b'' ''k'' ''two'' s3 = (Ok (), s4) \<and>
     PutObject_version ''b'' ''k'' ''one'' s4 = (sha_hex ''one'', vid) \<and>
     PutObject_version ''b'' ''k'' ''two'' s4 = (sha_hex ''two'', vid) \<and>
     st_GetObject os_ok ''b'' ''k'' vid s4 = Ok (''two'', meta) \<and> om_ETag meta = sha_hex ''two'' \<and>
     st_GetObject os_ok ''b'' ''k'' vid1 s4 =
       Ok (if sha_hex ''one'' = sha_hex ''two'' then ''two'' else ''one'', meta1) \<and>
     om_ETag meta1 = sha_hex ''one'' \<and> vid1 \<noteq> vid"
proof (rule concurrent_puts_mix_versions [OF demo_store_facts(1,2) _ demo_store_facts(4) demo_names(1,2)])
  show "ms_next (st_meta demo_store) ''b'' ''k'' < 2 ^ 63 - 2"
    by (simp add: demo_store_def demo_meta_def ms_next_def key_next_def)
qed (simp_all add: ReadAll_limit_def MaxObjectSize_def)

end
