(* ===== verification/Integrity.thy ===== *)
theory Integrity
  imports Concurrency
begin

text \<open>
  The storage engine as a state machine: every call of the store, in any order and with any operating
  system failures short of a torn write, and the entries that a node applies from the log. In every
  state it reaches, what a read returns has the digest that the metadata promises.
\<close>

section \<open>Steps\<close>

text \<open>Writes of files may fail, but not half-way.\<close>

definition os_atomic :: "os \<Rightarrow> bool" where
  "os_atomic E = (\<forall>p d n e. os_write E p d \<noteq> ShortWrite n e)"

text \<open>A version names one digest twice: the digest of some data, or the empty string for a marker.\<close>

definition version_sound :: "ObjectMeta \<Rightarrow> bool" where
  "version_sound v =
     (om_ETag v = om_Sha256 v \<and>
      (if om_IsDeleteMarker v then om_Sha256 v = '''' else \<exists>data. om_Sha256 v = sha_hex data))"

text \<open>Entries of the log come from stores, and so do the versions in them.\<close>

definition op_sound :: "RaftOp \<Rightarrow> bool" where
  "op_sound op =
     (valid_utf8 (op_Kind op) \<and>
      (op_Kind op = ''put_object'' \<longrightarrow>
        (\<exists>meta. op_Meta op = Some (enc_ObjectMeta meta) \<and> version_sound meta)))"

inductive st_step :: "'db bolt \<Rightarrow> 'db Store \<Rightarrow> 'db Store \<Rightarrow> bool" for B :: "'db bolt" where
  do_create: "st_CreateBucket B t b s = (r, s') \<Longrightarrow> st_step B s s'"
| do_delete_bucket: "st_DeleteBucket B b s = (r, s') \<Longrightarrow> st_step B s s'"
| do_put: "os_atomic E \<Longrightarrow> st_PutObject E t b k body s = (x, s') \<Longrightarrow> st_step B s s'"
| do_put_write: "os_atomic E \<Longrightarrow> PutObject_write E body s = (w, s') \<Longrightarrow> st_step B s s'"
| do_put_register: "PutObject_register t b k data s = (r, s') \<Longrightarrow> st_step B s s'"
| do_delete: "st_DeleteObject E t b k vid s = (y, s') \<Longrightarrow> st_step B s s'"
| do_new_upload: "st_NewMultipartUpload B rand t t' b k s = (y, s') \<Longrightarrow> st_step B s s'"
| do_write_part: "UploadPart_write E b k uid n body s = (z, s') \<Longrightarrow> st_step B s s'"
| do_record_part: "UploadPart_record t uid n w s = (y, s') \<Longrightarrow> st_step B s s'"
| do_complete: "os_atomic E \<Longrightarrow> st_CompleteMultipartUpload E t b k uid cps s = (r, s') \<Longrightarrow> st_step B s s'"
| do_abort: "st_AbortMultipartUpload E b k uid s = (r, s') \<Longrightarrow> st_step B s s'"
| do_reap: "st_AbortStaleUploads E t age s = (m, s') \<Longrightarrow> st_step B s s'"
| do_log_entry: "op_sound op \<Longrightarrow> fsm_Apply t (enc_RaftOp op) (st_meta s) = (r, m') \<Longrightarrow>
    st_step B s (s\<lparr>st_meta := m'\<rparr>)"

inductive st_reach :: "'db bolt \<Rightarrow> 'db Store \<Rightarrow> bool" for B :: "'db bolt" where
  started: "blobs_intact dir dk \<Longrightarrow> st_New E B file dir dk = Ok s \<Longrightarrow> st_reach B s"
| stepped: "st_reach B s \<Longrightarrow> st_step B s s' \<Longrightarrow> st_reach B s'"

section \<open>Metadata\<close>

definition keys_sound :: "keyspace \<Rightarrow> bool" where
  "keys_sound ks = (\<forall>(k, vs) \<in> set ks. \<forall>v \<in> set (vs_Versions vs). version_sound v)"

definition meta_sound :: "'db MetaStore \<Rightarrow> bool" where
  "meta_sound m = (\<forall>(b, ks) \<in> set (ms_objects m). keys_sound ks)"

lemma version_sound_id [simp]: "version_sound (v\<lparr>om_VersionID := vid\<rparr>) = version_sound v"
  by (simp add: version_sound_def)

lemma version_sound_new: "version_sound (new_meta t k sz (sha_hex data))"
  by (auto simp: version_sound_def new_meta_def zero_meta_def)

lemma version_sound_utf8: "version_sound v \<Longrightarrow> valid_utf8 (om_Sha256 v)"
  by (auto simp: version_sound_def valid_utf8_ascii split: if_splits)

lemma keys_sound_update:
  "keys_sound ks \<Longrightarrow> \<forall>v \<in> set (vs_Versions vs). version_sound v \<Longrightarrow> keys_sound (AList.update k vs ks)"
  using set_update_subset [of k vs ks] by (auto simp: keys_sound_def)

lemma keys_sound_delete: "keys_sound ks \<Longrightarrow> keys_sound (AList.delete k ks)"
  using set_delete_subset [of k ks] by (auto simp: keys_sound_def)

lemma meta_sound_update:
  "meta_sound m \<Longrightarrow> keys_sound ks \<Longrightarrow> ms_objects m' = AList.update b ks (ms_objects m) \<Longrightarrow> meta_sound m'"
  using set_update_subset [of b ks "ms_objects m"] by (auto simp: meta_sound_def)

lemma meta_sound_keys:
  "meta_sound m \<Longrightarrow> map_of (ms_objects m) b = Some ks \<Longrightarrow> keys_sound ks"
  by (auto simp: meta_sound_def dest!: map_of_SomeD)

lemma keys_sound_before:
  "keys_sound ks \<Longrightarrow> \<forall>v \<in> set (vs_Versions (vs_before ks k)). version_sound v"
  by (auto simp: keys_sound_def vs_before_def newVersionState_def split: option.splits dest!: map_of_SomeD)

lemma append_sound:
  assumes "meta_sound m" and "map_of (ms_objects m) b = Some ks" and "version_sound meta"
  shows "meta_sound (set_keys b (AList.update k (snd (append_version meta (vs_before ks k))) ks) m)"
proof (rule meta_sound_update [OF assms(1)])
  have "keys_sound ks" using assms(1,2) by (rule meta_sound_keys)
  then show "keys_sound (AList.update k (snd (append_version meta (vs_before ks k))) ks)"
    using keys_sound_before [of ks k] assms(3) by (intro keys_sound_update) (auto simp: append_version_eq)
qed (simp add: set_keys_def)

lemma put_sound:
  assumes "meta_sound m" and "version_sound meta"
  shows "meta_sound (snd (ms_PutObject b k meta m))"
proof (cases "ms_writable m b")
  case True
  then obtain ks where "map_of (ms_objects m) b = Some ks" by (auto simp: ms_writable_def)
  then show ?thesis using ms_PutObject_step [OF True] append_sound [OF assms(1) _ assms(2)] by simp
next
  case False
  then show ?thesis using assms(1) by (auto simp: ms_PutObject_def ms_writable_def split: option.split)
qed

lemma remove_sound:
  assumes "keys_sound ks" and "map_of ks k = Some vst" and "i < length (vs_Versions vst)"
  shows "keys_sound (remove_version k i vst ks)"
proof -
  have "\<forall>v \<in> set (vs_Versions vst). version_sound v"
    using assms(1,2) by (auto simp: keys_sound_def dest!: map_of_SomeD)
  then have "\<forall>v \<in> set (slice_delete (vs_Versions vst) i). version_sound v"
    using assms(3) by (auto dest: in_set_takeD in_set_dropD)
  then show ?thesis
    using assms(1) by (simp add: remove_version_def Let_def keys_sound_delete keys_sound_update)
qed

lemma delete_sound:
  assumes "meta_sound m"
  shows "meta_sound (snd (ms_DeleteObject t b k vid m))"
proof (cases "\<exists>ks vst. map_bool (ms_cache m) b \<and> map_of (ms_objects m) b = Some ks \<and> map_of ks k = Some vst")
  case False
  then show ?thesis using assms by (auto simp: ms_DeleteObject_def split: option.split)
next
  case True
  then obtain ks vst where ks: "map_bool (ms_cache m) b" "map_of (ms_objects m) b = Some ks" "map_of ks k = Some vst"
    by blast
  have before: "vs_before ks k = vst" using ks(3) by (simp add: vs_before_def)
  have marker: "version_sound (delete_marker k t)"
    by (simp add: version_sound_def delete_marker_def zero_meta_def)
  have "meta_sound (set_keys b (remove_version k i vst ks) m)" if "find_version vid (vs_Versions vst) = Some i" for i
    using remove_sound [OF meta_sound_keys [OF assms ks(2)] ks(3)] find_version_Some [OF that]
    by (intro meta_sound_update [OF assms]) (simp_all add: set_keys_def)
  then show ?thesis
    using assms ks append_sound [OF assms ks(2) marker, of k]
    by (auto simp: ms_DeleteObject_def before split: option.split prod.split)
qed

text \<open>Encoding and decoding change strings that are not valid UTF-8, never a digest.\<close>

lemma dec_enc_ObjectMeta_fields:
  "\<exists>meta'. dec_ObjectMeta (enc_ObjectMeta meta) = Inr meta' \<and>
     om_ETag meta' = utf8_coerce (om_ETag meta) \<and> om_Sha256 meta' = utf8_coerce (om_Sha256 meta) \<and>
     om_IsDeleteMarker meta' = om_IsDeleteMarker meta"
  using sint_ge [of "om_Size meta"] sint_lt [of "om_Size meta"]
  by (simp add: enc_ObjectMeta_def json_field_def json_string_def)

lemma dec_enc_RaftOp_fields:
  "\<exists>op'. dec_RaftOp (enc_RaftOp op) = Inr op' \<and> op_Kind op' = utf8_coerce (op_Kind op) \<and> op_Meta op' = op_Meta op"
  by (auto simp: enc_RaftOp_def omitempty_def json_field_def json_string_def split: option.split)

lemma ApplyOp_sound:
  assumes "meta_sound m"
    and "op_Kind op = ''put_object'' \<longrightarrow>
      (\<exists>meta. op_Meta op = Some (enc_ObjectMeta meta) \<and> version_sound meta)"
  shows "meta_sound (snd (ApplyOp t op m))"
proof (cases "op_Kind op = ''put_object''")
  case True
  with assms(2) obtain meta where op: "op_Meta op = Some (enc_ObjectMeta meta)" "version_sound meta"
    by blast
  obtain meta' where "dec_ObjectMeta (enc_ObjectMeta meta) = Inr meta'" "version_sound meta'"
    using dec_enc_ObjectMeta_fields [of meta] op(2) version_sound_utf8 [OF op(2)]
    by (auto simp: version_sound_def valid_utf8_def)
  then show ?thesis using True op(1) put_sound [OF assms(1)] by (simp add: ApplyOp_def)
next
  case False
  then show ?thesis using assms(1) delete_sound by (auto simp: ApplyOp_def)
qed

lemma fsm_Apply_sound:
  assumes "meta_sound m" and "op_sound op"
  shows "meta_sound (snd (fsm_Apply t (enc_RaftOp op) m))"
proof -
  obtain op' where op': "dec_RaftOp (enc_RaftOp op) = Inr op'" "op_Kind op' = op_Kind op" "op_Meta op' = op_Meta op"
    using dec_enc_RaftOp_fields [of op] assms(2) by (auto simp: op_sound_def valid_utf8_def)
  have "meta_sound (snd (ApplyOp t op' m))"
    using ApplyOp_sound [OF assms(1)] assms(2) op'(2,3) by (simp add: op_sound_def)
  then show ?thesis by (simp add: fsm_Apply_def op'(1))
qed

lemma raftApply_sound:
  assumes "meta_sound (st_meta s)" and "op_sound op" and "raftApply t op s = (r, s')"
  shows "meta_sound (st_meta s')"
proof -
  have "meta_sound (snd (RaftNode_Apply t n op (st_meta s)))" for n
    using fsm_Apply_sound [OF assms(1,2), of t] assms(1)
    by (auto simp: RaftNode_Apply_def Let_def split: option.split prod.split outcome.split)
  moreover have "meta_sound (snd (ApplyOp t op (st_meta s)))"
    using ApplyOp_sound [OF assms(1)] assms(2) by (simp add: op_sound_def)
  ultimately have "meta_sound (st_meta (snd (raftApply t op s)))"
    using assms(1) by (simp add: raftApply_def split: option.split)
  then show ?thesis using assms(3) by simp
qed

section \<open>Every step keeps blobs and metadata sound\<close>

definition st_sound :: "'db Store \<Rightarrow> bool" where
  "st_sound s = (blobs_intact (st_dataDir s) (st_disk s) \<and> meta_sound (st_meta s))"

lemma st_sound_blobs:
  assumes "st_sound s" and "st_dataDir s' = st_dataDir s" and "meta_sound (st_meta s')"
    and "\<And>n x. blob_at (st_dataDir s) n (st_disk s') = Some x \<Longrightarrow>
      blob_at (st_dataDir s) n (st_disk s) = Some x \<or> sha_hex x = n"
  shows "st_sound s'"
  using assms by (auto simp: st_sound_def blobs_intact_def)

lemma writeBlob_atomic:
  assumes "os_atomic E" and "writeBlob E dir (sha_hex data) data dk = (r, dk')" and "blob_at dir n dk' = Some x"
  shows "blob_at dir n dk = Some x \<or> sha_hex x = n"
proof -
  have "2 \<le> length (sha_hex data)" by simp
  from assms(2) this show ?thesis
    by (cases rule: writeBlob_cases) (use assms(1,3) in \<open>auto simp: os_atomic_def split: if_splits\<close>)
qed

lemma put_op_sound: "op_sound (put_op b k (new_meta t k' sz (sha_hex data)))"
  by (auto simp: op_sound_def put_op_def version_sound_new)

lemma registered_sound:
  assumes "st_sound s" and "os_atomic E"
    and "writeBlob E (st_dataDir s) (sha_hex data) data (st_disk s) = (r, dk)"
    and "raftApply t (put_op b k (new_meta t k sz (sha_hex data))) (s\<lparr>st_disk := dk\<rparr>) = (q, s')"
  shows "st_sound s'"
proof (rule st_sound_blobs [OF assms(1)])
  note frame = raftApply_frame [OF assms(4)]
  show "st_dataDir s' = st_dataDir s" using frame(2) by simp
  show "meta_sound (st_meta s')"
    using raftApply_sound [OF _ put_op_sound assms(4)] assms(1) by (simp add: st_sound_def)
  show "blob_at (st_dataDir s) n (st_disk s) = Some x \<or> sha_hex x = n"
    if "blob_at (st_dataDir s) n (st_disk s') = Some x" for n x
    using that writeBlob_atomic [OF assms(2,3)] frame(1) by simp
qed

lemma written_sound:
  assumes "st_sound s" and "os_atomic E"
    and "writeBlob E (st_dataDir s) (sha_hex data) data (st_disk s) = (r, dk)"
  shows "st_sound (s\<lparr>st_disk := dk\<rparr>)"
  using writeBlob_atomic [OF assms(2,3)] assms(1)
  by (intro st_sound_blobs [OF assms(1)]) (auto simp: st_sound_def)

lemma put_step_sound:
  assumes "st_sound s" and "os_atomic E" and "st_PutObject E t b k body s = (x, s')"
  shows "st_sound s'"
proof (cases "ReadAll_limit MaxObjectSize body")
  case (Ok data)
  obtain r dk where dk: "writeBlob E (st_dataDir s) (sha_hex data) data (st_disk s) = (r, dk)" by fastforce
  let ?op = "put_op b k (new_meta t k (word_of_int (int (length data))) (sha_hex data))"
  obtain q s1 where s1: "raftApply t ?op (s\<lparr>st_disk := dk\<rparr>) = (q, s1)" by fastforce
  have "s' = s\<lparr>st_disk := dk\<rparr> \<or> s' = s1"
    using assms(3) Ok dk s1
    by (auto simp: st_PutObject_def Let_def sha_hex_def [symmetric] put_op_def split: outcome.splits)
  then show ?thesis using written_sound [OF assms(1,2) dk] registered_sound [OF assms(1,2) dk s1] by auto
qed (use assms in \<open>auto simp: st_PutObject_def\<close>)

lemma write_half_sound:
  assumes "st_sound s" and "os_atomic E" and "PutObject_write E body s = (w, s')"
  shows "st_sound s'"
proof (cases "ReadAll_limit MaxObjectSize body")
  case (Ok data)
  obtain r dk where dk: "writeBlob E (st_dataDir s) (sha_hex data) data (st_disk s) = (r, dk)" by fastforce
  then have "s' = s\<lparr>st_disk := dk\<rparr>"
    using assms(3) Ok by (auto simp: PutObject_write_def sha_hex_def [symmetric] split: outcome.splits)
  then show ?thesis using written_sound [OF assms(1,2) dk] by simp
qed (use assms in \<open>auto simp: PutObject_write_def\<close>)

lemma register_half_sound:
  assumes "st_sound s" and "PutObject_register t b k data s = (r, s')"
  shows "st_sound s'"
  using raftApply_sound [OF _ put_op_sound] raftApply_frame assms
  by (fastforce simp: st_sound_def PutObject_register_op)

lemma cleanup_sound: "st_sound s \<Longrightarrow> st_sound (cleanupUpload E uid s)"
  by (rule st_sound_blobs) (auto simp: st_sound_def)

lemma complete_step_sound:
  assumes "st_sound s" and "os_atomic E" and "st_CompleteMultipartUpload E t b k uid cps s = (x, s')"
  shows "st_sound s'"
proof -
  have reg: "st_sound s'" if "register_complete E t b k uid sz data s = (x, s')" for sz data
  proof -
    obtain r dk where dk: "writeBlob E (st_dataDir s) (sha_hex data) data (st_disk s) = (r, dk)" by fastforce
    let ?op = "put_op b k (new_meta t k sz (sha_hex data))"
    obtain q s1 where s1: "raftApply t ?op (s\<lparr>st_disk := dk\<rparr>) = (q, s1)" by fastforce
    have "s' = s\<lparr>st_disk := dk\<rparr> \<or> s' = s1 \<or> s' = cleanupUpload E uid s1"
      using that dk s1
      by (auto simp: register_complete_def Let_def sha_hex_def [symmetric] put_op_def split: outcome.splits)
    then show ?thesis
      using written_sound [OF assms(1,2) dk] registered_sound [OF assms(1,2) dk s1] cleanup_sound by auto
  qed
  show ?thesis
    using assms(1,3) reg
    by (auto simp: st_CompleteMultipartUpload_def Let_def split: outcome.splits option.splits)
qed

lemma delete_step_sound:
  assumes "st_sound s" and "st_DeleteObject E t b k vid s = (x, s')"
  shows "st_sound s'"
proof (cases "vid = ''''")
  case True
  then have "s' = s\<lparr>st_meta := snd (ms_DeleteObject t b k '''' (st_meta s))\<rparr>"
    using assms(2) by (auto simp: st_DeleteObject_def on_meta_def split: prod.splits)
  then show ?thesis using assms(1) delete_sound by (auto simp: st_sound_def)
next
  case False
  let ?op = "\<lparr>op_Kind = ''delete_version'', op_Bucket = b, op_Key = k, op_VersionID = vid, op_Meta = None\<rparr>"
  obtain q s1 where s1: "raftApply t ?op s = (q, s1)" by fastforce
  have "op_sound ?op" by (simp add: op_sound_def)
  then have "st_sound s1"
    using raftApply_sound [OF _ _ s1] raftApply_frame [OF s1] assms(1) by (simp add: st_sound_def)
  moreover have "st_sound (s1\<lparr>st_disk := os_Remove E p (st_disk s1)\<rparr>)" for p
    using \<open>st_sound s1\<close>
    by (intro st_sound_blobs [OF \<open>st_sound s1\<close>])
      (auto simp: st_sound_def os_Remove_def blob_at_def split: if_splits)
  ultimately show ?thesis
    using assms False s1
    by (auto simp: st_DeleteObject_def Let_def split: outcome.splits if_splits)
qed

lemma part_step_sound:
  assumes "st_sound s" and "UploadPart_write E b k uid n body s = (x, s')"
  shows "st_sound s'"
proof (rule st_sound_blobs [OF assms(1)])
  show "st_dataDir s' = st_dataDir s" "meta_sound (st_meta s')"
    using assms by (auto simp: st_sound_def UploadPart_write_def Let_def split: outcome.splits prod.splits)
  show "blob_at (st_dataDir s) m (st_disk s) = Some y \<or> sha_hex y = m"
    if "blob_at (st_dataDir s) m (st_disk s') = Some y" for m y
    using that assms(2)
    by (auto simp: UploadPart_write_def Let_def os_MkdirAll_def os_WriteFile_def blob_at_def
        split: outcome.splits prod.splits option.splits if_splits write_fault.splits)
qed

lemma bucket_step_sound:
  assumes "meta_sound m"
  shows "meta_sound (snd (ms_CreateBucket B t b m))" and "meta_sound (snd (ms_DeleteBucket B b m))"
  using assms set_update_subset [of b "[]" "ms_objects m"] set_delete_subset [of b "ms_objects m"]
  by (auto simp: ms_CreateBucket_def ms_DeleteBucket_def meta_sound_def keys_sound_def
      split: prod.splits outcome.splits)

lemma reap_step_sound:
  assumes "st_sound s"
  shows "st_sound (snd (st_AbortStaleUploads E t age s))"
proof -
  have "st_sound s \<Longrightarrow> st_sound (foldl (\<lambda>s uid. cleanupUpload E uid s) s uids)" for uids and s :: "'db Store"
    by (induction uids arbitrary: s) (simp_all add: cleanup_sound)
  then show ?thesis using assms by (simp add: st_AbortStaleUploads_def Let_def)
qed

lemma st_sound_multipart: "st_sound (s\<lparr>st_multipart := us\<rparr>) = st_sound s"
  by (simp add: st_sound_def)

lemma st_step_sound: "st_step B s s' \<Longrightarrow> st_sound s \<Longrightarrow> st_sound s'"
proof (induction rule: st_step.induct)
  case (do_create t b s r s')
  then have "s' = snd (st_CreateBucket B t b s)" by simp
  then show ?case using do_create bucket_step_sound(1) [of "st_meta s" B t b] by (simp add: st_CreateBucket_def st_sound_def)
next
  case (do_delete_bucket b s r s')
  then have "s' = snd (st_DeleteBucket B b s)" by simp
  then show ?case using do_delete_bucket bucket_step_sound(2) [of "st_meta s" B b] by (simp add: st_DeleteBucket_def st_sound_def)
next
  case (do_put E t b k body s x s')
  then show ?case using put_step_sound by blast
next
  case (do_put_write E body s w s')
  then show ?case using write_half_sound by blast
next
  case (do_put_register t b k data s r s')
  then show ?case using register_half_sound by blast
next
  case (do_delete E t b k vid s y s')
  then show ?case using delete_step_sound by blast
next
  case (do_new_upload rand t t' b k s y s')
  then show ?case
    by (auto simp: st_NewMultipartUpload_def Let_def st_sound_multipart split: outcome.splits)
next
  case (do_write_part E b k uid n body s z s')
  then show ?case using part_step_sound by blast
next
  case (do_record_part t uid n w s y s')
  then show ?case
    by (auto simp: UploadPart_record_def Let_def st_sound_multipart split: option.splits prod.splits)
next
  case (do_complete E t b k uid cps s r s')
  then show ?case using complete_step_sound by blast
next
  case (do_abort E b k uid s r s')
  then show ?case
    by (auto simp: st_AbortMultipartUpload_def cleanup_sound split: outcome.splits)
next
  case (do_reap E t age s m s')
  then show ?case using reap_step_sound [of s E t age] by simp
next
  case (do_log_entry op t s r m')
  then show ?case using fsm_Apply_sound [of "st_meta s" op t] by (simp add: st_sound_def)
qed

lemma blobs_intact_mkdir: "blobs_intact dir (dk\<lparr>dk_dirs := ds\<rparr>) = blobs_intact dir dk"
  by (simp add: blobs_intact_def blob_at_def)

lemma st_reach_sound: "st_reach B s \<Longrightarrow> st_sound s"
proof (induction rule: st_reach.induct)
  case (started dir dk E db s)
  then have "ms_objects (st_meta s) = []" "st_dataDir s = dir" "\<exists>ds. st_disk s = dk\<lparr>dk_dirs := ds\<rparr>"
    using NewMetaStore_Ok(1) [of B db]
    by (auto simp: st_New_def os_MkdirAll_def split: option.splits outcome.splits)
  then show ?case using started by (auto simp: st_sound_def meta_sound_def blobs_intact_mkdir)
next
  case (stepped s s')
  then show ?case using st_step_sound by blast
qed

section \<open>Reads in reachable states\<close>

lemma history_sound:
  assumes "meta_sound m" and "v \<in> set (ms_history m b k)"
  shows "version_sound v"
proof -
  obtain ks vst where ks: "map_of (ms_objects m) b = Some ks" "map_of ks k = Some vst" and v: "v \<in> set (vs_Versions vst)"
    using assms(2) ms_historyE [of m b k] by (metis empty_iff empty_set)
  have "keys_sound ks" using assms(1) ks(1) by (rule meta_sound_keys)
  with v map_of_SomeD [OF ks(2)] show ?thesis by (auto simp: keys_sound_def)
qed

lemma got_sound:
  assumes "meta_sound m" and "ms_GetObject b k v m = Ok meta"
  shows "version_sound meta"
proof -
  obtain ks vst i where "map_of (ms_objects m) b = Some ks" "map_of ks k = Some vst"
    "meta = vs_Versions vst ! i" "i < length (vs_Versions vst)"
    using assms(2) by (auto simp: ms_GetObject_def split: option.splits if_splits dest: find_version_Some)
  then have "meta \<in> set (ms_history m b k)" by (simp add: ms_history_def key_history_def)
  with assms(1) show ?thesis by (rule history_sound)
qed

lemma sound_reads:
  assumes sound: "st_sound s" and "st_GetObject E b k v s = Ok (data, meta)"
  shows "hex_EncodeToString (sha256_Sum256 data) = om_ETag meta \<and> om_Sha256 meta = om_ETag meta"
proof -
  note old = st_GetObject_OkD [OF assms(2)]
  have "om_Sha256 meta = sha_hex data" using sound old(2) by (auto simp: st_sound_def blobs_intact_def)
  moreover have "om_ETag meta = om_Sha256 meta"
    using got_sound [OF _ old(1)] sound by (simp add: st_sound_def version_sound_def)
  ultimately show ?thesis by (simp add: sha_hex_def)
qed

text \<open>What is read is what was stored: in every state that the store reaches by any calls, log entries
  and file system failures other than torn writes, from a data directory whose blobs are intact,
  an object that can be read has exactly the contents whose digest is its ETag.\<close>

lemma reachable_reads_match_etag:
  assumes "st_reach B s" and "st_GetObject E b k v s = Ok (data, meta)"
  shows "hex_EncodeToString (sha256_Sum256 data) = om_ETag meta \<and> om_Sha256 meta = om_ETag meta"
  using sound_reads [OF st_reach_sound [OF assms(1)] assms(2)] .

lemma demo_saved_reach:
  "\<exists>s vid s'. st_reach alist_bolt s \<and>
     st_PutObject os_ok 9 ''b'' ''k'' \<lparr>rd_data = ''hello'', rd_err = None\<rparr> s = (Ok (sha_hex ''hello'', vid), s') \<and>
     (\<exists>meta. st_GetObject os_ok ''b'' ''k'' '''' s' = Ok (''hello'', meta))"
proof -
  let ?dk = "\<lparr>dk_dirs = [], dk_files = []\<rparr>"
  let ?s0 = "\<lparr>st_dataDir = [''data''], st_meta = demo_opened, st_raft = None, st_multipart = [],
    st_region = '''', st_disk = \<lparr>dk_dirs = [[''data'', ''blobs'']], dk_files = []\<rparr>\<rparr>"
  have "st_reach alist_bolt ?s0"
  proof (rule started)
    show "blobs_intact [''data''] ?dk" by (simp add: blobs_intact_def blob_at_def)
    show "st_New os_ok alist_bolt [] [''data''] ?dk = Ok ?s0"
      by (simp add: st_New_def os_MkdirAll_def NewMetaStore_def OpenBucketDB_def alist_bolt_def bucketdb_defs
          cache_of_def ordered_entries_def newMultipartState_def demo_opened_def)
  qed
  then have reach: "st_reach alist_bolt (snd (st_CreateBucket alist_bolt 1 ''b'' ?s0))" (is "st_reach _ ?s1")
    using do_create [OF surjective_pairing] stepped by blast
  have m1: "st_meta ?s1 = snd (ms_CreateBucket alist_bolt 1 ''b'' demo_opened)"
    by (simp add: st_CreateBucket_def)
  have facts: "ms_wf (st_meta ?s1)" "ms_writable (st_meta ?s1) ''b''" "ms_room (st_meta ?s1) ''b'' ''k''"
    unfolding m1
    by (simp_all add: ms_CreateBucket_def demo_opened_def BucketDB_Create_def bolt_Update_def alist_bolt_def
        ms_wf_def ms_writable_def map_bool_def ms_room_def ms_next_def key_next_def)
  have "accepts ?s1" "blobs_intact (st_dataDir ?s1) (st_disk ?s1)"
    by (simp_all add: st_CreateBucket_def accepts_def blobs_intact_def blob_at_def)
  moreover have "ReadAll_limit MaxObjectSize \<lparr>rd_data = ''hello'', rd_err = None\<rparr> = Ok ''hello''"
    by (simp add: ReadAll_limit_def MaxObjectSize_def)
  ultimately show ?thesis
    using put_reads_back [OF facts _ demo_names(1,2), of _ "''hello''" 9] reach by blast
qed

lemma reachable_reads_match_etag_example:
  "\<exists>s meta. st_reach alist_bolt s \<and> st_GetObject os_ok ''b'' ''k'' '''' s = Ok (''hello'', meta) \<and>
     hex_EncodeToString (sha256_Sum256 ''hello'') = om_ETag meta"
proof -
  obtain s vid s' meta where s: "st_reach alist_bolt s"
    "st_PutObject os_ok 9 ''b'' ''k'' \<lparr>rd_data = ''hello'', rd_err = None\<rparr> s = (Ok (sha_hex ''hello'', vid), s')"
    "st_GetObject os_ok ''b'' ''k'' '''' s' = Ok (''hello'', meta)"
    using demo_saved_reach by blast
  have "os_atomic os_ok" by (simp add: os_atomic_def)
  then have "st_reach alist_bolt s'" using stepped [OF s(1)] do_put s(2) by blast
  then show ?thesis using reachable_reads_match_etag s(3) by blast
qed

end
