(* ===== verification/Http.thy ===== *)
theory Http
  imports Store
begin

text \<open>
  What the HTTP layer uses of the standard library: \<^verbatim>\<open>strings\<close> and \<^verbatim>\<open>strconv\<close> on header and
  query values, \<^verbatim>\<open>net/url\<close> (query parsing and encoding, the escaped path), header lookup with
  canonical names, and requests and responses as \<^verbatim>\<open>net/http\<close> hands them to a handler. A request
  body is the reader of the storage engine.
\<close>

section \<open>Strings\<close>

fun split_on :: "char \<Rightarrow> string \<Rightarrow> string list" where
  "split_on c [] = [[]]"
| "split_on c (x # xs) =
     (if x = c then [] # split_on c xs
      else case split_on c xs of [] \<Rightarrow> [[x]] | w # ws \<Rightarrow> (x # w) # ws)"

text \<open>\<^verbatim>\<open>strings.Cut\<close>; \<^verbatim>\<open>SplitN(s, sep, 2)\<close> has two parts exactly when the separator was found.\<close>

fun cut :: "char \<Rightarrow> string \<Rightarrow> string \<times> string option" where
  "cut c [] = ([], None)"
| "cut c (x # xs) =
     (if x = c then ([], Some xs) else case cut c xs of (b, a) \<Rightarrow> (x # b, a))"

fun join_with :: "string \<Rightarrow> string list \<Rightarrow> string" where
  "join_with sep [] = []"
| "join_with sep [w] = w"
| "join_with sep (w # ws) = w @ sep @ join_with sep ws"

definition HasPrefix :: "string \<Rightarrow> string \<Rightarrow> bool" where
  "HasPrefix s p = prefix p s"

definition TrimPrefix :: "string \<Rightarrow> string \<Rightarrow> string" where
  "TrimPrefix s p = (if prefix p s then drop (length p) s else s)"

definition TrimSuffix :: "string \<Rightarrow> string \<Rightarrow> string" where
  "TrimSuffix s p = (if suffix p s then take (length s - length p) s else s)"

text \<open>\<^verbatim>\<open>strings.TrimSpace\<close>, on text in which white space is ASCII.\<close>

definition is_space :: "char \<Rightarrow> bool" where
  "is_space c = (c \<in> set [CHR 0x09, CHR 0x0A, CHR 0x0B, CHR 0x0C, CHR 0x0D, CHR 0x20])"

definition TrimSpace :: "string \<Rightarrow> string" where
  "TrimSpace s = rev (dropWhile is_space (rev (dropWhile is_space s)))"

definition contains :: "string \<Rightarrow> string \<Rightarrow> bool" where
  "contains s sub = list_ex (\<lambda>i. prefix sub (drop i s)) [0..<Suc (length s)]"

definition is_digit :: "char \<Rightarrow> bool" where
  "is_digit c = (CHR ''0'' \<le> c \<and> c \<le> CHR ''9'')"

text \<open>\<^verbatim>\<open>strconv.Atoi\<close> on a 64-bit platform.\<close>

definition parse_digits :: "string \<Rightarrow> int option" where
  "parse_digits ds = (if ds \<noteq> [] \<and> list_all is_digit ds then Some (int (digits_val ds)) else None)"

definition in_int64 :: "int \<Rightarrow> bool" where
  "in_int64 i = (- (2 ^ 63) \<le> i \<and> i < 2 ^ 63)"

definition Atoi :: "string \<Rightarrow> int option" where
  "Atoi s =
     (case (case s of
              c # ds \<Rightarrow>
                if c = CHR ''-'' then map_option uminus (parse_digits ds)
                else if c = CHR ''+'' then parse_digits ds
                else parse_digits s
            | [] \<Rightarrow> None) of
        Some i \<Rightarrow> if in_int64 i then Some i else None
      | None \<Rightarrow> None)"

section \<open>URLs\<close>

definition between :: "char \<Rightarrow> char \<Rightarrow> char \<Rightarrow> bool" where
  "between lo hi c = (lo \<le> c \<and> c \<le> hi)"

definition is_alnum :: "char \<Rightarrow> bool" where
  "is_alnum c = (between (CHR ''a'') (CHR ''z'') c \<or> between (CHR ''A'') (CHR ''Z'') c \<or> is_digit c)"

definition is_unreserved :: "char \<Rightarrow> bool" where
  "is_unreserved c = (is_alnum c \<or> c \<in> set ''-_.~'')"

definition upper_hex :: "nat \<Rightarrow> char" where
  "upper_hex n = ''0123456789ABCDEF'' ! n"

definition percent :: "char \<Rightarrow> string" where
  "percent c = [CHR ''%'', upper_hex (of_char c div 16), upper_hex (of_char c mod 16)]"

definition QueryEscape :: "string \<Rightarrow> string" where
  "QueryEscape s =
     concat (map (\<lambda>c. if is_unreserved c then [c] else if c = CHR '' '' then ''+'' else percent c) s)"

definition keeps_in_path :: "char \<Rightarrow> bool" where
  "keeps_in_path c = (is_unreserved c \<or> c \<in> set ''$&+,/:;=@'')"

definition path_escape :: "string \<Rightarrow> string" where
  "path_escape s = concat (map (\<lambda>c. if keeps_in_path c then [c] else percent c) s)"

definition unhex :: "char \<Rightarrow> nat option" where
  "unhex c =
     (if is_digit c then Some (of_char c - 48)
      else if CHR ''a'' \<le> c \<and> c \<le> CHR ''f'' then Some (of_char c - 87)
      else if CHR ''A'' \<le> c \<and> c \<le> CHR ''F'' then Some (of_char c - 55)
      else None)"

text \<open>\<open>isq\<close> says whether a plus sign stands for a space, as it does in a query.\<close>

fun url_unescape :: "bool \<Rightarrow> string \<Rightarrow> string option" where
  "url_unescape isq [] = Some []"
| "url_unescape isq (c # s) =
     (if c = CHR ''%'' then
        (case s of
           a # b # r \<Rightarrow>
             (case (unhex a, unhex b) of
                (Some x, Some y) \<Rightarrow> map_option ((#) (char_of (16 * x + y))) (url_unescape isq r)
              | _ \<Rightarrow> None)
         | _ \<Rightarrow> None)
      else map_option ((#) (if isq \<and> c = CHR ''+'' then CHR '' '' else c)) (url_unescape isq s))"

definition valid_encoded_path :: "string \<Rightarrow> bool" where
  "valid_encoded_path s = list_all (\<lambda>c. keeps_in_path c \<or> c \<in> set (CHR 0x27 # ''!()*[]%'')) s"

record URL =
  u_Scheme :: string
  u_Path :: string
  u_RawPath :: string
  u_RawQuery :: string

definition EscapedPath :: "URL \<Rightarrow> string" where
  "EscapedPath u =
     (if u_RawPath u \<noteq> '''' \<and> valid_encoded_path (u_RawPath u) \<and>
         url_unescape False (u_RawPath u) = Some (u_Path u) then u_RawPath u
      else if u_Path u = ''*'' then ''*''
      else path_escape (u_Path u))"

type_synonym url_values = "(string, string list) gomap"

text \<open>One setting of \<^verbatim>\<open>url.ParseQuery\<close>; a setting that is malformed is skipped.\<close>

definition add_setting :: "url_values \<Rightarrow> string \<Rightarrow> url_values" where
  "add_setting m setting =
     (if setting = '''' \<or> CHR '';'' \<in> set setting then m
      else case cut (CHR ''='') setting of
        (k, v) \<Rightarrow>
          (case (url_unescape True k, url_unescape True (case v of Some v \<Rightarrow> v | None \<Rightarrow> '''')) of
             (Some k, Some v) \<Rightarrow>
               AList.update k ((case map_of m k of Some vs \<Rightarrow> vs | None \<Rightarrow> []) @ [v]) m
           | _ \<Rightarrow> m))"

definition url_Query :: "URL \<Rightarrow> url_values" where
  "url_Query u = foldl add_setting [] (split_on (CHR ''&'') (u_RawQuery u))"

definition values_Get :: "url_values \<Rightarrow> string \<Rightarrow> string" where
  "values_Get q k = (case map_of q k of Some (v # _) \<Rightarrow> v | _ \<Rightarrow> '''')"

definition values_Has :: "url_values \<Rightarrow> string \<Rightarrow> bool" where
  "values_Has q k = (map_of q k \<noteq> None)"

definition values_Encode :: "url_values \<Rightarrow> string" where
  "values_Encode q =
     join_with ''&''
       (concat (map (\<lambda>k. map (\<lambda>v. QueryEscape k @ ''='' @ QueryEscape v)
                       (case map_of q k of Some vs \<Rightarrow> vs | None \<Rightarrow> []))
                  (sort (map fst q))))"

section \<open>Headers\<close>

definition is_token :: "char \<Rightarrow> bool" where
  "is_token c = (is_alnum c \<or> c \<in> set (CHR 0x27 # CHR 0x60 # ''!#$%&*+-.^_|~''))"

definition to_upper :: "char \<Rightarrow> char" where
  "to_upper c = (if CHR ''a'' \<le> c \<and> c \<le> CHR ''z'' then char_of (of_char c - 32 :: nat) else c)"

definition to_lower :: "char \<Rightarrow> char" where
  "to_lower c = (if CHR ''A'' \<le> c \<and> c \<le> CHR ''Z'' then char_of (of_char c + 32 :: nat) else c)"

fun canonical_key :: "bool \<Rightarrow> string \<Rightarrow> string" where
  "canonical_key up [] = []"
| "canonical_key up (c # cs) =
     (let d = (if up then to_upper c else to_lower c) in d # canonical_key (d = CHR ''-'') cs)"

definition CanonicalHeaderKey :: "string \<Rightarrow> string" where
  "CanonicalHeaderKey s = (if list_all is_token s then canonical_key True s else s)"

type_synonym header = "(string, string list) gomap"

definition header_Get :: "header \<Rightarrow> string \<Rightarrow> string" where
  "header_Get h k = (case map_of h (CanonicalHeaderKey k) of Some (v # _) \<Rightarrow> v | _ \<Rightarrow> '''')"

section \<open>Requests and responses\<close>

record request =
  rq_Method :: string
  rq_URL :: URL
  rq_Host :: string
  rq_Header :: header
  rq_Body :: reader

text \<open>The body of a response: bytes, or an XML document kept as a tree.\<close>

datatype xml = XText string | XElem string "(string \<times> string) list" "xml list"

datatype body = BNone | BBytes bytes | BXml xml

record response =
  rs_Status :: nat
  rs_Header :: "(string, string) gomap"
  rs_Body :: body

definition status_only :: "nat \<Rightarrow> response" where
  "status_only code = \<lparr>rs_Status = code, rs_Header = [], rs_Body = BNone\<rparr>"

text \<open>\<^verbatim>\<open>http.Error\<close>.\<close>

definition http_Error :: "string \<Rightarrow> nat \<Rightarrow> response" where
  "http_Error msg code =
     \<lparr>rs_Status = code,
      rs_Header = [(''Content-Type'', ''text/plain; charset=utf-8''), (''X-Content-Type-Options'', ''nosniff'')],
      rs_Body = BBytes (msg @ [CHR 0x0A])\<rparr>"

section \<open>Lemmas\<close>

lemma split_on_nonempty [simp]: "split_on c s \<noteq> []"
  by (induction s) (auto split: list.split)

lemma split_on_absent: "c \<notin> set s \<Longrightarrow> split_on c s = [s]"
  by (induction s) auto

lemma split_on_append: "c \<notin> set s \<Longrightarrow> split_on c (s @ c # t) = s # split_on c t"
  by (induction s) auto

lemma split_join:
  assumes "ws \<noteq> []" and "\<forall>w \<in> set ws. c \<notin> set w"
  shows "split_on c (join_with [c] ws) = ws"
  using assms by (induction "[c]" ws rule: join_with.induct) (auto simp: split_on_absent split_on_append)

lemma cut_absent: "c \<notin> set s \<Longrightarrow> cut c s = (s, None)"
  by (induction s) auto

lemma cut_append: "c \<notin> set s \<Longrightarrow> cut c (s @ c # t) = (s, Some t)"
  by (induction s) auto

lemma TrimSpace_id:
  assumes "s = [] \<or> \<not> is_space (hd s) \<and> \<not> is_space (last s)"
  shows "TrimSpace s = s"
proof (cases "s = []")
  case False
  with assms have "dropWhile is_space s = s" "dropWhile is_space (rev s) = rev s"
    by (simp_all add: dropWhile_eq_self_iff hd_rev)
  then show ?thesis by (simp add: TrimSpace_def)
qed (simp add: TrimSpace_def)

lemma TrimSpace_leading: "TrimSpace (CHR '' '' # s) = TrimSpace s"
  by (simp add: TrimSpace_def is_space_def)

lemma nat_digits_digits: "list_all is_digit (nat_digits n)"
proof -
  have "\<forall>c \<in> set ''0123456789''. is_digit c" by (simp add: is_digit_def less_eq_char_def)
  then show ?thesis using nat_digits_chars [of n] by (auto simp: list_all_iff)
qed

text \<open>\<^verbatim>\<open>Atoi\<close> reads back what \<^verbatim>\<open>FormatInt\<close> writes.\<close>

lemma parse_nat_digits: "parse_digits (nat_digits n) = Some (int n)"
  by (simp add: parse_digits_def nat_digits_digits)

lemma Atoi_FormatInt: "in_int64 i \<Longrightarrow> Atoi (FormatInt i) = Some i"
proof -
  assume i: "in_int64 i"
  show ?thesis
  proof (cases "i < 0")
    case True
    then show ?thesis using i by (simp add: FormatInt_def Atoi_def parse_nat_digits)
  next
    case False
    obtain c ds where cs: "nat_digits (nat i) = c # ds" by (metis nat_digits_nonempty neq_Nil_conv)
    have "c \<in> set (nat_digits (nat i))" by (simp add: cs)
    then have "c \<in> set ''0123456789''" by (rule subsetD [OF nat_digits_chars])
    then have c: "c \<noteq> CHR ''-''" "c \<noteq> CHR ''+''" by auto
    have "parse_digits (c # ds) = Some i" using parse_nat_digits [of "nat i"] False by (simp add: cs)
    then show ?thesis using False i c by (simp add: FormatInt_def Atoi_def cs)
  qed
qed

end
