(* ===== verification/SigV4.thy ===== *)
theory SigV4
  imports Http
begin

text \<open>
  Request authentication (\<^verbatim>\<open>internal/api/sigv4.go\<close>): parsing of the \<^verbatim>\<open>Authorization\<close> header, the
  canonical request, and the chain of keyed digests that makes the signature. The properties say that
  a request signed by a client that holds the secret is accepted, and that a signature binds the parts
  of the request that the canonical form holds, and nothing else.
\<close>

section \<open>Definitions\<close>

record sigv4Auth =
  sa_accessKey :: string
  sa_date :: string
  sa_datetime :: string
  sa_region :: string
  sa_service :: string
  sa_signedHeaders :: "string list"
  sa_signature :: string

definition zero_auth :: sigv4Auth where
  "zero_auth = \<lparr>sa_accessKey = '''', sa_date = '''', sa_datetime = '''', sa_region = '''',
     sa_service = '''', sa_signedHeaders = [], sa_signature = ''''\<rparr>"

definition algorithm :: string where
  "algorithm = ''AWS4-HMAC-SHA256 ''"

text \<open>The loop over the comma-separated fields; \<open>None\<close> is the early return for a malformed
  credential scope.\<close>

fun parse_fields :: "string list \<Rightarrow> sigv4Auth \<Rightarrow> sigv4Auth option" where
  "parse_fields [] a = Some a"
| "parse_fields (f # fs) a =
     (case cut (CHR ''='') (TrimSpace f) of
        (_, None) \<Rightarrow> parse_fields fs a
      | (k, Some v) \<Rightarrow>
          if k = ''Credential'' then
            (case split_on (CHR ''/'') v of
               [ak, date, region, service, scope_end] \<Rightarrow>
                 if scope_end \<noteq> ''aws4_request'' then None
                 else parse_fields fs (a\<lparr>sa_accessKey := ak, sa_date := date, sa_region := region,
                                         sa_service := service\<rparr>)
             | _ \<Rightarrow> None)
          else if k = ''SignedHeaders'' then
            parse_fields fs (a\<lparr>sa_signedHeaders := split_on (CHR '';'') v\<rparr>)
          else if k = ''Signature'' then parse_fields fs (a\<lparr>sa_signature := v\<rparr>)
          else parse_fields fs a)"

definition parseSigV4 :: "request \<Rightarrow> sigv4Auth option" where
  "parseSigV4 r =
     (let h = header_Get (rq_Header r) ''Authorization''
      in if \<not> HasPrefix h algorithm then None
         else case parse_fields (split_on (CHR '','') (TrimPrefix h algorithm)) zero_auth of
           None \<Rightarrow> None
         | Some a \<Rightarrow>
             (let a = a\<lparr>sa_datetime := header_Get (rq_Header r) ''X-Amz-Date''\<rparr>
              in if sa_accessKey a = '''' \<or> sa_signature a = '''' \<or> sa_datetime a = '''' then None
                 else Some a))"

text \<open>The body is read, and put back, only when the header does not name a digest.\<close>

definition payloadHash :: "request \<Rightarrow> string outcome \<times> request" where
  "payloadHash r =
     (let h = header_Get (rq_Header r) ''X-Amz-Content-Sha256''
      in if h \<noteq> '''' then (Ok h, r)
         else case rd_err (rq_Body r) of
           Some e \<Rightarrow> (Err e, r)
         | None \<Rightarrow>
             (Ok (hex_EncodeToString (sha256_Sum256 (rd_data (rq_Body r)))),
              r\<lparr>rq_Body := \<lparr>rd_data = rd_data (rq_Body r), rd_err = None\<rparr>\<rparr>))"

definition hmacSHA :: "bytes \<Rightarrow> string \<Rightarrow> bytes" where
  "hmacSHA key data = hmac_sha256 key data"

definition sha256Hex :: "bytes \<Rightarrow> string" where
  "sha256Hex data = hex_EncodeToString (sha256_Sum256 data)"

definition NL :: string where
  "NL = [CHR 0x0A]"

text \<open>The map of the headers that are signed, whose iteration order the sorting removes.\<close>

definition signed_map :: "request \<Rightarrow> string list \<Rightarrow> (string, string) gomap" where
  "signed_map r signedHeaders =
     foldl (\<lambda>m h. if h = ''host'' then m else AList.update h (TrimSpace (header_Get (rq_Header r) h)) m)
       [(''host'', rq_Host r)] signedHeaders"

definition canonical_headers :: "(string, string) gomap \<Rightarrow> string list \<Rightarrow> string" where
  "canonical_headers headers names =
     concat (map (\<lambda>n. n @ '':'' @ (case map_of headers n of Some v \<Rightarrow> v | None \<Rightarrow> '''') @ NL) names)"

definition buildCanonicalRequest :: "request \<Rightarrow> string list \<Rightarrow> string \<Rightarrow> string" where
  "buildCanonicalRequest r signedHeaders payload =
     (let headers = signed_map r signedHeaders;
          names = sort (map fst headers)
      in join_with NL
           [rq_Method r, EscapedPath (rq_URL r), values_Encode (url_Query (rq_URL r)),
            canonical_headers headers names, join_with '';'' names, payload])"

definition string_to_sign :: "sigv4Auth \<Rightarrow> string \<Rightarrow> string" where
  "string_to_sign a canonicalReq =
     ''AWS4-HMAC-SHA256'' @ NL @ sa_datetime a @ NL @
     (sa_date a @ ''/'' @ sa_region a @ ''/'' @ sa_service a @ ''/aws4_request'') @ NL @
     sha256Hex canonicalReq"

definition signing_key :: "string \<Rightarrow> sigv4Auth \<Rightarrow> bytes" where
  "signing_key secretKey a =
     (let kDate = hmacSHA (''AWS4'' @ secretKey) (sa_date a);
          kRegion = hmacSHA kDate (sa_region a);
          kService = hmacSHA kRegion (sa_service a)
      in hmacSHA kService ''aws4_request'')"

definition computeSignature :: "string \<Rightarrow> sigv4Auth \<Rightarrow> request \<Rightarrow> string \<Rightarrow> string" where
  "computeSignature secretKey a r payload =
     hex_EncodeToString
       (hmacSHA (signing_key secretKey a)
          (string_to_sign a (buildCanonicalRequest r (sa_signedHeaders a) payload)))"

definition verifySigV4 :: "string \<Rightarrow> string \<Rightarrow> request \<Rightarrow> bool \<times> request" where
  "verifySigV4 accessKey secretKey r =
     (case parseSigV4 r of
        None \<Rightarrow> (False, r)
      | Some auth \<Rightarrow>
          if sa_accessKey auth \<noteq> accessKey then (False, r)
          else case payloadHash r of
            (Ok payload, r') \<Rightarrow> (computeSignature secretKey auth r' payload = sa_signature auth, r')
          | (_, r') \<Rightarrow> (False, r'))"

section \<open>Clients\<close>

text \<open>How a client signs: the header it sends for a signature over its request.\<close>

definition auth_header :: "sigv4Auth \<Rightarrow> string" where
  "auth_header a =
     algorithm @ ''Credential='' @
     join_with ''/'' [sa_accessKey a, sa_date a, sa_region a, sa_service a, ''aws4_request''] @
     '', SignedHeaders='' @ join_with '';'' (sa_signedHeaders a) @ '', Signature='' @ sa_signature a"

definition set_header :: "string \<Rightarrow> string \<Rightarrow> request \<Rightarrow> request" where
  "set_header k v r = r\<lparr>rq_Header := AList.update k [v] (rq_Header r)\<rparr>"

definition sign_request :: "string \<Rightarrow> sigv4Auth \<Rightarrow> string \<Rightarrow> request \<Rightarrow> request" where
  "sign_request secretKey a payload r =
     (let r' = set_header ''X-Amz-Content-Sha256'' payload (set_header ''X-Amz-Date'' (sa_datetime a) r)
      in set_header ''Authorization''
           (auth_header (a\<lparr>sa_signature := computeSignature secretKey a r' payload\<rparr>)) r')"

text \<open>Values that can be written into the header: no separators inside them.\<close>

definition auth_wf :: "sigv4Auth \<Rightarrow> bool" where
  "auth_wf a =
     (list_all (\<lambda>s. CHR ''/'' \<notin> set s \<and> CHR '','' \<notin> set s) [sa_accessKey a, sa_date a, sa_region a, sa_service a] \<and>
      sa_accessKey a \<noteq> '''' \<and> sa_datetime a \<noteq> '''' \<and> sa_signedHeaders a \<noteq> [] \<and>
      list_all (\<lambda>h. h \<noteq> '''' \<and> list_all is_token h \<and> CanonicalHeaderKey h \<noteq> ''Authorization'') (sa_signedHeaders a))"

section \<open>Lemmas\<close>

lemma canonical_names [simp]:
  "CanonicalHeaderKey ''Authorization'' = ''Authorization''"
  "CanonicalHeaderKey ''X-Amz-Date'' = ''X-Amz-Date''"
  "CanonicalHeaderKey ''X-Amz-Content-Sha256'' = ''X-Amz-Content-Sha256''"
  by code_simp+

lemma header_Get_set:
  "header_Get (rq_Header (set_header k v r)) k' =
     (if CanonicalHeaderKey k' = k then v else header_Get (rq_Header r) k')"
  by (simp add: header_Get_def set_header_def)

lemma set_header_simps [simp]:
  "rq_Method (set_header k v r) = rq_Method r" "rq_URL (set_header k v r) = rq_URL r"
  "rq_Host (set_header k v r) = rq_Host r" "rq_Body (set_header k v r) = rq_Body r"
  by (simp_all add: set_header_def)

lemma signed_map_cong:
  assumes "rq_Host r = rq_Host r'"
    and "\<And>h. h \<in> set hs \<Longrightarrow> header_Get (rq_Header r) h = header_Get (rq_Header r') h"
  shows "signed_map r hs = signed_map r' hs"
  unfolding signed_map_def using assms by (intro foldl_cong) auto

lemma canonical_request_cong:
  assumes "rq_Method r = rq_Method r'" "rq_URL r = rq_URL r'" "rq_Host r = rq_Host r'"
    and "\<And>h. h \<in> set hs \<Longrightarrow> header_Get (rq_Header r) h = header_Get (rq_Header r') h"
  shows "buildCanonicalRequest r hs p = buildCanonicalRequest r' hs p"
  using assms signed_map_cong [OF assms(3,4)] by (simp add: buildCanonicalRequest_def)

lemma token_not_separator:
  "is_token c \<Longrightarrow> c \<noteq> CHR '','' \<and> c \<noteq> CHR '';'' \<and> \<not> is_space c"
  by (auto simp: is_token_def is_alnum_def between_def is_digit_def is_space_def less_eq_char_def)

lemma join_with_chars: "set (join_with sep ws) \<subseteq> set sep \<union> \<Union> (set ` set ws)"
  by (induction sep ws rule: join_with.induct) auto

lemma join_with_last:
  "ws \<noteq> [] \<Longrightarrow> last ws \<noteq> [] \<Longrightarrow> join_with sep ws \<noteq> [] \<and> last (join_with sep ws) = last (last ws)"
  by (induction sep ws rule: join_with.induct) auto

lemma hex_char_not_space: "c \<in> set (hex_EncodeToString bs) \<Longrightarrow> \<not> is_space c \<and> c \<noteq> CHR '',''"
proof -
  assume "c \<in> set (hex_EncodeToString bs)"
  then have "c \<in> set ''0123456789abcdef''" by (rule subsetD [OF hex_chars])
  then show ?thesis by (auto simp: is_space_def)
qed

lemma parse_credential:
  assumes "list_all (\<lambda>s. CHR ''/'' \<notin> set s) [ak, d, rg, sv]"
  shows "parse_fields ((''Credential='' @ join_with ''/'' [ak, d, rg, sv, ''aws4_request'']) # fs) a =
    parse_fields fs (a\<lparr>sa_accessKey := ak, sa_date := d, sa_region := rg, sa_service := sv\<rparr>)"
proof -
  let ?cred = "join_with ''/'' [ak, d, rg, sv, ''aws4_request'']"
  have "TrimSpace (''Credential='' @ ?cred) = ''Credential'' @ CHR ''='' # ?cred"
    by (subst TrimSpace_id) (simp_all add: is_space_def)
  moreover have "split_on (CHR ''/'') ?cred = [ak, d, rg, sv, ''aws4_request'']"
    using assms by (intro split_join) auto
  ultimately show ?thesis
    using cut_append [of "CHR ''=''" "''Credential''" ?cred] by (simp del: join_with.simps)
qed

lemma parse_signed_headers:
  assumes "hs \<noteq> []" and "list_all (\<lambda>h. h \<noteq> '''' \<and> list_all is_token h) hs"
  shows "parse_fields ((CHR '' '' # ''SignedHeaders='' @ join_with '';'' hs) # fs) a =
    parse_fields fs (a\<lparr>sa_signedHeaders := hs\<rparr>)"
proof -
  let ?v = "join_with '';'' hs"
  have "last hs \<in> set hs" using assms(1) by simp
  then have lst: "last hs \<noteq> []" "list_all is_token (last hs)" using assms(2) by (auto simp: list_all_iff)
  then have "\<not> is_space (last (last hs))" using token_not_separator by (auto simp: list_all_iff)
  with join_with_last [OF assms(1) lst(1)] have "TrimSpace (''SignedHeaders='' @ ?v) = ''SignedHeaders='' @ ?v"
    by (intro TrimSpace_id) (simp add: is_space_def)
  then have "TrimSpace (CHR '' '' # ''SignedHeaders='' @ ?v) = ''SignedHeaders'' @ CHR ''='' # ?v"
    by (simp add: TrimSpace_leading)
  moreover have "split_on (CHR '';'') ?v = hs"
    using assms token_not_separator by (intro split_join) (auto simp: list_all_iff)
  ultimately show ?thesis
    using cut_append [of "CHR ''=''" "''SignedHeaders''" ?v] by simp
qed

lemma parse_signature:
  assumes "sig = hex_EncodeToString bs" and "bs \<noteq> []"
  shows "parse_fields ((CHR '' '' # ''Signature='' @ sig) # fs) a = parse_fields fs (a\<lparr>sa_signature := sig\<rparr>)"
proof -
  have "sig \<noteq> []" using assms by (cases bs) auto
  then have "\<not> is_space (last sig)" using hex_char_not_space assms(1) last_in_set by blast
  then have "TrimSpace (''Signature='' @ sig) = ''Signature='' @ sig"
    using \<open>sig \<noteq> []\<close> by (intro TrimSpace_id) (simp add: is_space_def)
  then have "TrimSpace (CHR '' '' # ''Signature='' @ sig) = ''Signature'' @ CHR ''='' # sig"
    by (simp add: TrimSpace_leading)
  then show ?thesis using cut_append [of "CHR ''=''" "''Signature''" sig] by simp
qed

lemma split_three:
  "c \<notin> set x \<Longrightarrow> c \<notin> set y \<Longrightarrow> c \<notin> set z \<Longrightarrow> split_on c (x @ c # y @ c # z) = [x, y, z]"
  by (simp add: split_on_append split_on_absent)

text \<open>What a client writes into the header is what the server reads from it.\<close>

lemma parse_auth_header:
  assumes "auth_wf a" and "sa_signature a = hex_EncodeToString bs" and "bs \<noteq> []"
    and "header_Get (rq_Header r) ''Authorization'' = auth_header a"
    and "header_Get (rq_Header r) ''X-Amz-Date'' = sa_datetime a"
  shows "parseSigV4 r = Some a"
proof -
  let ?c = "''Credential='' @ join_with ''/'' [sa_accessKey a, sa_date a, sa_region a, sa_service a, ''aws4_request'']"
  let ?h = "CHR '' '' # ''SignedHeaders='' @ join_with '';'' (sa_signedHeaders a)"
  let ?s = "CHR '' '' # ''Signature='' @ sa_signature a"
  have h: "auth_header a = algorithm @ ?c @ CHR '','' # ?h @ CHR '','' # ?s"
    by (simp add: auth_header_def)
  have "CHR '','' \<notin> set ?c" using assms(1) by (auto simp: auth_wf_def)
  moreover have "CHR '','' \<notin> set ?h"
    using assms(1) join_with_chars [of "'';''" "sa_signedHeaders a"] token_not_separator
    by (fastforce simp: auth_wf_def list_all_iff)
  moreover have "CHR '','' \<notin> set ?s" using assms(2) hex_char_not_space by auto
  ultimately have "split_on (CHR '','') (?c @ CHR '','' # ?h @ CHR '','' # ?s) = [?c, ?h, ?s]"
    by (rule split_three)
  moreover have "HasPrefix (auth_header a) algorithm"
    "TrimPrefix (auth_header a) algorithm = ?c @ CHR '','' # ?h @ CHR '','' # ?s"
    by (simp_all add: h HasPrefix_def TrimPrefix_def)
  moreover have "parse_fields [?c, ?h, ?s] zero_auth = Some (a\<lparr>sa_datetime := ''''\<rparr>)"
  proof -
    have wf: "list_all (\<lambda>s. CHR ''/'' \<notin> set s) [sa_accessKey a, sa_date a, sa_region a, sa_service a]"
      "sa_signedHeaders a \<noteq> []" "list_all (\<lambda>h. h \<noteq> '''' \<and> list_all is_token h) (sa_signedHeaders a)"
      using assms(1) by (auto simp: auth_wf_def list_all_iff)
    show ?thesis
      unfolding parse_credential [OF wf(1)] parse_signed_headers [OF wf(2,3)] parse_signature [OF assms(2,3)]
      by (simp add: zero_auth_def)
  qed
  moreover have "sa_signature a \<noteq> ''''" using assms(2,3) by (cases bs) auto
  ultimately show ?thesis
    using assms(1,4,5) by (simp add: parseSigV4_def Let_def auth_wf_def)
qed

section \<open>Canonical requests are injective\<close>

lemma append_NL_inject:
  assumes "CHR 0x0A \<notin> set x" and "CHR 0x0A \<notin> set y" and "x @ NL @ s = y @ NL @ t"
  shows "x = y" and "s = t"
proof -
  have "cut (CHR 0x0A) (x @ CHR 0x0A # s) = cut (CHR 0x0A) (y @ CHR 0x0A # t)"
    using assms(3) by (simp add: NL_def)
  then show "x = y" "s = t" using cut_append [OF assms(1)] cut_append [OF assms(2)] by auto
qed

lemma canonical_headers_inject:
  assumes "\<forall>n \<in> set names. CHR 0x0A \<notin> set (case map_of m n of Some v \<Rightarrow> v | None \<Rightarrow> '''') \<and>
      CHR 0x0A \<notin> set (case map_of m' n of Some v \<Rightarrow> v | None \<Rightarrow> '''')"
    and "canonical_headers m names @ s = canonical_headers m' names @ t"
  shows "s = t" and "n \<in> set names \<Longrightarrow>
      (case map_of m n of Some v \<Rightarrow> v | None \<Rightarrow> '''') = (case map_of m' n of Some v \<Rightarrow> v | None \<Rightarrow> '''')"
proof -
  let ?v = "\<lambda>m n. case map_of m n of Some v \<Rightarrow> v | None \<Rightarrow> ''''"
  have "s = t \<and> (\<forall>n \<in> set names. ?v m n = ?v m' n)"
    using assms
  proof (induction names)
    case Nil
    then show ?case by (simp add: canonical_headers_def)
  next
    case (Cons a names)
    have eq: "?v m a @ NL @ (canonical_headers m names @ s) = ?v m' a @ NL @ (canonical_headers m' names @ t)"
      using Cons.prems(2) by (simp add: canonical_headers_def)
    have "CHR 0x0A \<notin> set (?v m a)" "CHR 0x0A \<notin> set (?v m' a)" using Cons.prems(1) by simp_all
    note inj = append_NL_inject [OF this eq]
    then show ?case using Cons.IH [OF _ inj(2)] Cons.prems(1) by simp
  qed
  then show "s = t" "n \<in> set names \<Longrightarrow> ?v m n = ?v m' n" by auto
qed

lemma percent_no_NL: "CHR 0x0A \<notin> set (percent c)"
proof -
  have "n < 16 \<Longrightarrow> upper_hex n \<in> set ''0123456789ABCDEF''" for n
    unfolding upper_hex_def by (rule nth_mem) simp
  moreover have "of_char c div 16 < (16::nat)" using nat_of_char_less_256 [of c] by arith
  moreover have "CHR 0x0A \<notin> set ''0123456789ABCDEF''" by simp
  ultimately have "upper_hex (of_char c div 16) \<noteq> CHR 0x0A" "upper_hex (of_char c mod 16) \<noteq> CHR 0x0A"
    by (metis, metis mod_less_divisor zero_less_numeral)
  then show ?thesis by (auto simp: percent_def dest: sym)
qed

lemma no_NL [simp]: "\<not> is_unreserved (CHR 0x0A)" "\<not> keeps_in_path (CHR 0x0A)"
  by (simp_all add: is_unreserved_def keeps_in_path_def is_alnum_def between_def is_digit_def less_eq_char_def)

lemma QueryEscape_no_NL: "CHR 0x0A \<notin> set (QueryEscape s)"
  using percent_no_NL by (auto simp: QueryEscape_def split: if_splits)

lemma path_escape_no_NL: "CHR 0x0A \<notin> set (path_escape s)"
  using percent_no_NL by (auto simp: path_escape_def split: if_splits)

lemma EscapedPath_no_NL: "CHR 0x0A \<notin> set (EscapedPath u)"
proof -
  have "valid_encoded_path s \<Longrightarrow> CHR 0x0A \<notin> set s" for s
    by (auto simp: valid_encoded_path_def list_all_iff)
  then show ?thesis using path_escape_no_NL by (auto simp: EscapedPath_def)
qed

lemma values_Encode_no_NL: "CHR 0x0A \<notin> set (values_Encode q)"
  using join_with_chars [of "''&''"] QueryEscape_no_NL
  by (fastforce simp: values_Encode_def)

lemma signed_map_keys: "map fst (signed_map r hs) = map fst (signed_map r' hs)"
proof -
  have "map fst (foldl (\<lambda>m h. if h = ''host'' then m else AList.update h (f h) m) m hs) =
      foldl (\<lambda>ks h. if h = ''host'' \<or> h \<in> set ks then ks else ks @ [h]) (map fst m) hs"
    for f :: "string \<Rightarrow> string" and m
    by (induction hs arbitrary: m) (simp_all add: AList.update_keys)
  then show ?thesis by (simp add: signed_map_def)
qed

lemma signed_map_lookup:
  "map_of (signed_map r hs) n =
     (if n = ''host'' then Some (rq_Host r)
      else if n \<in> set hs then Some (TrimSpace (header_Get (rq_Header r) n)) else None)"
proof -
  have "map_of (foldl (\<lambda>m h. if h = ''host'' then m else AList.update h (f h) m) m hs) n =
      (if n = ''host'' then map_of m n else if n \<in> set hs then Some (f n) else map_of m n)"
    for f :: "string \<Rightarrow> string" and m
    by (induction hs arbitrary: m) auto
  then show ?thesis by (simp add: signed_map_def)
qed

lemma signed_names: "set (map fst (signed_map r hs)) = insert ''host'' (set hs)"
proof -
  have "set (map fst (signed_map r hs)) = dom (map_of (signed_map r hs))"
    by (simp add: dom_map_of_conv_image_fst)
  then show ?thesis by (auto simp: dom_def signed_map_lookup split: if_splits)
qed

lemma parseSigV4_cong:
  assumes "header_Get (rq_Header r) ''Authorization'' = header_Get (rq_Header r') ''Authorization''"
    and "header_Get (rq_Header r) ''X-Amz-Date'' = header_Get (rq_Header r') ''X-Amz-Date''"
  shows "parseSigV4 r = parseSigV4 r'"
  unfolding parseSigV4_def assms by (rule refl)

text \<open>The parts of a request that go on a line of the canonical form, free of line breaks, as an HTTP
  server delivers them.\<close>

definition lines_ok :: "string list \<Rightarrow> request \<Rightarrow> bool" where
  "lines_ok hs r =
     (CHR 0x0A \<notin> set (rq_Method r) \<and> CHR 0x0A \<notin> set (rq_Host r) \<and>
      list_all (\<lambda>h. CHR 0x0A \<notin> set (TrimSpace (header_Get (rq_Header r) h))) hs)"

lemma canonical_request_inject:
  assumes "lines_ok hs r" and "lines_ok hs r'"
    and "buildCanonicalRequest r hs p = buildCanonicalRequest r' hs p'"
  shows "rq_Method r = rq_Method r'" and "EscapedPath (rq_URL r) = EscapedPath (rq_URL r')"
    and "values_Encode (url_Query (rq_URL r)) = values_Encode (url_Query (rq_URL r'))"
    and "rq_Host r = rq_Host r'" and "p = p'"
    and "h \<in> set hs \<Longrightarrow> h \<noteq> ''host'' \<Longrightarrow>
      TrimSpace (header_Get (rq_Header r) h) = TrimSpace (header_Get (rq_Header r') h)"
proof -
  define names where "names = sort (map fst (signed_map r hs))"
  have names': "sort (map fst (signed_map r' hs)) = names"
    unfolding names_def by (simp only: signed_map_keys [of r' hs r])
  have set_names: "set names = insert ''host'' (set hs)" using signed_names [of r hs] by (simp add: names_def)
  let ?rest = "\<lambda>p. NL @ join_with '';'' names @ NL @ p"
  have eq: "rq_Method r @ NL @ (EscapedPath (rq_URL r) @ NL @ (values_Encode (url_Query (rq_URL r)) @ NL @
        (canonical_headers (signed_map r hs) names @ ?rest p))) =
      rq_Method r' @ NL @ (EscapedPath (rq_URL r') @ NL @ (values_Encode (url_Query (rq_URL r')) @ NL @
        (canonical_headers (signed_map r' hs) names @ ?rest p')))"
    using assms(3) by (simp add: buildCanonicalRequest_def Let_def names' names_def [symmetric])
  have "CHR 0x0A \<notin> set (rq_Method r)" "CHR 0x0A \<notin> set (rq_Method r')"
    using assms(1,2) by (simp_all add: lines_ok_def)
  note one = append_NL_inject [OF this eq]
  note two = append_NL_inject [OF EscapedPath_no_NL EscapedPath_no_NL one(2)]
  note three = append_NL_inject [OF values_Encode_no_NL values_Encode_no_NL two(2)]
  have "\<forall>n \<in> set names. CHR 0x0A \<notin> set (case map_of (signed_map r hs) n of Some v \<Rightarrow> v | None \<Rightarrow> '''') \<and>
      CHR 0x0A \<notin> set (case map_of (signed_map r' hs) n of Some v \<Rightarrow> v | None \<Rightarrow> '''')"
    using assms(1,2) by (auto simp: set_names signed_map_lookup lines_ok_def list_all_iff)
  note four = canonical_headers_inject [OF this three(2)]
  show "rq_Method r = rq_Method r'" "EscapedPath (rq_URL r) = EscapedPath (rq_URL r')"
    "values_Encode (url_Query (rq_URL r)) = values_Encode (url_Query (rq_URL r'))"
    using one(1) two(1) three(1) by simp_all
  show "rq_Host r = rq_Host r'" using four(2) [of "''host''"] by (simp add: set_names signed_map_lookup)
  show "p = p'" using four(1) by (simp add: NL_def)
  show "TrimSpace (header_Get (rq_Header r) h) = TrimSpace (header_Get (rq_Header r') h)"
    if "h \<in> set hs" "h \<noteq> ''host''"
    using that four(2) [of h] by (simp add: set_names signed_map_lookup)
qed

section \<open>Signing and verifying\<close>

lemma sign_request_get:
  "header_Get (rq_Header (sign_request sk a payload r)) h =
     (if CanonicalHeaderKey h = ''Authorization'' then
        auth_header (a\<lparr>sa_signature := computeSignature sk a
          (set_header ''X-Amz-Content-Sha256'' payload (set_header ''X-Amz-Date'' (sa_datetime a) r)) payload\<rparr>)
      else if CanonicalHeaderKey h = ''X-Amz-Content-Sha256'' then payload
      else if CanonicalHeaderKey h = ''X-Amz-Date'' then sa_datetime a
      else header_Get (rq_Header r) h)"
  by (simp add: sign_request_def Let_def header_Get_set)

lemma sign_request_parts [simp]:
  "rq_Method (sign_request sk a payload r) = rq_Method r" "rq_URL (sign_request sk a payload r) = rq_URL r"
  "rq_Host (sign_request sk a payload r) = rq_Host r" "rq_Body (sign_request sk a payload r) = rq_Body r"
  by (simp_all add: sign_request_def Let_def)

lemma sign_request_parses:
  assumes "auth_wf a"
  shows "parseSigV4 (sign_request sk a payload r) = Some (a\<lparr>sa_signature := computeSignature sk a
      (set_header ''X-Amz-Content-Sha256'' payload (set_header ''X-Amz-Date'' (sa_datetime a) r)) payload\<rparr>)"
    (is "_ = Some (a\<lparr>sa_signature := ?sig\<rparr>)")
proof (rule parse_auth_header)
  let ?m = "hmacSHA (signing_key sk a) (string_to_sign a (buildCanonicalRequest
    (set_header ''X-Amz-Content-Sha256'' payload (set_header ''X-Amz-Date'' (sa_datetime a) r)) (sa_signedHeaders a) payload))"
  show "auth_wf (a\<lparr>sa_signature := ?sig\<rparr>)" using assms by (simp add: auth_wf_def)
  show "sa_signature (a\<lparr>sa_signature := ?sig\<rparr>) = hex_EncodeToString ?m"
    by (simp add: computeSignature_def)
  show "?m \<noteq> []"
    using length_Sum256 by (auto simp: hmacSHA_def hmac_sha256_def Let_def simp flip: length_0_conv)
qed (simp_all add: sign_request_get)

lemma sign_request_verifies:
  assumes "auth_wf a" and "payload \<noteq> ''''"
  shows "verifySigV4 (sa_accessKey a) sk (sign_request sk a payload r) = (True, sign_request sk a payload r)"
proof -
  let ?r = "set_header ''X-Amz-Content-Sha256'' payload (set_header ''X-Amz-Date'' (sa_datetime a) r)"
  have "buildCanonicalRequest (sign_request sk a payload r) (sa_signedHeaders a) payload =
      buildCanonicalRequest ?r (sa_signedHeaders a) payload"
    using assms(1)
    by (intro canonical_request_cong) (auto simp: sign_request_get header_Get_set auth_wf_def list_all_iff)
  then have "computeSignature sk (a\<lparr>sa_signature := x\<rparr>) (sign_request sk a payload r) payload =
      computeSignature sk a ?r payload" for x
    by (simp add: computeSignature_def signing_key_def string_to_sign_def)
  moreover have "payloadHash (sign_request sk a payload r) = (Ok payload, sign_request sk a payload r)"
    using assms(2) by (simp add: payloadHash_def sign_request_get)
  ultimately show ?thesis
    by (simp add: verifySigV4_def sign_request_parses [OF assms(1)])
qed

section \<open>Properties\<close>

text \<open>A client that holds the secret is let in: a request that is signed with the server's access key
  and secret, over any non-empty list of headers, in any scope and at any time, is accepted.\<close>

theorem signed_request_accepted:
  assumes "auth_wf a" and "payload \<noteq> ''''"
  shows "fst (verifySigV4 (sa_accessKey a) secretKey (sign_request secretKey a payload r))"
  using sign_request_verifies [OF assms] by simp

definition demo_auth :: sigv4Auth where
  "demo_auth = \<lparr>sa_accessKey = ''minioadmin'', sa_date = ''20240101'', sa_datetime = ''20240101T000000Z'',
     sa_region = ''us-east-1'', sa_service = ''s3'', sa_signedHeaders = [''host'', ''x-amz-date''], sa_signature = ''''\<rparr>"

definition demo_request :: "string \<Rightarrow> string \<Rightarrow> bytes \<Rightarrow> request" where
  "demo_request method path data =
     \<lparr>rq_Method = method, rq_URL = \<lparr>u_Scheme = '''', u_Path = path, u_RawPath = '''', u_RawQuery = ''''\<rparr>,
      rq_Host = ''localhost:9000'', rq_Header = [], rq_Body = \<lparr>rd_data = data, rd_err = None\<rparr>\<rparr>"

lemma demo_auth_wf: "auth_wf demo_auth"
  by code_simp

theorem signed_request_accepted_witness:
  "fst (verifySigV4 ''minioadmin'' ''secret''
     (sign_request ''secret'' demo_auth ''UNSIGNED-PAYLOAD'' (demo_request ''PUT'' ''/b/k'' ''hello'')))"
  using signed_request_accepted [OF demo_auth_wf, of "''UNSIGNED-PAYLOAD''" "''secret''" "demo_request ''PUT'' ''/b/k'' ''hello''"]
  by (simp add: demo_auth_def)

text \<open>C14. A signature binds the request: if two requests with the same authorization and date are both
  accepted, and the digests of the strings they are signed by do not collide, then they agree on the
  method, the path, the query, the host, every signed header and the payload digest.\<close>

theorem signature_binds_request:
  assumes "fst (verifySigV4 ak sk r)" and "fst (verifySigV4 ak sk r')"
    and "header_Get (rq_Header r) ''Authorization'' = header_Get (rq_Header r') ''Authorization''"
    and "header_Get (rq_Header r) ''X-Amz-Date'' = header_Get (rq_Header r') ''X-Amz-Date''"
    and "parseSigV4 r = Some a" and "lines_ok (sa_signedHeaders a) r" and "lines_ok (sa_signedHeaders a) r'"
    and "fst (payloadHash r) = Ok p" and "fst (payloadHash r') = Ok p'"
    and "c = buildCanonicalRequest r (sa_signedHeaders a) p"
    and "c' = buildCanonicalRequest r' (sa_signedHeaders a) p'"
    and "hmacSHA (signing_key sk a) (string_to_sign a c) = hmacSHA (signing_key sk a) (string_to_sign a c') \<longrightarrow>
      string_to_sign a c = string_to_sign a c'"
    and "sha256Hex c = sha256Hex c' \<longrightarrow> c = c'"
  shows "rq_Method r = rq_Method r' \<and> EscapedPath (rq_URL r) = EscapedPath (rq_URL r') \<and>
      values_Encode (url_Query (rq_URL r)) = values_Encode (url_Query (rq_URL r')) \<and>
      rq_Host r = rq_Host r' \<and> p = p' \<and>
      (\<forall>h \<in> set (sa_signedHeaders a). h \<noteq> ''host'' \<longrightarrow>
        TrimSpace (header_Get (rq_Header r) h) = TrimSpace (header_Get (rq_Header r') h))"
proof -
  have sig: "hex_EncodeToString (hmacSHA (signing_key sk a) (string_to_sign a
      (buildCanonicalRequest x (sa_signedHeaders a) px))) = sa_signature a"
    if "fst (verifySigV4 ak sk x)" "parseSigV4 x = Some a" "fst (payloadHash x) = Ok px" for x px
  proof -
    note x = that
    obtain y where y: "payloadHash x = (Ok px, y)" using x(3) by (metis prod.collapse)
    have "buildCanonicalRequest y hs px = buildCanonicalRequest x hs px" for hs
      by (rule canonical_request_cong)
        (use y in \<open>auto simp: payloadHash_def Let_def split: if_splits option.splits\<close>)
    then show ?thesis
      using x(1,2) y by (simp add: verifySigV4_def computeSignature_def split: if_splits)
  qed
  have "parseSigV4 r' = Some a" using parseSigV4_cong [OF assms(3,4)] assms(5) by simp
  then have "hmacSHA (signing_key sk a) (string_to_sign a c) = hmacSHA (signing_key sk a) (string_to_sign a c')"
    using sig [OF assms(1,5,8)] sig [OF assms(2) _ assms(9)] assms(10,11) by (metis hex_EncodeToString_inject)
  then have "c = c'" using assms(12,13) by (simp add: string_to_sign_def)
  then have "buildCanonicalRequest r (sa_signedHeaders a) p = buildCanonicalRequest r' (sa_signedHeaders a) p'"
    using assms(10,11) by simp
  from canonical_request_inject [OF assms(6,7) this] show ?thesis by blast
qed

definition demo_signed :: request where
  "demo_signed = sign_request ''secret'' demo_auth ''UNSIGNED-PAYLOAD'' (demo_request ''PUT'' ''/b/k'' ''hello'')"

definition demo_swapped :: request where
  "demo_swapped = demo_signed\<lparr>rq_Body := \<lparr>rd_data = ''other'', rd_err = None\<rparr>\<rparr>"

lemma demo_swapped_header [simp]: "rq_Header demo_swapped = rq_Header demo_signed"
  by (simp add: demo_swapped_def)

lemma demo_content_header: "header_Get (rq_Header demo_signed) ''X-Amz-Content-Sha256'' = ''UNSIGNED-PAYLOAD''"
  by (simp add: demo_signed_def sign_request_get)

lemma demo_payload: "payloadHash demo_signed = (Ok ''UNSIGNED-PAYLOAD'', demo_signed)"
    "payloadHash demo_swapped = (Ok ''UNSIGNED-PAYLOAD'', demo_swapped)"
  by (simp_all add: payloadHash_def demo_content_header)

lemma demo_canonical: "buildCanonicalRequest demo_swapped hs p = buildCanonicalRequest demo_signed hs p"
  by (rule canonical_request_cong) (simp_all add: demo_swapped_def)

lemma demo_verifies:
  "fst (verifySigV4 ''minioadmin'' ''secret'' demo_signed)" "fst (verifySigV4 ''minioadmin'' ''secret'' demo_swapped)"
proof -
  show one: "fst (verifySigV4 ''minioadmin'' ''secret'' demo_signed)"
    using sign_request_verifies [OF demo_auth_wf, of "''UNSIGNED-PAYLOAD''" "''secret''"]
    by (simp add: demo_signed_def demo_auth_def)
  have "parseSigV4 demo_swapped = parseSigV4 demo_signed" by (rule parseSigV4_cong) simp_all
  then show "fst (verifySigV4 ''minioadmin'' ''secret'' demo_swapped)"
    using one by (auto simp: verifySigV4_def demo_payload computeSignature_def demo_canonical split: option.splits if_splits)
qed

lemma demo_lines_ok: "lines_ok [''host'', ''x-amz-date''] demo_signed"
proof -
  have "CanonicalHeaderKey ''host'' = ''Host''" "CanonicalHeaderKey ''x-amz-date'' = ''X-Amz-Date''" by code_simp+
  then have "header_Get (rq_Header demo_signed) ''host'' = ''''"
    "header_Get (rq_Header demo_signed) ''x-amz-date'' = ''20240101T000000Z''"
    by (simp_all add: demo_signed_def sign_request_get demo_auth_def)
      (simp add: demo_request_def header_Get_def)
  then show ?thesis by (simp add: lines_ok_def demo_signed_def demo_request_def TrimSpace_def is_space_def)
qed

theorem signature_binds_request_witness:
  "rq_Method demo_signed = rq_Method demo_swapped \<and> rq_Host demo_signed = rq_Host demo_swapped \<and>
   rq_Body demo_signed \<noteq> rq_Body demo_swapped"
proof -
  obtain a where a: "parseSigV4 demo_signed = Some a" "sa_signedHeaders a = [''host'', ''x-amz-date'']"
    using sign_request_parses [OF demo_auth_wf] by (simp add: demo_signed_def demo_auth_def)
  have "lines_ok (sa_signedHeaders a) demo_signed" using demo_lines_ok by (simp add: a(2))
  moreover from this have "lines_ok (sa_signedHeaders a) demo_swapped"
    by (simp add: lines_ok_def demo_swapped_def)
  ultimately have "rq_Method demo_signed = rq_Method demo_swapped \<and> rq_Host demo_signed = rq_Host demo_swapped"
    using signature_binds_request [OF demo_verifies _ _ a(1) _ _ _ _ refl refl,
        of "''UNSIGNED-PAYLOAD''" "''UNSIGNED-PAYLOAD''"]
    by (simp add: demo_payload demo_canonical)
  then show ?thesis by (simp add: demo_swapped_def demo_signed_def demo_request_def)
qed

text \<open>C39. A body is not authenticated when the client names its digest: with the content digest header
  present the server takes its word for it, so that a signed request is accepted with any other body.\<close>

theorem body_not_authenticated:
  assumes "header_Get (rq_Header r) ''X-Amz-Content-Sha256'' \<noteq> ''''"
  shows "verifySigV4 ak sk (r\<lparr>rq_Body := body\<rparr>) = (fst (verifySigV4 ak sk r), r\<lparr>rq_Body := body\<rparr>)"
proof -
  have "parseSigV4 (r\<lparr>rq_Body := body\<rparr>) = parseSigV4 r" by (rule parseSigV4_cong) simp_all
  moreover have "payloadHash (r\<lparr>rq_Body := body\<rparr>) =
      (Ok (header_Get (rq_Header r) ''X-Amz-Content-Sha256''), r\<lparr>rq_Body := body\<rparr>)"
    "payloadHash r = (Ok (header_Get (rq_Header r) ''X-Amz-Content-Sha256''), r)"
    using assms by (simp_all add: payloadHash_def)
  moreover have "computeSignature sk a (r\<lparr>rq_Body := body\<rparr>) p = computeSignature sk a r p" for a p
    by (simp add: computeSignature_def canonical_request_cong [of "r\<lparr>rq_Body := body\<rparr>" r])
  ultimately show ?thesis by (simp add: verifySigV4_def split: option.split)
qed

theorem body_not_authenticated_witness:
  "fst (verifySigV4 ''minioadmin'' ''secret'' (demo_signed\<lparr>rq_Body := \<lparr>rd_data = ''other'', rd_err = None\<rparr>\<rparr>)) \<and>
   rd_data (rq_Body demo_signed) = ''hello''"
proof -
  have "header_Get (rq_Header demo_signed) ''X-Amz-Content-Sha256'' \<noteq> ''''" by (simp add: demo_content_header)
  from body_not_authenticated [OF this, of "''minioadmin''" "''secret''" "\<lparr>rd_data = ''other'', rd_err = None\<rparr>"]
  show ?thesis using demo_verifies(1) by (simp add: demo_signed_def demo_request_def)
qed

end
