(* ===== verification/Api.thy ===== *)
theory Api
  imports Multipart SigV4
begin

text \<open>
  The HTTP handler (\<^verbatim>\<open>internal/api/api.go\<close>), the XML documents and error responses it writes
  (\<^verbatim>\<open>internal/api/xml.go\<close>), and cluster membership (\<^verbatim>\<open>internal/api/join.go\<close>). A handler takes the
  request and the store and gives the response and the store; a panic ends the request without a
  response. XML documents are trees; the texts of an XML or JSON request body are read by two fields
  of the environment, the tokenizers of the standard library, and what is read from the trees is
  modelled.
\<close>

section \<open>Documents\<close>

definition s3xmlns :: string where
  "s3xmlns = ''http://s3.amazonaws.com/doc/2006-03-01/''"

definition xelem :: "string \<Rightarrow> string \<Rightarrow> xml" where
  "xelem name text = XElem name [] [XText text]"

definition xroot :: "string \<Rightarrow> xml list \<Rightarrow> xml" where
  "xroot name children = XElem name [(''xmlns'', s3xmlns)] children"

definition xbool :: "bool \<Rightarrow> string" where
  "xbool b = (if b then ''true'' else ''false'')"

definition xomit :: "string \<Rightarrow> string \<Rightarrow> xml list" where
  "xomit name text = (if text = '''' then [] else [xelem name text])"

definition writeXML :: "xml \<Rightarrow> response" where
  "writeXML doc = \<lparr>rs_Status = 200, rs_Header = [(''Content-Type'', ''application/xml'')], rs_Body = BXml doc\<rparr>"

definition s3ErrorBody :: "string \<Rightarrow> string \<Rightarrow> xml" where
  "s3ErrorBody code msg = XElem ''Error'' [] [xelem ''Code'' code, xelem ''Message'' msg]"

definition s3Error :: "string \<Rightarrow> string \<Rightarrow> response" where
  "s3Error code msg =
     (let status =
        (if code = ''BucketAlreadyExists'' then 409
         else if code = ''NoSuchBucket'' \<or> code = ''NoSuchKey'' \<or> code = ''InvalidUploadID'' then 404
         else if code = ''AccessDenied'' then 403
         else 400)
      in \<lparr>rs_Status = status, rs_Header = [(''Content-Type'', ''application/xml'')],
          rs_Body = BXml (s3ErrorBody code msg)\<rparr>)"

definition storeError :: "err \<Rightarrow> response" where
  "storeError e =
     (let code =
        (if errors_Is e ErrBucketExists then ''BucketAlreadyExists''
         else if errors_Is e ErrNoBucket then ''NoSuchBucket''
         else if errors_Is e ErrNoKey then ''NoSuchKey''
         else if errors_Is e ErrInvalidUploadID then ''InvalidUploadID''
         else ''InternalError'')
      in s3Error code (err_Error e))"

definition bucketEntry :: "Bucket \<Rightarrow> xml" where
  "bucketEntry b = XElem ''Bucket'' [] [xelem ''Name'' (b_Name b), xelem ''CreationDate'' (format_RFC3339 (b_CreatedAt b))]"

definition listBucketsResult :: "Bucket list \<Rightarrow> xml" where
  "listBucketsResult bs = xroot ''ListAllMyBucketsResult'' [XElem ''Buckets'' [] (map bucketEntry bs)]"

definition objectEntry :: "ObjectMeta \<Rightarrow> xml" where
  "objectEntry m = XElem ''Contents'' []
     [xelem ''Key'' (om_Key m), xelem ''LastModified'' (format_RFC3339 (om_CreatedAt m)),
      xelem ''ETag'' (quoted (om_ETag m)), xelem ''Size'' (FormatInt (sint (om_Size m))),
      xelem ''StorageClass'' ''STANDARD'']"

definition listBucketResult :: "string \<Rightarrow> string \<Rightarrow> int \<Rightarrow> ObjectMeta list \<Rightarrow> string \<Rightarrow> xml" where
  "listBucketResult name pfx maxKeys objects nextToken =
     xroot ''ListBucketResult''
       ([xelem ''Name'' name, xelem ''Prefix'' pfx, xelem ''KeyCount'' (FormatInt (int (length objects))),
         xelem ''MaxKeys'' (FormatInt maxKeys), xelem ''IsTruncated'' (xbool (nextToken \<noteq> ''''))] @
        xomit ''NextContinuationToken'' nextToken @ map objectEntry objects)"

definition initiateMultipartUploadResult :: "string \<Rightarrow> string \<Rightarrow> string \<Rightarrow> xml" where
  "initiateMultipartUploadResult bucket key uid =
     xroot ''InitiateMultipartUploadResult'' [xelem ''Bucket'' bucket, xelem ''Key'' key, xelem ''UploadId'' uid]"

definition completeMultipartUploadResult :: "string \<Rightarrow> string \<Rightarrow> string \<Rightarrow> string \<Rightarrow> xml" where
  "completeMultipartUploadResult location bucket key etag =
     xroot ''CompleteMultipartUploadResult''
       [xelem ''Location'' location, xelem ''Bucket'' bucket, xelem ''Key'' key, xelem ''ETag'' etag]"

definition listPartsPartEntry :: "Part \<Rightarrow> xml" where
  "listPartsPartEntry p = XElem ''Part'' []
     [xelem ''PartNumber'' (FormatInt (pt_PartNumber p)), xelem ''LastModified'' (format_RFC3339 (pt_CreatedAt p)),
      xelem ''ETag'' (quoted (pt_ETag p)), xelem ''Size'' (FormatInt (sint (pt_Size p)))]"

definition listPartsResult :: "string \<Rightarrow> string \<Rightarrow> string \<Rightarrow> Part list \<Rightarrow> xml" where
  "listPartsResult bucket key uid parts =
     xroot ''ListPartsResult''
       ([xelem ''Bucket'' bucket, xelem ''Key'' key, xelem ''UploadId'' uid] @ map listPartsPartEntry parts)"

definition listMultipartUploadEntry :: "MultipartUpload \<Rightarrow> xml" where
  "listMultipartUploadEntry u = XElem ''Upload'' []
     [xelem ''Key'' (mpu_Key u), xelem ''UploadId'' (mpu_UploadID u),
      xelem ''Initiated'' (format_RFC3339 (mpu_Initiated u))]"

definition listMultipartUploadsResult :: "string \<Rightarrow> MultipartUpload list \<Rightarrow> xml" where
  "listMultipartUploadsResult bucket us =
     xroot ''ListMultipartUploadsResult'' (xelem ''Bucket'' bucket # map listMultipartUploadEntry us)"

definition listVersionEntry :: "ObjectVersion \<Rightarrow> xml" where
  "listVersionEntry v = XElem ''Version'' []
     [xelem ''Key'' (ov_Key v), xelem ''VersionId'' (ov_VersionID v), xelem ''IsLatest'' (xbool (ov_IsLatest v)),
      xelem ''LastModified'' (ov_LastModified v), xelem ''ETag'' (ov_ETag v),
      xelem ''Size'' (FormatInt (sint (ov_Size v))), xelem ''StorageClass'' (ov_StorageClass v)]"

definition listDeleteMarkerEntry :: "ObjectVersion \<Rightarrow> xml" where
  "listDeleteMarkerEntry v = XElem ''DeleteMarker'' []
     [xelem ''Key'' (ov_Key v), xelem ''VersionId'' (ov_VersionID v), xelem ''IsLatest'' (xbool (ov_IsLatest v)),
      xelem ''LastModified'' (ov_LastModified v)]"

text \<open>\<^verbatim>\<open>MaxKeys\<close> and \<^verbatim>\<open>IsTruncated\<close> keep their zero values: the handler never sets them.\<close>

definition listObjectVersionsResult :: "string \<Rightarrow> string \<Rightarrow> string \<Rightarrow> string \<Rightarrow> ObjectVersion list
    \<Rightarrow> ObjectVersion list \<Rightarrow> xml" where
  "listObjectVersionsResult name pfx keyMarker versionIdMarker versions markers =
     xroot ''ListVersionsResult''
       ([xelem ''Name'' name, xelem ''Prefix'' pfx] @ xomit ''KeyMarker'' keyMarker @
        xomit ''VersionIdMarker'' versionIdMarker @
        [xelem ''MaxKeys'' ''0'', xelem ''IsTruncated'' ''false''] @
        map listVersionEntry versions @ map listDeleteMarkerEntry markers)"

section \<open>Reading a completion request\<close>

fun xml_text :: "xml \<Rightarrow> string" where
  "xml_text (XText t) = t"
| "xml_text (XElem n as cs) = ''''"

definition elem_text :: "xml list \<Rightarrow> string" where
  "elem_text cs = concat (map xml_text cs)"

text \<open>The fields of a \<^verbatim>\<open>CompletedPart\<close>: of several elements with one name the last counts; a part
  number that is not a number is an error, an empty one is zero.\<close>

fun dec_part_fields :: "xml list \<Rightarrow> CompletedPart \<Rightarrow> CompletedPart option" where
  "dec_part_fields [] p = Some p"
| "dec_part_fields (XElem n as cs # xs) p =
     (if n = ''PartNumber'' then
        (if elem_text cs = '''' then dec_part_fields xs (p\<lparr>cp_PartNumber := 0\<rparr>)
         else case Atoi (TrimSpace (elem_text cs)) of
           None \<Rightarrow> None
         | Some i \<Rightarrow> dec_part_fields xs (p\<lparr>cp_PartNumber := i\<rparr>))
      else if n = ''ETag'' then dec_part_fields xs (p\<lparr>cp_ETag := elem_text cs\<rparr>)
      else dec_part_fields xs p)"
| "dec_part_fields (XText t # xs) p = dec_part_fields xs p"

fun dec_parts :: "xml list \<Rightarrow> CompletedPart list option" where
  "dec_parts [] = Some []"
| "dec_parts (XElem n as cs # xs) =
     (if n = ''Part'' then
        (case dec_part_fields cs \<lparr>cp_PartNumber = 0, cp_ETag = ''''\<rparr> of
           None \<Rightarrow> None
         | Some p \<Rightarrow> map_option ((#) p) (dec_parts xs))
      else dec_parts xs)"
| "dec_parts (XText t # xs) = dec_parts xs"

fun dec_complete :: "xml \<Rightarrow> CompletedPart list option" where
  "dec_complete (XElem n as cs) = dec_parts cs"
| "dec_complete (XText t) = None"

section \<open>Handlers\<close>

record Handler =
  hd_accessKey :: string
  hd_secretKey :: string
  hd_joiner :: "RaftNode option"

definition NewHandler :: "string \<Rightarrow> string \<Rightarrow> Handler" where
  "NewHandler accessKey secretKey =
     \<lparr>hd_accessKey = accessKey, hd_secretKey = secretKey, hd_joiner = None\<rparr>"

definition SetJoiner :: "RaftNode option \<Rightarrow> Handler \<Rightarrow> Handler" where
  "SetJoiner j h = h\<lparr>hd_joiner := j\<rparr>"

text \<open>What a request meets outside the program: the database, the operating system, two readings of
  the clock, random bytes, and the tokenizers of \<^verbatim>\<open>encoding/xml\<close> and \<^verbatim>\<open>encoding/json\<close>.\<close>

record 'db env =
  ev_bolt :: "'db bolt"
  ev_os :: os
  ev_now :: time
  ev_later :: time
  ev_rand :: "nat \<Rightarrow> bytes"
  ev_xml :: "reader \<Rightarrow> xml option"
  ev_json :: "reader \<Rightarrow> json option"

type_synonym 'db handled = "response outcome \<times> 'db Store"

text \<open>The common shape: an error of the store is an error response.\<close>

fun respond :: "('a \<Rightarrow> response) \<Rightarrow> 'a outcome \<times> 'db Store \<Rightarrow> 'db handled" where
  "respond f (Ok x, s) = (Ok (f x), s)"
| "respond f (Err e, s) = (Ok (storeError e), s)"
| "respond f (Panic p, s) = (Panic p, s)"

definition version_header :: "string \<Rightarrow> (string, string) gomap" where
  "version_header vid = (if vid = '''' then [] else [(''X-Amz-Version-Id'', vid)])"

definition query :: "request \<Rightarrow> string \<Rightarrow> string" where
  "query r k = values_Get (url_Query (rq_URL r)) k"

definition headBucket :: "'db env \<Rightarrow> string \<Rightarrow> 'db Store \<Rightarrow> 'db handled" where
  "headBucket V bucket s = respond (\<lambda>_. status_only 200) (st_GetBucket (ev_bolt V) bucket s, s)"

definition listBuckets :: "'db env \<Rightarrow> 'db Store \<Rightarrow> 'db handled" where
  "listBuckets V s = (Ok (writeXML (listBucketsResult (st_ListBuckets (ev_bolt V) s))), s)"

definition page_size :: "string \<Rightarrow> int" where
  "page_size mk =
     (if mk = '''' then 1000
      else case Atoi mk of Some n \<Rightarrow> if 0 < n \<and> n \<le> 1000 then n else 1000 | None \<Rightarrow> 1000)"

definition listObjectsV2 :: "'db env \<Rightarrow> request \<Rightarrow> string \<Rightarrow> 'db Store \<Rightarrow> 'db handled" where
  "listObjectsV2 V r bucket s =
     respond (\<lambda>_.
       let pfx = query r ''prefix'';
           ct = query r ''continuation-token'';
           startAfter = (if ct \<noteq> '''' then ct else query r ''start-after'');
           maxKeys = page_size (query r ''max-keys'')
       in case st_ListObjectsPaged bucket pfx startAfter maxKeys s of
            (objects, nextToken) \<Rightarrow> writeXML (listBucketResult bucket pfx maxKeys objects nextToken))
     (st_GetBucket (ev_bolt V) bucket s, s)"

definition listObjectVersions :: "'db env \<Rightarrow> request \<Rightarrow> string \<Rightarrow> 'db Store \<Rightarrow> 'db handled" where
  "listObjectVersions V r bucket s =
     respond (\<lambda>_.
       case st_ListObjectVersions bucket (query r ''prefix'') s of
         (versions, deleteMarkers) \<Rightarrow>
           writeXML (listObjectVersionsResult bucket (query r ''prefix'') (query r ''key-marker'')
             (query r ''version-id-marker'') versions deleteMarkers))
     (st_GetBucket (ev_bolt V) bucket s, s)"

definition listMultipartUploads :: "'db env \<Rightarrow> string \<Rightarrow> 'db Store \<Rightarrow> 'db handled" where
  "listMultipartUploads V bucket s =
     respond (\<lambda>us. writeXML (listMultipartUploadsResult bucket us))
       (st_ListMultipartUploads (ev_bolt V) bucket s, s)"

definition handleBucket :: "'db env \<Rightarrow> request \<Rightarrow> string \<Rightarrow> 'db Store \<Rightarrow> 'db handled" where
  "handleBucket V r bucket s =
     (let q = url_Query (rq_URL r)
      in if rq_Method r = ''GET'' \<and> values_Has q ''uploads'' then listMultipartUploads V bucket s
         else if rq_Method r = ''GET'' \<and> values_Has q ''versions'' then listObjectVersions V r bucket s
         else if rq_Method r = ''PUT'' then
           respond (\<lambda>_. status_only 200) (st_CreateBucket (ev_bolt V) (ev_now V) bucket s)
         else if rq_Method r = ''DELETE'' then
           respond (\<lambda>_. status_only 204) (st_DeleteBucket (ev_bolt V) bucket s)
         else if rq_Method r = ''GET'' then listObjectsV2 V r bucket s
         else if rq_Method r = ''HEAD'' then headBucket V bucket s
         else (Ok (status_only 405), s))"

definition putObject :: "'db env \<Rightarrow> request \<Rightarrow> string \<Rightarrow> string \<Rightarrow> 'db Store \<Rightarrow> 'db handled" where
  "putObject V r bucket key s =
     respond (\<lambda>(etag, versionID).
         \<lparr>rs_Status = 200, rs_Header = (''ETag'', quoted etag) # version_header versionID, rs_Body = BNone\<rparr>)
       (st_PutObject (ev_os V) (ev_now V) bucket key (rq_Body r) s)"

definition marker_response :: "ObjectMeta \<Rightarrow> response" where
  "marker_response meta =
     \<lparr>rs_Status = 404, rs_Header = (''X-Amz-Delete-Marker'', ''true'') # version_header (om_VersionID meta),
      rs_Body = BNone\<rparr>"

definition object_headers :: "ObjectMeta \<Rightarrow> (string, string) gomap" where
  "object_headers meta =
     (''ETag'', quoted (om_ETag meta)) # (''Content-Length'', FormatInt (sint (om_Size meta))) #
     version_header (om_VersionID meta)"

definition getObject :: "'db env \<Rightarrow> request \<Rightarrow> string \<Rightarrow> string \<Rightarrow> 'db Store \<Rightarrow> 'db handled" where
  "getObject V r bucket key s =
     respond (\<lambda>(data, meta).
         if om_IsDeleteMarker meta then marker_response meta
         else \<lparr>rs_Status = 200, rs_Header = object_headers meta, rs_Body = BBytes data\<rparr>)
       (st_GetObject (ev_os V) bucket key (query r ''versionId'') s, s)"

text \<open>\<^verbatim>\<open>HEAD\<close> answers every error with a plain 404.\<close>

definition headObject :: "request \<Rightarrow> string \<Rightarrow> string \<Rightarrow> 'db Store \<Rightarrow> 'db handled" where
  "headObject r bucket key s =
     (let versionID = query r ''versionId''
      in case (if versionID \<noteq> '''' then st_GetMetaVersion bucket key versionID s else st_GetMeta bucket key s) of
           Err e \<Rightarrow> (Ok (status_only 404), s)
         | Panic p \<Rightarrow> (Panic p, s)
         | Ok meta \<Rightarrow>
             if om_IsDeleteMarker meta then (Ok (marker_response meta), s)
             else (Ok \<lparr>rs_Status = 200, rs_Header = object_headers meta, rs_Body = BNone\<rparr>, s))"

definition deleteObject :: "'db env \<Rightarrow> request \<Rightarrow> string \<Rightarrow> string \<Rightarrow> 'db Store \<Rightarrow> 'db handled" where
  "deleteObject V r bucket key s =
     respond (\<lambda>_. status_only 204)
       (st_DeleteObject (ev_os V) (ev_now V) bucket key (query r ''versionId'') s)"

definition createMultipartUpload :: "'db env \<Rightarrow> string \<Rightarrow> string \<Rightarrow> 'db Store \<Rightarrow> 'db handled" where
  "createMultipartUpload V bucket key s =
     respond (\<lambda>uid. writeXML (initiateMultipartUploadResult bucket key uid))
       (st_NewMultipartUpload (ev_bolt V) (ev_rand V) (ev_now V) (ev_later V) bucket key s)"

definition uploadPart :: "'db env \<Rightarrow> request \<Rightarrow> string \<Rightarrow> string \<Rightarrow> 'db Store \<Rightarrow> 'db handled" where
  "uploadPart V r bucket key s =
     (let bad = (Ok (s3Error ''InvalidArgument'' ''partNumber must be between 1 and 10000''), s)
      in case Atoi (query r ''partNumber'') of
           None \<Rightarrow> bad
         | Some n \<Rightarrow>
             if n < 1 \<or> 10000 < n then bad
             else respond (\<lambda>etag. \<lparr>rs_Status = 200, rs_Header = [(''ETag'', quoted etag)], rs_Body = BNone\<rparr>)
               (st_UploadPart (ev_os V) (ev_now V) bucket key (query r ''uploadId'') n (rq_Body r) s))"

definition completeMultipartUpload :: "'db env \<Rightarrow> request \<Rightarrow> string \<Rightarrow> string \<Rightarrow> 'db Store \<Rightarrow> 'db handled" where
  "completeMultipartUpload V r bucket key s =
     (case Option.bind (ev_xml V (rq_Body r)) dec_complete of
        None \<Rightarrow> (Ok (s3Error ''MalformedXML'' ''invalid CompleteMultipartUpload body''), s)
      | Some parts \<Rightarrow>
          if parts = [] then (Ok (s3Error ''MalformedXML'' ''At least one part must be specified''), s)
          else respond (\<lambda>_. writeXML (completeMultipartUploadResult
                 (u_Scheme (rq_URL r) @ ''://'' @ rq_Host r @ ''/'' @ bucket @ ''/'' @ key) bucket key ''''))
               (st_CompleteMultipartUpload (ev_os V) (ev_now V) bucket key (query r ''uploadId'') parts s))"

definition listParts :: "request \<Rightarrow> string \<Rightarrow> string \<Rightarrow> 'db Store \<Rightarrow> 'db handled" where
  "listParts r bucket key s =
     respond (\<lambda>parts. writeXML (listPartsResult bucket key (query r ''uploadId'') parts))
       (st_ListParts bucket key (query r ''uploadId'') s, s)"

definition abortMultipartUpload :: "'db env \<Rightarrow> request \<Rightarrow> string \<Rightarrow> string \<Rightarrow> 'db Store \<Rightarrow> 'db handled" where
  "abortMultipartUpload V r bucket key s =
     respond (\<lambda>_. status_only 204)
       (st_AbortMultipartUpload (ev_os V) bucket key (query r ''uploadId'') s)"

definition handleObject :: "'db env \<Rightarrow> request \<Rightarrow> string \<Rightarrow> string \<Rightarrow> 'db Store \<Rightarrow> 'db handled" where
  "handleObject V r bucket key s =
     (let q = url_Query (rq_URL r); m = rq_Method r
      in if m = ''POST'' \<and> values_Has q ''uploads'' then createMultipartUpload V bucket key s
         else if m = ''PUT'' \<and> values_Has q ''uploadId'' \<and> values_Has q ''partNumber'' then uploadPart V r bucket key s
         else if m = ''POST'' \<and> values_Has q ''uploadId'' then completeMultipartUpload V r bucket key s
         else if m = ''GET'' \<and> values_Has q ''uploadId'' then listParts r bucket key s
         else if m = ''DELETE'' \<and> values_Has q ''uploadId'' then abortMultipartUpload V r bucket key s
         else if m = ''PUT'' then putObject V r bucket key s
         else if m = ''GET'' then getObject V r bucket key s
         else if m = ''HEAD'' then headObject r bucket key s
         else if m = ''DELETE'' then deleteObject V r bucket key s
         else (Ok (status_only 405), s))"

section \<open>Routing\<close>

definition route :: "'db env \<Rightarrow> request \<Rightarrow> 'db Store \<Rightarrow> 'db handled" where
  "route V r s =
     (let path = TrimPrefix (u_Path (rq_URL r)) ''/''
      in if path = '''' \<and> rq_Method r = ''GET'' then listBuckets V s
         else case cut (CHR ''/'') path of
           (bucket, None) \<Rightarrow> handleBucket V r bucket s
         | (bucket, Some key) \<Rightarrow> handleObject V r bucket key s)"

record joinPayload =
  jp_ID :: string
  jp_Addr :: string

definition enc_joinPayload :: "joinPayload \<Rightarrow> json" where
  "enc_joinPayload p = JObj [(''id'', json_string (jp_ID p)), (''addr'', json_string (jp_Addr p))]"

text \<open>The body of a join request comes from outside: field names match in any case, \<^verbatim>\<open>null\<close> leaves a
  field as it is, and a value of another type is an error.\<close>

fun dec_join_fields :: "(string \<times> json) list \<Rightarrow> joinPayload \<Rightarrow> err + joinPayload" where
  "dec_join_fields [] p = Inr p"
| "dec_join_fields ((n, v) # fs) p =
     (if map to_lower n = ''id'' then
        (case v of JNull \<Rightarrow> dec_join_fields fs p | JStr s \<Rightarrow> dec_join_fields fs (p\<lparr>jp_ID := s\<rparr>) | _ \<Rightarrow> Inl type_error)
      else if map to_lower n = ''addr'' then
        (case v of JNull \<Rightarrow> dec_join_fields fs p | JStr s \<Rightarrow> dec_join_fields fs (p\<lparr>jp_Addr := s\<rparr>) | _ \<Rightarrow> Inl type_error)
      else dec_join_fields fs p)"

fun dec_joinPayload :: "json \<Rightarrow> err + joinPayload" where
  "dec_joinPayload (JObj fs) = dec_join_fields fs \<lparr>jp_ID = '''', jp_Addr = ''''\<rparr>"
| "dec_joinPayload JNull = Inr \<lparr>jp_ID = '''', jp_Addr = ''''\<rparr>"
| "dec_joinPayload _ = Inl type_error"

definition routeInternal :: "(reader \<Rightarrow> json option) \<Rightarrow> Handler \<Rightarrow> request \<Rightarrow> response" where
  "routeInternal parse h r =
     (if u_Path (rq_URL r) \<noteq> ''/internal/join'' \<or> rq_Method r \<noteq> ''POST'' then http_Error ''not found'' 404
      else case (case parse (rq_Body r) of None \<Rightarrow> Inl type_error | Some j \<Rightarrow> dec_joinPayload j) of
        Inl e \<Rightarrow> http_Error ''bad request'' 400
      | Inr p \<Rightarrow>
          if jp_ID p = '''' \<or> jp_Addr p = '''' then http_Error ''id and addr are required'' 400
          else case hd_joiner h of
            None \<Rightarrow> http_Error ''clustering disabled'' 503
          | Some n \<Rightarrow>
              (case RaftNode_AddVoter n (jp_ID p) (jp_Addr p) of
                 Ok _ \<Rightarrow> status_only 200
               | Err e \<Rightarrow>
                   if errors_Is e ErrNotLeader then http_Error ''not leader'' 503
                   else http_Error ''join failed'' 500
               | Panic p \<Rightarrow> http_Error ''join failed'' 500))"

definition ServeHTTP :: "'db env \<Rightarrow> Handler \<Rightarrow> request \<Rightarrow> 'db Store \<Rightarrow> 'db handled" where
  "ServeHTTP V h r s =
     (if HasPrefix (u_Path (rq_URL r)) ''/internal/'' then (Ok (routeInternal (ev_json V) h r), s)
      else case verifySigV4 (hd_accessKey h) (hd_secretKey h) r of
        (False, _) \<Rightarrow> (Ok (s3Error ''AccessDenied'' ''access denied''), s)
      | (True, r') \<Rightarrow> route V r' s)"

text \<open>\<open>RequestJoin\<close>: \<open>post\<close> is the exchange with the node at that URL; it fails or gives the status
  line, the status code and the body of the response.\<close>

definition RequestJoin :: "(string \<Rightarrow> json \<Rightarrow> err + (string \<times> nat \<times> bytes)) \<Rightarrow> string \<Rightarrow> string \<Rightarrow> string
    \<Rightarrow> unit outcome" where
  "RequestJoin post leader nid addr =
     (let base = (if contains leader ''://'' then leader else ''http://'' @ leader)
      in case post (TrimSuffix base ''/'' @ ''/internal/join'') (enc_joinPayload \<lparr>jp_ID = nid, jp_Addr = addr\<rparr>) of
           Inl e \<Rightarrow> Err (ErrWrap ''post join'' e)
         | Inr (status, code, text) \<Rightarrow>
             if code \<noteq> 200 then
               Err (ErrText (''join rejected: '' @ status @ '' ('' @ TrimSpace (take 256 text) @ '')''))
             else Ok ())"

section \<open>Lemmas\<close>

lemma snd_respond [simp]: "snd (respond f p) = snd p"
  by (cases p; cases "fst p") auto

text \<open>Collections for the case analyses over all handlers.\<close>

lemmas read_handlers = listBuckets_def headBucket_def listObjectsV2_def listObjectVersions_def
  listMultipartUploads_def getObject_def headObject_def listParts_def

lemmas write_handlers = putObject_def deleteObject_def createMultipartUpload_def uploadPart_def
  completeMultipartUpload_def abortMultipartUpload_def

definition writing_methods :: "string list" where
  "writing_methods = [''PUT'', ''POST'', ''DELETE'']"

lemma headObject_state: "snd (headObject r bucket key s) = s"
  by (simp add: headObject_def Let_def split: outcome.split)

lemma handleBucket_reads: "rq_Method r \<notin> set writing_methods \<Longrightarrow> snd (handleBucket V r bucket s) = s"
  by (simp add: handleBucket_def Let_def writing_methods_def listMultipartUploads_def listObjectVersions_def
      listObjectsV2_def headBucket_def)

lemma handleObject_reads: "rq_Method r \<notin> set writing_methods \<Longrightarrow> snd (handleObject V r bucket key s) = s"
  by (simp add: handleObject_def Let_def writing_methods_def getObject_def headObject_state listParts_def)

lemma route_reads: "rq_Method r \<notin> set writing_methods \<Longrightarrow> snd (route V r s) = s"
  by (simp add: route_def Let_def listBuckets_def handleBucket_reads handleObject_reads split: prod.split option.split)

lemma verifySigV4_request:
  "\<exists>body. snd (verifySigV4 ak sk r) = r\<lparr>rq_Body := body\<rparr>"
proof -
  have "\<exists>body. snd (payloadHash r) = r\<lparr>rq_Body := body\<rparr>"
    by (auto simp: payloadHash_def Let_def split: option.split intro: exI [of _ "rq_Body r"])
  moreover have "snd (verifySigV4 ak sk r) = r \<or> snd (verifySigV4 ak sk r) = snd (payloadHash r)"
    by (simp add: verifySigV4_def split: option.split prod.split outcome.split)
  ultimately show ?thesis by (metis request.surjective request.update_convs(5))
qed

section \<open>Properties\<close>

text \<open>C13. The store changes only for authenticated writes: when serving a request changes anything, the
  request was not for an operator endpoint, its signature was valid, and its method is one that writes;
  operator endpoints, refused requests, and every read leave the store exactly as it was.\<close>

theorem state_changes_authenticated:
  assumes "ServeHTTP V h r s = (x, s')" and "s' \<noteq> s"
  shows "\<not> HasPrefix (u_Path (rq_URL r)) ''/internal/'' \<and>
      fst (verifySigV4 (hd_accessKey h) (hd_secretKey h) r) \<and> rq_Method r \<in> {''PUT'', ''POST'', ''DELETE''}"
proof -
  have path: "\<not> HasPrefix (u_Path (rq_URL r)) ''/internal/''"
    using assms by (auto simp: ServeHTTP_def)
  obtain ok r' where v: "verifySigV4 (hd_accessKey h) (hd_secretKey h) r = (ok, r')" by fastforce
  then have ok: "ok" using assms path by (cases ok) (auto simp: ServeHTTP_def)
  with assms(1) path v have "route V r' s = (x, s')" by (simp add: ServeHTTP_def)
  then have "rq_Method r' \<in> set writing_methods" using assms(2) route_reads [of r' V s] by auto
  moreover have "rq_Method r' = rq_Method r"
    using verifySigV4_request [of "hd_accessKey h" "hd_secretKey h" r] v by auto
  ultimately show ?thesis using path v ok by (simp add: writing_methods_def)
qed

fun err_leaf :: "err \<Rightarrow> err" where
  "err_leaf (ErrWrap s e) = err_leaf e"
| "err_leaf e = e"

lemma errors_Is_leaf: "\<forall>s e'. x \<noteq> ErrWrap s e' \<Longrightarrow> errors_Is e x \<longleftrightarrow> err_leaf e = x"
  by (induction e) auto

text \<open>The status of an error response depends on the store error at the end of the chain of wrapped
  errors: an existing bucket is a conflict, a missing bucket, key or upload is not found, and everything
  else, a store that is not the leader and every failure of the server included, is a bad request.\<close>

theorem error_status:
  "rs_Status (storeError e) =
     (case err_leaf e of
        ErrBucketExists \<Rightarrow> 409 | ErrNoBucket \<Rightarrow> 404 | ErrNoKey \<Rightarrow> 404 | ErrInvalidUploadID \<Rightarrow> 404 | _ \<Rightarrow> 400)"
proof -
  have leaf: "err_leaf e \<noteq> ErrWrap s e'" for s e' by (induction e) auto
  show ?thesis
    using leaf by (cases "err_leaf e") (simp_all add: storeError_def s3Error_def Let_def errors_Is_leaf)
qed


lemma verify_signed:
  assumes "auth_wf a" and "payload \<noteq> ''''" and "hd_accessKey h = sa_accessKey a"
    and "\<not> HasPrefix (u_Path (rq_URL r)) ''/internal/''"
  shows "ServeHTTP V h (sign_request (hd_secretKey h) a payload r) s =
    route V (sign_request (hd_secretKey h) a payload r) s"
  using assms sign_request_verifies [OF assms(1,2)] by (simp add: ServeHTTP_def)

text \<open>The URL of an object, as a client writes it: no query, and nothing in the path that needs escaping
  kept apart.\<close>

definition object_url :: "string \<Rightarrow> string \<Rightarrow> URL" where
  "object_url b k = \<lparr>u_Scheme = '''', u_Path = ''/'' @ b @ ''/'' @ k, u_RawPath = '''', u_RawQuery = ''''\<rparr>"

lemma object_url_query [simp]: "url_Query (object_url b k) = []"
  by (simp add: object_url_def url_Query_def add_setting_def)

lemma no_query [simp]: "values_Has [] k = False" "values_Get [] k = ''''"
  by (simp_all add: values_Has_def values_Get_def)

lemma object_url_external:
  assumes "CHR ''/'' \<notin> set b" and "b \<noteq> ''internal''"
  shows "\<not> HasPrefix (u_Path (object_url b k)) ''/internal/''"
proof
  assume "HasPrefix (u_Path (object_url b k)) ''/internal/''"
  then obtain t where "b @ CHR ''/'' # k = ''internal'' @ CHR ''/'' # t"
    by (auto simp: object_url_def HasPrefix_def prefix_def)
  then have "cut (CHR ''/'') (b @ CHR ''/'' # k) = cut (CHR ''/'') (''internal'' @ CHR ''/'' # t)" by simp
  moreover have "cut (CHR ''/'') (''internal'' @ CHR ''/'' # t) = (''internal'', Some t)" by (rule cut_append) simp
  ultimately show False using assms by (simp add: cut_append)
qed

lemma route_object:
  assumes "rq_URL r = object_url b k" and "CHR ''/'' \<notin> set b"
  shows "route V r s = handleObject V r b k s"
  using cut_append [OF assms(2), of k] assms(1)
  by (simp add: route_def Let_def object_url_def TrimPrefix_def HasPrefix_def)

lemma FormatInt_size:
  "n \<le> MaxObjectSize \<Longrightarrow> sint (word_of_int (int n) :: 64 word) = int n"
  by (subst sint_sbintrunc') (simp add: signed_take_bit_int_eq_self MaxObjectSize_def)

lemma ms_GetObject_not_marker: "ms_GetObject b k '''' m = Ok meta \<Longrightarrow> \<not> om_IsDeleteMarker meta"
  by (auto simp: ms_GetObject_def Let_def split: option.splits if_splits)


lemma put_over_http:
  assumes "auth_wf a" and "payload \<noteq> ''''" and "hd_accessKey h = sa_accessKey a"
    and "rq_URL r = object_url b k" and "CHR ''/'' \<notin> set b" and "b \<noteq> ''internal''" and "rq_Method r = ''PUT''"
  shows "ServeHTTP V h (sign_request (hd_secretKey h) a payload r) s =
    putObject V (sign_request (hd_secretKey h) a payload r) b k s"
  using assms by (simp add: verify_signed object_url_external route_object handleObject_def)

lemma get_over_http:
  assumes "auth_wf a" and "payload \<noteq> ''''" and "hd_accessKey h = sa_accessKey a"
    and "rq_URL r = object_url b k" and "CHR ''/'' \<notin> set b" and "b \<noteq> ''internal''" and "rq_Method r = ''GET''"
  shows "ServeHTTP V h (sign_request (hd_secretKey h) a payload r) s =
    getObject V (sign_request (hd_secretKey h) a payload r) b k s"
  using assms by (simp add: verify_signed object_url_external route_object handleObject_def)

text \<open>Over HTTP, what is put is what is got: a signed \<^verbatim>\<open>PUT\<close> of an object is answered with 200 and
  the digest of the body as \<^verbatim>\<open>ETag\<close>, and a signed \<^verbatim>\<open>GET\<close> of the same URL then with 200, exactly those
  bytes, the same \<^verbatim>\<open>ETag\<close>, and their number as \<^verbatim>\<open>Content-Length\<close>; the read changes nothing.\<close>

lemma http_put_get:
  assumes store: "ms_wf (st_meta s)" "ms_writable (st_meta s) b" "ms_room (st_meta s) b k" "accepts s"
      "valid_utf8 b" "valid_utf8 k" "length data \<le> MaxObjectSize" "blobs_intact (st_dataDir s) (st_disk s)"
    and client: "auth_wf a" "payload \<noteq> ''''" "payload' \<noteq> ''''" "hd_accessKey h = sa_accessKey a"
    and url: "rq_URL r = object_url b k" "rq_URL r' = object_url b k" "CHR ''/'' \<notin> set b" "b \<noteq> ''internal''"
    and "rq_Method r = ''PUT''" and "rq_Body r = \<lparr>rd_data = data, rd_err = None\<rparr>" and "rq_Method r' = ''GET''"
    and "ev_os V = os_ok" and "ev_os V' = os_ok"
  shows "\<exists>x x' s'. ServeHTTP V h (sign_request (hd_secretKey h) a payload r) s = (Ok x, s') \<and>
      rs_Status x = 200 \<and> map_of (rs_Header x) ''ETag'' = Some (quoted (sha_hex data)) \<and>
      ServeHTTP V' h (sign_request (hd_secretKey h) a payload' r') s' = (Ok x', s') \<and>
      rs_Status x' = 200 \<and> rs_Body x' = BBytes data \<and>
      map_of (rs_Header x') ''ETag'' = Some (quoted (sha_hex data)) \<and>
      map_of (rs_Header x') ''Content-Length'' = Some (FormatInt (int (length data)))"
proof -
  have body: "ReadAll_limit MaxObjectSize (rq_Body r) = Ok data"
    using store(7) assms(18) by (simp add: ReadAll_limit_def)
  obtain vid s' meta where put: "st_PutObject os_ok (ev_now V) b k (rq_Body r) s = (Ok (sha_hex data, vid), s')"
    and get: "st_GetObject os_ok b k '''' s' = Ok (data, meta)"
    and meta: "om_Size meta = word_of_int (int (length data))" "om_ETag meta = sha_hex data"
    using put_reads_back [OF store(1-6) body store(8), of "ev_now V"] by blast
  have marker: "\<not> om_IsDeleteMarker meta" using st_GetObject_OkD(1) [OF get] by (rule ms_GetObject_not_marker)
  from put_over_http [OF client(1,2,4) url(1,3,4) assms(17), of V s]
  have 1: "ServeHTTP V h (sign_request (hd_secretKey h) a payload r) s =
      (Ok \<lparr>rs_Status = 200, rs_Header = (''ETag'', quoted (sha_hex data)) # version_header vid, rs_Body = BNone\<rparr>, s')"
    by (simp add: putObject_def assms(20) put)
  from get_over_http [OF client(1,3,4) url(2,3,4) assms(19), of V' s']
  have 2: "ServeHTTP V' h (sign_request (hd_secretKey h) a payload' r') s' =
      (Ok \<lparr>rs_Status = 200, rs_Header = object_headers meta, rs_Body = BBytes data\<rparr>, s')"
    by (simp add: getObject_def assms(21) query_def url get marker)
  show ?thesis
    unfolding 1 using meta FormatInt_size [OF store(7)] by (simp add: 2 object_headers_def)
qed


definition demo_env :: "(string, json) gomap env" where
  "demo_env = \<lparr>ev_bolt = alist_bolt, ev_os = os_ok, ev_now = 9, ev_later = 10, ev_rand = (\<lambda>n. replicate n (CHR 0x07)),
     ev_xml = (\<lambda>_. None), ev_json = (\<lambda>_. None)\<rparr>"

definition demo_handler :: Handler where
  "demo_handler = NewHandler ''minioadmin'' ''secret''"

lemma demo_handler_keys [simp]: "hd_accessKey demo_handler = ''minioadmin''" "hd_secretKey demo_handler = ''secret''"
  by (simp_all add: demo_handler_def NewHandler_def)

lemma demo_request_url [simp]:
  "rq_URL (demo_request m ''/b/k'' d) = object_url ''b'' ''k''" "rq_Method (demo_request m p d) = m"
  "rq_Body (demo_request m p d) = \<lparr>rd_data = d, rd_err = None\<rparr>"
  by (simp_all add: demo_request_def object_url_def)

lemma demo_access [simp]: "sa_accessKey demo_auth = ''minioadmin''"
  by (simp add: demo_auth_def)

theorem state_changes_authenticated_witness:
  "snd (ServeHTTP demo_env demo_handler demo_signed demo_store) \<noteq> demo_store \<and>
   fst (verifySigV4 ''minioadmin'' ''secret'' demo_signed)"
proof -
  obtain x s' where e: "ServeHTTP demo_env demo_handler demo_signed demo_store = (x, s')" by fastforce
  have "ServeHTTP demo_env demo_handler demo_signed demo_store =
      putObject demo_env demo_signed ''b'' ''k'' demo_store"
    unfolding demo_signed_def
    using put_over_http [OF demo_auth_wf, of "''UNSIGNED-PAYLOAD''" demo_handler
        "demo_request ''PUT'' ''/b/k'' ''hello''" "''b''" "''k''"] by simp
  moreover have "ReadAll_limit MaxObjectSize \<lparr>rd_data = ''hello'', rd_err = None\<rparr> = Ok ''hello''"
    using MaxObjectSize_pos [of 5] by (simp add: ReadAll_limit_def)
  from put_reads_back [OF demo_store_facts(1-4) demo_names(1,2) this demo_store_facts(5), of 9]
  obtain vid s1 meta where
    "st_PutObject os_ok 9 ''b'' ''k'' \<lparr>rd_data = ''hello'', rd_err = None\<rparr> demo_store = (Ok (sha_hex ''hello'', vid), s1)"
    "st_GetObject os_ok ''b'' ''k'' '''' s1 = Ok (''hello'', meta)" by blast
  moreover have "st_GetObject os_ok ''b'' ''k'' '''' demo_store \<noteq> Ok (''hello'', meta)"
    by (auto dest!: st_GetObject_OkD(2) simp: demo_store_def blob_at_def)
  ultimately have ne: "s' \<noteq> demo_store" using e by (auto simp: putObject_def demo_env_def demo_signed_def)
  with state_changes_authenticated [OF e ne] e show ?thesis by simp
qed


text \<open>The shape of a response: a status of the protocol, an XML body exactly when the content type
  says so, and on success no error document.\<close>

fun is_xml :: "body \<Rightarrow> bool" where
  "is_xml (BXml doc) = True"
| "is_xml _ = False"

fun xml_root :: "body \<Rightarrow> string" where
  "xml_root (BXml (XElem n as cs)) = n"
| "xml_root _ = ''''"

definition response_wf :: "response \<Rightarrow> bool" where
  "response_wf x =
     (rs_Status x \<in> {200, 204, 400, 403, 404, 405, 409, 500, 503} \<and>
      (is_xml (rs_Body x) \<longleftrightarrow> map_of (rs_Header x) ''Content-Type'' = Some ''application/xml'') \<and>
      (xml_root (rs_Body x) = ''Error'' \<longrightarrow> rs_Status x \<in> {400, 403, 404, 409}) \<and>
      (is_xml (rs_Body x) \<and> xml_root (rs_Body x) \<noteq> ''Error'' \<longrightarrow> rs_Status x = 200))"

lemma storeError_wf [simp]: "response_wf (storeError e)"
  by (simp add: storeError_def s3Error_def s3ErrorBody_def response_wf_def Let_def)

lemma s3Error_wf [simp]: "response_wf (s3Error code msg)"
  by (simp add: s3Error_def s3ErrorBody_def response_wf_def Let_def)

lemma status_only_wf: "response_wf (status_only n) \<longleftrightarrow> n \<in> {200, 204, 400, 403, 404, 405, 409, 500, 503}"
  by (auto simp: status_only_def response_wf_def)

lemma http_Error_wf: "response_wf (http_Error msg n) \<longleftrightarrow> n \<in> {200, 204, 400, 403, 404, 405, 409, 500, 503}"
  by (auto simp: http_Error_def response_wf_def)

lemma writeXML_wf: "doc = XElem n as cs \<Longrightarrow> n \<noteq> ''Error'' \<Longrightarrow> response_wf (writeXML doc)"
  by (simp add: writeXML_def response_wf_def)

lemma xroot_wf [simp]: "n \<noteq> ''Error'' \<Longrightarrow> response_wf (writeXML (xroot n cs))"
  by (simp add: xroot_def writeXML_wf)

lemmas results = listBucketsResult_def listBucketResult_def initiateMultipartUploadResult_def
  completeMultipartUploadResult_def listPartsResult_def listMultipartUploadsResult_def listObjectVersionsResult_def

lemma marker_wf [simp]: "response_wf (marker_response meta)"
  by (simp add: marker_response_def response_wf_def version_header_def)

lemma headers_wf [simp]:
  "response_wf \<lparr>rs_Status = 200, rs_Header = object_headers meta, rs_Body = BBytes data\<rparr>"
  "response_wf \<lparr>rs_Status = 200, rs_Header = object_headers meta, rs_Body = BNone\<rparr>"
  "response_wf \<lparr>rs_Status = 200, rs_Header = (''ETag'', e) # version_header vid, rs_Body = BNone\<rparr>"
  "response_wf \<lparr>rs_Status = 200, rs_Header = [(''ETag'', e)], rs_Body = BNone\<rparr>"
  by (simp_all add: response_wf_def version_header_def object_headers_def)

text \<open>What a handler answers is well formed; a panic answers nothing.\<close>

definition handled_wf :: "'db handled \<Rightarrow> bool" where
  "handled_wf p = (case fst p of Ok x \<Rightarrow> response_wf x | _ \<Rightarrow> True)"

lemma handled_Ok [simp]: "handled_wf (Ok x, s) = response_wf x" "handled_wf (Panic m, s)"
  by (simp_all add: handled_wf_def)

lemma respond_wf: "(\<And>y. response_wf (f y)) \<Longrightarrow> handled_wf (respond f p)"
  by (cases p; cases "fst p") auto

lemma handleBucket_wf: "handled_wf (handleBucket V r b s)"
  by (auto simp: handleBucket_def Let_def read_handlers results status_only_wf
      intro!: respond_wf split: prod.split)

lemma headObject_wf: "handled_wf (headObject r b k s)"
  by (simp add: headObject_def Let_def status_only_wf split: outcome.split)

lemma handleObject_wf: "handled_wf (handleObject V r b k s)"
  by (auto simp: handleObject_def Let_def getObject_def listParts_def write_handlers results status_only_wf
      headObject_wf intro!: respond_wf split: prod.split option.split)

lemma routeInternal_wf: "response_wf (routeInternal parse h r)"
  by (simp add: routeInternal_def http_Error_wf status_only_wf split: option.split sum.split outcome.split)

text \<open>C19. Every answer of the server is well formed: its status is one of nine, the content type is
  XML exactly when the body is an XML document, an error document comes with a client-error status, and
  every other document with 200.\<close>

theorem responses_well_formed:
  assumes "ServeHTTP V h r s = (Ok x, s')"
  shows "response_wf x"
proof -
  have "handled_wf (route V r' s)" for r'
    by (simp add: route_def Let_def listBuckets_def results handleBucket_wf handleObject_wf
        split: prod.split option.split)
  then have "handled_wf (ServeHTTP V h r s)"
    by (simp add: ServeHTTP_def routeInternal_wf split: prod.split bool.split)
  then show ?thesis by (simp add: assms)
qed

theorem responses_well_formed_witness:
  "response_wf (s3Error ''AccessDenied'' ''access denied'') \<and>
   ServeHTTP demo_env demo_handler (demo_request ''GET'' ''/b/k'' '''') demo_store =
     (Ok (s3Error ''AccessDenied'' ''access denied''), demo_store)"
proof -
  have "\<not> HasPrefix ''/b/k'' ''/internal/''" by code_simp
  then have "ServeHTTP demo_env demo_handler (demo_request ''GET'' ''/b/k'' '''') demo_store =
      (Ok (s3Error ''AccessDenied'' ''access denied''), demo_store)"
    by (simp add: ServeHTTP_def demo_request_def verifySigV4_def parseSigV4_def header_Get_def Let_def
        HasPrefix_def algorithm_def)
  with responses_well_formed [OF this] show ?thesis by simp
qed


text \<open>The network that carries a join request: the host and the path of an \<^verbatim>\<open>http\<close> URL without query, fragment
  or escapes, and the exchange with the node that listens at that host. The body is what \<^verbatim>\<open>encoding/json\<close> writes
  for the payload, and the answer is that of the node's handler.\<close>

definition url_parts :: "string \<Rightarrow> (string \<times> string) option" where
  "url_parts url =
     (if HasPrefix url ''http://'' \<and> (\<forall>c \<in> set url. c \<notin> set ''?#%@'') then
        (case cut (CHR ''/'') (drop 7 url) of
           (host, None) \<Rightarrow> Some (host, '''')
         | (host, Some p) \<Rightarrow> Some (host, CHR ''/'' # p))
      else None)"

definition join_request :: "string \<Rightarrow> string \<Rightarrow> bytes \<Rightarrow> request" where
  "join_request host path body =
     \<lparr>rq_Method = ''POST'', rq_URL = \<lparr>u_Scheme = '''', u_Path = path, u_RawPath = '''', u_RawQuery = ''''\<rparr>,
      rq_Host = host, rq_Header = [(''Content-Type'', [''application/json''])], rq_Body = \<lparr>rd_data = body, rd_err = None\<rparr>\<rparr>"

definition join_exchange :: "'db env \<Rightarrow> (json \<Rightarrow> bytes) \<Rightarrow> (nat \<Rightarrow> string) \<Rightarrow> (string \<Rightarrow> (Handler \<times> 'db Store) option)
    \<Rightarrow> string \<Rightarrow> json \<Rightarrow> err + (string \<times> nat \<times> bytes)" where
  "join_exchange V ser statusText nodes url j =
     (case url_parts url of
        None \<Rightarrow> Inl (ErrText ''unsupported URL'')
      | Some (host, path) \<Rightarrow>
          (case nodes host of
             None \<Rightarrow> Inl (ErrText ''connection refused'')
           | Some (h, s) \<Rightarrow>
               (case fst (ServeHTTP V h (join_request host path (ser j)) s) of
                  Ok x \<Rightarrow> Inr (statusText (rs_Status x), rs_Status x, (case rs_Body x of BBytes t \<Rightarrow> t | _ \<Rightarrow> ''''))
                | _ \<Rightarrow> Inl (ErrText ''EOF''))))"

lemma dec_enc_joinPayload:
  "valid_utf8 (jp_ID p) \<Longrightarrow> valid_utf8 (jp_Addr p) \<Longrightarrow> dec_joinPayload (enc_joinPayload p) = Inr p"
  by (simp add: enc_joinPayload_def json_string_def valid_utf8_def to_lower_def)

lemma AddVoter_no_panic [simp]: "RaftNode_AddVoter n i a \<noteq> Panic m"
  by (simp add: RaftNode_AddVoter_def split: option.split)

lemma url_parts_http:
  assumes "CHR ''/'' \<notin> set host" and "\<forall>c \<in> set (host @ path). c \<notin> set ''?#%@''"
  shows "url_parts (''http://'' @ host @ CHR ''/'' # path) = Some (host, CHR ''/'' # path)"
  using assms by (simp add: url_parts_def HasPrefix_def cut_append ball_Un)

text \<open>The URL that a join request goes to, for an address with or without scheme, trailing slash and path.\<close>

lemma contains_iff: "contains s sub \<longleftrightarrow> (\<exists>a b. s = a @ sub @ b)"
proof
  assume "contains s sub"
  then obtain i b where "drop i s = sub @ b" by (auto simp: contains_def list_ex_iff prefix_def)
  then show "\<exists>a b. s = a @ sub @ b" by (metis append_take_drop_id)
next
  assume "\<exists>a b. s = a @ sub @ b"
  then obtain a b where "s = a @ sub @ b" by blast
  then show "contains s sub" by (auto simp: contains_def list_ex_iff intro!: bexI [of _ "length a"])
qed

lemma no_scheme:
  assumes "CHR ''/'' \<notin> set host"
  shows "\<not> contains host ''://''" and "\<not> contains (host @ ''/'') ''://''"
proof -
  show "\<not> contains host ''://''" using assms by (auto simp: contains_iff)
  have False if eq: "host @ ''/'' = a @ ''://'' @ b" for a b
  proof (cases b rule: rev_cases)
    case Nil
    with eq have "host @ [CHR ''/''] = (a @ '':/'') @ [CHR ''/'']" by simp
    then have "host = a @ '':/''" by (simp only: append1_eq_conv)
    with assms show ?thesis by simp
  next
    case (snoc b' x)
    with eq have "host @ [CHR ''/''] = (a @ ''://'' @ b') @ [x]" by simp
    then have "host = a @ ''://'' @ b'" by (simp only: append1_eq_conv)
    with assms show ?thesis by simp
  qed
  then show "\<not> contains (host @ ''/'') ''://''" by (auto simp only: contains_iff)
qed

lemma with_scheme: "contains (''http://'' @ s) ''://''"
  unfolding contains_iff by (rule exI [of _ "''http''"]) simp

lemma TrimSuffix_slash:
  "TrimSuffix (s @ ''/'') ''/'' = s" "CHR ''/'' \<notin> set s \<Longrightarrow> s \<noteq> [] \<Longrightarrow> TrimSuffix (p @ s) ''/'' = p @ s"
  by (simp add: TrimSuffix_def) (cases s rule: rev_cases; auto simp: TrimSuffix_def suffix_def)

lemma join_url:
  assumes "CHR ''/'' \<notin> set host" and "host \<noteq> ''''"
    and "leader \<in> {host, host @ ''/'', ''http://'' @ host, ''http://'' @ host @ ''/''}"
  shows "TrimSuffix (if contains leader ''://'' then leader else ''http://'' @ leader) ''/'' @ ''/internal/join'' =
    ''http://'' @ host @ ''/internal/join''"
proof -
  have "TrimSuffix (''http://'' @ host @ ''/'') ''/'' = ''http://'' @ host"
    using TrimSuffix_slash(1) [of "''http://'' @ host"] by simp
  moreover have "TrimSuffix (''http://'' @ host) ''/'' = ''http://'' @ host" by (rule TrimSuffix_slash(2) [OF assms(1,2)])
  ultimately show ?thesis
    using assms(3) no_scheme [OF assms(1)] with_scheme [of host] with_scheme [of "host @ ''/''"] by auto
qed

lemma join_served:
  "ServeHTTP V h (join_request host ''/internal/join'' body) s =
    (Ok (routeInternal (ev_json V) h (join_request host ''/internal/join'' body)), s)"
  by (simp add: ServeHTTP_def join_request_def HasPrefix_def)

lemma join_status:
  assumes "parse \<lparr>rd_data = body, rd_err = None\<rparr> = Some (enc_joinPayload p)" and "valid_utf8 (jp_ID p)" and "valid_utf8 (jp_Addr p)"
  shows "rs_Status (routeInternal parse h (join_request host ''/internal/join'' body)) = 200 \<longleftrightarrow>
    jp_ID p \<noteq> '''' \<and> jp_Addr p \<noteq> '''' \<and> (\<exists>n. hd_joiner h = Some n \<and> RaftNode_AddVoter n (jp_ID p) (jp_Addr p) = Ok ())"
  using assms(1) dec_enc_joinPayload [OF assms(2,3)]
  by (auto simp: routeInternal_def join_request_def http_Error_def status_only_def split: option.split outcome.splits)

text \<open>C18. Joining works exactly when the cluster admits the node: where \<^verbatim>\<open>leader\<close> is the address of a host, with
  or without \<^verbatim>\<open>http://\<close> and a trailing slash, and with a JSON reader that reads back what the writer wrote,
  \<^verbatim>\<open>RequestJoin\<close> succeeds if and only if a node listens at that host, the identifier and the address are
  given, that node has joining enabled, and its Raft node takes the voter.\<close>

theorem join_admits:
  assumes "host \<noteq> ''''" and "\<forall>c \<in> set host. c \<notin> set ''/?#%@''"
    and "leader \<in> {host, host @ ''/'', ''http://'' @ host, ''http://'' @ host @ ''/''}"
    and "ev_json V \<lparr>rd_data = ser (enc_joinPayload \<lparr>jp_ID = nid, jp_Addr = addr\<rparr>), rd_err = None\<rparr> =
      Some (enc_joinPayload \<lparr>jp_ID = nid, jp_Addr = addr\<rparr>)"
    and "valid_utf8 nid" and "valid_utf8 addr"
  shows "RequestJoin (join_exchange V ser statusText nodes) leader nid addr = Ok () \<longleftrightarrow>
      nid \<noteq> '''' \<and> addr \<noteq> '''' \<and>
      (\<exists>h s n. nodes host = Some (h, s) \<and> hd_joiner h = Some n \<and> RaftNode_AddVoter n nid addr = Ok ())"
proof -
  let ?p = "\<lparr>jp_ID = nid, jp_Addr = addr\<rparr>"
  have "CHR ''/'' \<notin> set host" using assms(2) by auto
  note url = join_url [OF this assms(1,3)]
  have "url_parts (''http://'' @ host @ ''/internal/join'') = Some (host, ''/internal/join'')"
    using url_parts_http [of host "''internal/join''"] assms(2) by auto
  then have "RequestJoin (join_exchange V ser statusText nodes) leader nid addr = Ok () \<longleftrightarrow>
      (\<exists>h s. nodes host = Some (h, s) \<and>
        rs_Status (routeInternal (ev_json V) h (join_request host ''/internal/join'' (ser (enc_joinPayload ?p)))) = 200)"
    unfolding RequestJoin_def Let_def url
    by (simp add: join_exchange_def join_served split: option.split)
  then show ?thesis using join_status [of "ev_json V" "ser (enc_joinPayload ?p)" ?p] assms(4-6) by auto
qed


text \<open>A writer and a reader that agree on the payload of one node.\<close>

definition demo_join_text :: "json \<Rightarrow> bytes" where
  "demo_join_text j =
     (if j = enc_joinPayload \<lparr>jp_ID = ''n2'', jp_Addr = ''n2:7000''\<rparr> then ''{'' @ [CHR 0x22] @ ''id'' @ [CHR 0x22] @ '':'' @
        [CHR 0x22] @ ''n2'' @ [CHR 0x22] @ '','' @ [CHR 0x22] @ ''addr'' @ [CHR 0x22] @ '':'' @ [CHR 0x22] @ ''n2:7000'' @
        [CHR 0x22] @ ''}'' else ''null'')"

definition demo_join_parse :: "reader \<Rightarrow> json option" where
  "demo_join_parse rd =
     (let j = enc_joinPayload \<lparr>jp_ID = ''n2'', jp_Addr = ''n2:7000''\<rparr>
      in if rd_data rd = demo_join_text j then Some j else None)"

theorem join_admits_witness:
  "RequestJoin (join_exchange (demo_env\<lparr>ev_json := demo_join_parse\<rparr>) demo_join_text (\<lambda>_. ''200 OK'')
       [''localhost:9000'' \<mapsto> (SetJoiner (Some demo_node) demo_handler, demo_store)])
     ''localhost:9000'' ''n2'' ''n2:7000'' = Ok () \<and>
   RequestJoin (join_exchange (demo_env\<lparr>ev_json := demo_join_parse\<rparr>) demo_join_text (\<lambda>_. ''503 Service Unavailable'')
       [''localhost:9000'' \<mapsto> (demo_handler, demo_store)])
     ''http://localhost:9000/'' ''n2'' ''n2:7000'' \<noteq> Ok ()"
proof -
  have p: "ev_json (demo_env\<lparr>ev_json := demo_join_parse\<rparr>)
      \<lparr>rd_data = demo_join_text (enc_joinPayload \<lparr>jp_ID = ''n2'', jp_Addr = ''n2:7000''\<rparr>), rd_err = None\<rparr> =
      Some (enc_joinPayload \<lparr>jp_ID = ''n2'', jp_Addr = ''n2:7000''\<rparr>)"
    by (simp add: demo_join_parse_def)
  have u: "valid_utf8 ''n2''" "valid_utf8 ''n2:7000''" by (simp_all add: valid_utf8_ascii)
  have "RaftNode_AddVoter demo_node ''n2'' ''n2:7000'' = Ok ()"
    by (simp add: RaftNode_AddVoter_def demo_node_def demo_lib_def)
  with join_admits [where V = "demo_env\<lparr>ev_json := demo_join_parse\<rparr>" and ser = demo_join_text and nid = "''n2''"
      and addr = "''n2:7000''" and host = "''localhost:9000''", OF _ _ _ p u]
  show ?thesis by (simp add: SetJoiner_def demo_handler_def NewHandler_def)
qed


text \<open>A bucket can be named \<^verbatim>\<open>internal\<close>, but requests for its objects are taken for operator endpoints and
  answered with 404 whatever they carry.\<close>

lemma internal_bucket_unreachable:
  assumes "rq_URL r = object_url ''internal'' k" and "k \<noteq> ''join''"
  shows "ServeHTTP V h r s = (Ok (http_Error ''not found'' 404), s)"
  using assms by (simp add: ServeHTTP_def object_url_def HasPrefix_def routeInternal_def)

end
