(* ===== verification/Server.thy ===== *)
theory Server
  imports Api
begin

text \<open>
  Configuration (\<^verbatim>\<open>internal/config/config.go\<close>) and the process (\<^verbatim>\<open>cmd/server/main.go\<close>): the flags, the
  order defaults, file, flags, the start of every part and how they are wired, the loop that joins a
  cluster, the reaper, and the end of the process. Log lines are not modelled; \<^verbatim>\<open>log.Fatal\<close> is an error.
  The TOML decoder, the network and the Raft library are parameters.
\<close>

section \<open>Configuration\<close>

record Config =
  cfg_DataDir :: string
  cfg_Listen :: string
  cfg_NodeID :: string
  cfg_RaftAddr :: string
  cfg_TLSCert :: string
  cfg_TLSKey :: string
  cfg_AccessKey :: string
  cfg_SecretKey :: string
  cfg_Bootstrap :: bool
  cfg_Join :: string
  cfg_Region :: string
  cfg_UploadMaxAge :: string

definition config_Default :: Config where
  "config_Default =
     \<lparr>cfg_DataDir = ''./data'', cfg_Listen = '':9000'', cfg_NodeID = ''node1'', cfg_RaftAddr = ''localhost:9090'',
      cfg_TLSCert = '''', cfg_TLSKey = '''', cfg_AccessKey = ''minioadmin'', cfg_SecretKey = ''minioadmin'',
      cfg_Bootstrap = False, cfg_Join = '''', cfg_Region = ''us-east-1'', cfg_UploadMaxAge = ''24h''\<rparr>"

text \<open>\<open>decode\<close> is \<^verbatim>\<open>toml.DecodeFile\<close>: it decodes the file at a path over a configuration.\<close>

definition config_Load :: "(string \<Rightarrow> Config \<Rightarrow> err + Config) \<Rightarrow> string \<Rightarrow> Config outcome" where
  "config_Load decode path =
     (if path = '''' then Ok config_Default
      else case decode path config_Default of
        Inl e \<Rightarrow> Err (ErrWrap (''load config '' @ path) e)
      | Inr cfg \<Rightarrow> Ok cfg)"

section \<open>Flags\<close>

datatype flagval = FStr string | FBool bool

definition flag_defs :: "(string, flagval) gomap" where
  "flag_defs =
     [(''config'', FStr ''''), (''data-dir'', FStr ''./data''), (''listen'', FStr '':9000''), (''node-id'', FStr ''node1''),
      (''raft-addr'', FStr ''localhost:9090''), (''tls-cert'', FStr ''''), (''tls-key'', FStr ''''),
      (''access-key'', FStr ''minioadmin''), (''secret-key'', FStr ''minioadmin''), (''bootstrap'', FBool False),
      (''join'', FStr ''''), (''region'', FStr ''us-east-1''), (''upload-max-age'', FStr ''24h'')]"

definition ParseBool :: "string \<Rightarrow> bool option" where
  "ParseBool s =
     (if s \<in> set [''1'', ''t'', ''T'', ''TRUE'', ''true'', ''True''] then Some True
      else if s \<in> set [''0'', ''f'', ''F'', ''FALSE'', ''false'', ''False''] then Some False
      else None)"

definition flag_name :: "string \<Rightarrow> string" where
  "flag_name a = (if a ! 1 = CHR ''-'' then drop 2 a else drop 1 a)"

text \<open>One step of \<^verbatim>\<open>flag.Parse\<close>: the setting of the next argument and the arguments that are left, or
  none when parsing stops, at the first argument that is not a flag. An error ends the process.\<close>

definition flag_parseOne :: "string \<Rightarrow> string list \<Rightarrow> ((string \<times> flagval) \<times> string list) option outcome" where
  "flag_parseOne a args =
     (if length a < 2 \<or> a ! 0 \<noteq> CHR ''-'' \<or> a = ''--'' then Ok None
      else if flag_name a = '''' \<or> hd (flag_name a) = CHR ''-'' \<or> hd (flag_name a) = CHR ''='' then
        Err (ErrText (''bad flag syntax: '' @ a))
      else case cut (CHR ''='') (flag_name a) of
        (n, v) \<Rightarrow>
          (case map_of flag_defs n of
             None \<Rightarrow> Err (ErrText (if n = ''help'' \<or> n = ''h'' then ''flag: help requested''
                                   else ''flag provided but not defined: -'' @ n))
           | Some (FBool _) \<Rightarrow>
               (case (case v of None \<Rightarrow> Some True | Some t \<Rightarrow> ParseBool t) of
                  None \<Rightarrow> Err (ErrText (''invalid boolean value for -'' @ n))
                | Some b \<Rightarrow> Ok (Some ((n, FBool b), args)))
           | Some (FStr _) \<Rightarrow>
               (case v of
                  Some t \<Rightarrow> Ok (Some ((n, FStr t), args))
                | None \<Rightarrow>
                    (case args of
                       [] \<Rightarrow> Err (ErrText (''flag needs an argument: -'' @ n))
                     | t # rest \<Rightarrow> Ok (Some ((n, FStr t), rest))))))"

lemma flag_parseOne_rest: "flag_parseOne a args = Ok (Some (p, rest)) \<Longrightarrow> length rest \<le> length args"
  by (auto simp: flag_parseOne_def split: if_splits prod.splits option.splits flagval.splits list.splits)

text \<open>\<^verbatim>\<open>flag.Parse\<close>: the settings on the command line, in order.\<close>

function flag_Parse :: "string list \<Rightarrow> (string \<times> flagval) list outcome" where
  "flag_Parse [] = Ok []"
| "flag_Parse (a # args) =
     (case flag_parseOne a args of
        Ok None \<Rightarrow> Ok []
      | Ok (Some (p, rest)) \<Rightarrow> map_outcome ((#) p) (flag_Parse rest)
      | Err e \<Rightarrow> Err e
      | Panic m \<Rightarrow> Panic m)"
  by pat_completeness auto
termination
  by (relation "measure length") (auto dest: flag_parseOne_rest)

fun as_string :: "flagval \<Rightarrow> string" where
  "as_string (FStr s) = s"
| "as_string (FBool b) = ''''"

fun as_bool :: "flagval \<Rightarrow> bool" where
  "as_bool (FBool b) = b"
| "as_bool (FStr s) = False"

text \<open>The value a flag variable has after parsing: the last setting, or the default.\<close>

definition flag_get :: "(string \<times> flagval) list \<Rightarrow> string \<Rightarrow> flagval" where
  "flag_get sets n =
     (case map_of (rev sets) n of
        Some v \<Rightarrow> v
      | None \<Rightarrow> (case map_of flag_defs n of Some v \<Rightarrow> v | None \<Rightarrow> FStr ''''))"

text \<open>The function passed to \<^verbatim>\<open>flag.Visit\<close>.\<close>

definition apply_flag :: "(string \<Rightarrow> flagval) \<Rightarrow> string \<Rightarrow> Config \<Rightarrow> Config" where
  "apply_flag val n cfg =
     (if n = ''data-dir'' then cfg\<lparr>cfg_DataDir := as_string (val n)\<rparr>
      else if n = ''listen'' then cfg\<lparr>cfg_Listen := as_string (val n)\<rparr>
      else if n = ''node-id'' then cfg\<lparr>cfg_NodeID := as_string (val n)\<rparr>
      else if n = ''raft-addr'' then cfg\<lparr>cfg_RaftAddr := as_string (val n)\<rparr>
      else if n = ''tls-cert'' then cfg\<lparr>cfg_TLSCert := as_string (val n)\<rparr>
      else if n = ''tls-key'' then cfg\<lparr>cfg_TLSKey := as_string (val n)\<rparr>
      else if n = ''access-key'' then cfg\<lparr>cfg_AccessKey := as_string (val n)\<rparr>
      else if n = ''secret-key'' then cfg\<lparr>cfg_SecretKey := as_string (val n)\<rparr>
      else if n = ''bootstrap'' then cfg\<lparr>cfg_Bootstrap := as_bool (val n)\<rparr>
      else if n = ''join'' then cfg\<lparr>cfg_Join := as_string (val n)\<rparr>
      else if n = ''region'' then cfg\<lparr>cfg_Region := as_string (val n)\<rparr>
      else if n = ''upload-max-age'' then cfg\<lparr>cfg_UploadMaxAge := as_string (val n)\<rparr>
      else cfg)"

text \<open>\<^verbatim>\<open>flag.Visit\<close> visits the flags that were set, once each, in the order of their names.\<close>

definition flag_Visit :: "(string \<times> flagval) list \<Rightarrow> Config \<Rightarrow> Config" where
  "flag_Visit sets cfg =
     foldl (\<lambda>c n. apply_flag (flag_get sets) n c) cfg (sort (remdups (map fst sets)))"

definition load_config :: "(string \<Rightarrow> Config \<Rightarrow> err + Config) \<Rightarrow> string list \<Rightarrow> Config outcome" where
  "load_config decode args =
     (case flag_Parse args of
        Err e \<Rightarrow> Err e
      | Panic p \<Rightarrow> Panic p
      | Ok sets \<Rightarrow>
          (case config_Load decode (as_string (flag_get sets ''config'')) of
             Err e \<Rightarrow> Err (ErrWrap ''config'' e)
           | Panic p \<Rightarrow> Panic p
           | Ok cfg \<Rightarrow> Ok (flag_Visit sets cfg)))"

section \<open>Durations\<close>

definition unit_map :: "(string, nat) gomap" where
  "unit_map =
     [(''ns'', 1), (''us'', 1000), ([CHR 0xC2, CHR 0xB5] @ ''s'', 1000), ([CHR 0xCE, CHR 0xBC] @ ''s'', 1000),
      (''ms'', 10 ^ 6), (''s'', 10 ^ 9), (''m'', 60 * 10 ^ 9), (''h'', 3600 * 10 ^ 9)]"

definition digit :: "char \<Rightarrow> nat" where
  "digit c = of_char c - 48"

fun leadingInt :: "string \<Rightarrow> nat \<Rightarrow> (nat \<times> string) option" where
  "leadingInt [] x = Some (x, [])"
| "leadingInt (c # s) x =
     (if is_digit c then
        (if 2 ^ 63 div 10 < x then None
         else let y = x * 10 + digit c in if 2 ^ 63 < y then None else leadingInt s y)
      else Some (x, c # s))"

text \<open>The digits of a fraction, how many count (the decimal exponent of the scale), and what is left.\<close>

fun leadingFraction :: "string \<Rightarrow> nat \<Rightarrow> nat \<Rightarrow> bool \<Rightarrow> nat \<times> nat \<times> string" where
  "leadingFraction [] x n over = (x, n, [])"
| "leadingFraction (c # s) x n over =
     (if is_digit c then
        (if over \<or> (2 ^ 63 - 1) div 10 < x then leadingFraction s x n True
         else let y = x * 10 + digit c in
           if 2 ^ 63 < y then leadingFraction s x n True else leadingFraction s y (Suc n) False)
      else (x, n, c # s))"

text \<open>One number with its unit. \<open>fmul f u n\<close> is the floating-point product of \<open>f\<close> and \<open>u\<close> divided by
  ten to the \<open>n\<close>, rounded to an integer as Go does.\<close>

definition duration_term :: "(nat \<Rightarrow> nat \<Rightarrow> nat \<Rightarrow> nat) \<Rightarrow> string \<Rightarrow> (nat \<times> string) option" where
  "duration_term fmul s =
     (if s = '''' \<or> \<not> (hd s = CHR ''.'' \<or> is_digit (hd s)) then None
      else case leadingInt s 0 of
        None \<Rightarrow> None
      | Some (v, s1) \<Rightarrow>
          (case (if s1 \<noteq> '''' \<and> hd s1 = CHR ''.'' then leadingFraction (tl s1) 0 0 False else (0, 0, s1)) of
             (f, n, s2) \<Rightarrow>
               (let pre = (length s1 \<noteq> length s);
                    post = (s1 \<noteq> '''' \<and> hd s1 = CHR ''.'' \<and> length s2 \<noteq> length (tl s1));
                    u = takeWhile (\<lambda>c. \<not> (c = CHR ''.'' \<or> is_digit c)) s2
                in if \<not> pre \<and> \<not> post \<or> u = '''' then None
                   else case map_of unit_map u of
                     None \<Rightarrow> None
                   | Some k \<Rightarrow>
                       if 2 ^ 63 div k < v then None
                       else let d = v * k + (if 0 < f then fmul f k n else 0)
                            in if 0 < f \<and> 2 ^ 63 < d then None else Some (d, drop (length u) s2))))"


lemma leadingInt_length: "leadingInt s x = Some (v, r) \<Longrightarrow> length r \<le> length s"
  by (induction s x rule: leadingInt.induct) (auto simp: Let_def split: if_splits)

lemma leadingFraction_length: "leadingFraction s x n b = (f, m, r) \<Longrightarrow> length r \<le> length s"
  by (induction s x n b rule: leadingFraction.induct) (auto simp: Let_def split: if_splits)

lemma duration_term_shorter: "duration_term fmul s = Some (v, r) \<Longrightarrow> length r < length s"
proof -
  assume a: "duration_term fmul s = Some (v, r)"
  then obtain w s1 where i: "leadingInt s 0 = Some (w, s1)"
    by (auto simp: duration_term_def split: if_splits option.splits)
  obtain f n s2 where fr: "(if s1 \<noteq> '''' \<and> hd s1 = CHR ''.'' then leadingFraction (tl s1) 0 0 False else (0, 0, s1)) = (f, n, s2)"
    using prod_cases3 by blast
  let ?u = "takeWhile (\<lambda>c. \<not> (c = CHR ''.'' \<or> is_digit c)) s2"
  have "?u \<noteq> []" "r = drop (length ?u) s2"
    using a by (auto simp: duration_term_def i fr Let_def split: if_splits option.splits)
  moreover have "length ?u \<le> length s2" by (rule length_takeWhile_le)
  moreover have "length s2 \<le> length s"
    using leadingInt_length [OF i] fr leadingFraction_length [of "tl s1" 0 0 False f n s2]
    by (auto split: if_splits)
  ultimately show ?thesis by (cases "length ?u") auto
qed

text \<open>The sum of the terms, in 64 bits.\<close>

function duration_terms :: "(nat \<Rightarrow> nat \<Rightarrow> nat \<Rightarrow> nat) \<Rightarrow> string \<Rightarrow> nat \<Rightarrow> nat option" where
  "duration_terms fmul s d =
     (if s = '''' then Some d
      else case duration_term fmul s of
        None \<Rightarrow> None
      | Some (v, r) \<Rightarrow>
          (let d' = (d + v) mod 2 ^ 64 in if 2 ^ 63 < d' then None else duration_terms fmul r d'))"
  by pat_completeness auto
termination
  by (relation "measure (\<lambda>(_, s, _). length s)") (auto dest: duration_term_shorter)

declare duration_terms.simps [simp del]

definition ParseDuration :: "(nat \<Rightarrow> nat \<Rightarrow> nat \<Rightarrow> nat) \<Rightarrow> string \<Rightarrow> time outcome" where
  "ParseDuration fmul s =
     (let neg = (s \<noteq> '''' \<and> hd s = CHR ''-'');
          s' = (if s \<noteq> '''' \<and> (hd s = CHR ''-'' \<or> hd s = CHR ''+'') then tl s else s);
          bad = Err (ErrText (''time: invalid duration '' @ quoted s))
      in if s' = ''0'' then Ok 0
         else if s' = '''' then bad
         else case duration_terms fmul s' 0 of
           None \<Rightarrow> bad
         | Some d \<Rightarrow> if neg then Ok (- int d) else if 2 ^ 63 - 1 < d then bad else Ok (int d))"

section \<open>The process\<close>

text \<open>Joining: ask until admitted. \<open>post i\<close> is how the network answers the \<open>i\<close>-th request.\<close>

partial_function (option) join_loop :: "(nat \<Rightarrow> string \<Rightarrow> json \<Rightarrow> err + (string \<times> nat \<times> bytes))
    \<Rightarrow> string \<Rightarrow> string \<Rightarrow> string \<Rightarrow> nat \<Rightarrow> nat option" where
  "join_loop post leader nid addr i =
     (if RequestJoin (post i) leader nid addr = Ok () then Some i
      else join_loop post leader nid addr (Suc i))"

text \<open>What the process meets outside: the operating system, the database file as the database library
  finds it, the Raft library, the TOML decoder, the network, and floating point.\<close>

record 'db sys =
  sy_os :: os
  sy_bolt :: "'db bolt"
  sy_dbfile :: "path \<Rightarrow> disk \<Rightarrow> 'db"
  sy_raft :: raft_setup
  sy_toml :: "string \<Rightarrow> Config \<Rightarrow> err + Config"
  sy_post :: "nat \<Rightarrow> string \<Rightarrow> json \<Rightarrow> err + (string \<times> nat \<times> bytes)"
  sy_fmul :: "nat \<Rightarrow> nat \<Rightarrow> nat \<Rightarrow> nat"

datatype listener = ListenAndServe string | ListenAndServeTLS string string string

record 'db server =
  sv_cfg :: Config
  sv_store :: "'db Store"
  sv_node :: RaftNode
  sv_handler :: Handler
  sv_ReadTimeout :: time
  sv_WriteTimeout :: time
  sv_IdleTimeout :: time
  sv_listener :: listener
  sv_maxAge :: time
  sv_warning :: "string option"

text \<open>\<^verbatim>\<open>if err != nil { log.Fatalf(...) }\<close>; no result at all is a process that never gets further.\<close>

fun or_fatal :: "string \<Rightarrow> 'a outcome \<Rightarrow> ('a \<Rightarrow> 'b outcome option) \<Rightarrow> 'b outcome option" where
  "or_fatal what (Ok x) k = k x"
| "or_fatal what (Err e) k = Some (Err (ErrWrap what e))"
| "or_fatal what (Panic p) k = Some (Panic p)"

definition listener_of :: "Config \<Rightarrow> listener" where
  "listener_of cfg =
     (if cfg_TLSCert cfg \<noteq> '''' \<and> cfg_TLSKey cfg \<noteq> ''''
      then ListenAndServeTLS (cfg_Listen cfg) (cfg_TLSCert cfg) (cfg_TLSKey cfg)
      else ListenAndServe (cfg_Listen cfg))"

text \<open>What is logged when the node does not lead half a second after the start; the bytes in the middle
  are a dash.\<close>

definition leader_warning :: "RaftNode \<Rightarrow> string option" where
  "leader_warning node =
     (if \<not> RaftNode_IsLeader node then
        Some (''warning: this node is not the Raft leader '' @ [CHR 0xE2, CHR 0x80, CHR 0x94] @
              '' writes will fail until a leader is elected'')
      else None)"

text \<open>The listener is already serving when the maximum age is parsed; the handler and the store that it
  serves are those of the result.\<close>

definition start_server :: "'db sys \<Rightarrow> Config \<Rightarrow> RaftNode \<Rightarrow> 'db Store \<Rightarrow> 'db server outcome option" where
  "start_server S cfg node st =
     (let handler = SetJoiner (Some node) (NewHandler (cfg_AccessKey cfg) (cfg_SecretKey cfg))
      in or_fatal (''invalid upload-max-age '' @ quoted (cfg_UploadMaxAge cfg))
           (ParseDuration (sy_fmul S) (cfg_UploadMaxAge cfg))
           (\<lambda>maxAge. Some (Ok
              \<lparr>sv_cfg = cfg, sv_store = st, sv_node = node, sv_handler = handler,
               sv_ReadTimeout = 30 * 10 ^ 9, sv_WriteTimeout = 60 * 10 ^ 9, sv_IdleTimeout = 120 * 10 ^ 9,
               sv_listener = listener_of cfg, sv_maxAge = maxAge,
               sv_warning = leader_warning node\<rparr>)))"

definition join_cluster :: "'db sys \<Rightarrow> Config \<Rightarrow> nat option" where
  "join_cluster S cfg =
     (if cfg_Join cfg = '''' then Some 0
      else join_loop (sy_post S) (cfg_Join cfg) (cfg_NodeID cfg) (cfg_RaftAddr cfg) 0)"

definition main_start :: "'db sys \<Rightarrow> string list \<Rightarrow> disk \<Rightarrow> 'db server outcome option" where
  "main_start S args dk =
     (case load_config (sy_toml S) args of
        Err e \<Rightarrow> Some (Err e)
      | Panic p \<Rightarrow> Some (Panic p)
      | Ok cfg \<Rightarrow>
          if cfg_Bootstrap cfg \<and> cfg_Join cfg \<noteq> '''' then
            Some (Err (ErrText ''--bootstrap and --join are mutually exclusive''))
          else
            or_fatal ''meta store'' (NewMetaStore (sy_bolt S) (sy_dbfile S [cfg_DataDir cfg] dk)) (\<lambda>meta.
            or_fatal ''storage engine''
              (st_NewWithMeta (sy_os S) [cfg_DataDir cfg] (ms_SetRegion (cfg_Region cfg) meta) dk) (\<lambda>st.
            or_fatal ''raft init''
              (raft_New (sy_raft S) (cfg_NodeID cfg) (cfg_DataDir cfg @ ''/raft'') (cfg_RaftAddr cfg)) (\<lambda>node.
            or_fatal ''raft bootstrap''
              (if cfg_Bootstrap cfg then RaftNode_Bootstrap node else Ok ()) (\<lambda>_.
            case join_cluster S cfg of
              None \<Rightarrow> None
            | Some _ \<Rightarrow> start_server S cfg node (st_SetRaft node st))))))"

text \<open>The reaper: one sweep per tick of the clock, which the requests run between.\<close>

definition reaper_tick :: "os \<Rightarrow> time \<Rightarrow> 'db server \<Rightarrow> nat \<times> 'db server" where
  "reaper_tick E now sv =
     (case st_AbortStaleUploads E now (sv_maxAge sv) (sv_store sv) of
        (n, st) \<Rightarrow> (n, sv\<lparr>sv_store := st\<rparr>))"

text \<open>The goroutine of the reaper over the ticks of its clock, with the numbers it logs.\<close>

fun reaper_run :: "os \<Rightarrow> time list \<Rightarrow> 'db server \<Rightarrow> nat list \<times> 'db server" where
  "reaper_run E [] sv = ([], sv)"
| "reaper_run E (now # ticks) sv =
     (case reaper_tick E now sv of
        (n, sv') \<Rightarrow>
          (case reaper_run E ticks sv' of (log, sv'') \<Rightarrow> (if 0 < n then n # log else log, sv'')))"

text \<open>The end: a signal, or the listener stopped. The node is closed unless the error is fatal; the
  result is the exit status and whether it was closed.\<close>

datatype stop = Signalled | Stopped err

definition http_ErrServerClosed :: err where
  "http_ErrServerClosed = ErrText ''http: Server closed''"

definition main_stop :: "stop \<Rightarrow> 'db server \<Rightarrow> nat \<times> unit outcome option" where
  "main_stop why sv =
     (case why of
        Signalled \<Rightarrow> (0, Some (RaftNode_Close (sv_node sv)))
      | Stopped e \<Rightarrow>
          if e \<noteq> http_ErrServerClosed then (1, None) else (0, Some (RaftNode_Close (sv_node sv))))"


section \<open>Lemmas\<close>

text \<open>What a join loop that returns has done.\<close>

definition first_accepted :: "(nat \<Rightarrow> string \<Rightarrow> json \<Rightarrow> err + (string \<times> nat \<times> bytes))
    \<Rightarrow> string \<Rightarrow> string \<Rightarrow> string \<Rightarrow> nat \<Rightarrow> nat \<Rightarrow> bool" where
  "first_accepted post leader nid addr i n =
     (i \<le> n \<and> RequestJoin (post n) leader nid addr = Ok () \<and>
      (\<forall>j. i \<le> j \<and> j < n \<longrightarrow> RequestJoin (post j) leader nid addr \<noteq> Ok ()))"

lemma first_accepted_step:
  "RequestJoin (post i) leader nid addr \<noteq> Ok () \<Longrightarrow> first_accepted post leader nid addr (Suc i) n \<Longrightarrow>
   first_accepted post leader nid addr i n"
  unfolding first_accepted_def by (metis Suc_leD Suc_leI le_neq_implies_less)

lemma join_loop_SomeD:
  assumes "join_loop post leader nid addr i = Some n"
  shows "first_accepted post leader nid addr i n"
proof (rule join_loop.raw_induct [OF _ assms, of first_accepted], goal_cases)
  case (1 loop post leader nid addr i n)
  show ?case
  proof (cases "RequestJoin (post i) leader nid addr = Ok ()")
    case True
    then show ?thesis using 1(2) by (auto simp: first_accepted_def)
  next
    case False
    then show ?thesis using 1 by (auto intro: first_accepted_step)
  qed
qed

lemma join_loop_reaches:
  assumes "RequestJoin (post n) leader nid addr = Ok ()" and "i \<le> n"
    and "\<And>j. i \<le> j \<Longrightarrow> j < n \<Longrightarrow> RequestJoin (post j) leader nid addr \<noteq> Ok ()"
  shows "join_loop post leader nid addr i = Some n"
  using assms(2,3)
proof (induction rule: inc_induct)
  case base
  then show ?case using assms(1) by (simp add: join_loop.simps)
next
  case (step m)
  then show ?case by (subst join_loop.simps) simp
qed

text \<open>A setting of the command line has the kind of its flag.\<close>

fun same_kind :: "flagval \<Rightarrow> flagval \<Rightarrow> bool" where
  "same_kind (FStr a) (FStr b) = True"
| "same_kind (FBool a) (FBool b) = True"
| "same_kind _ _ = False"

definition flag_typed :: "string \<times> flagval \<Rightarrow> bool" where
  "flag_typed p = (case map_of flag_defs (fst p) of Some d \<Rightarrow> same_kind d (snd p) | None \<Rightarrow> False)"

lemma map_outcome_Ok: "map_outcome f x = Ok y \<longleftrightarrow> (\<exists>z. x = Ok z \<and> y = f z)"
  by (cases x) auto

lemma flag_parseOne_typed: "flag_parseOne a args = Ok (Some (p, rest)) \<Longrightarrow> flag_typed p"
  by (auto simp: flag_parseOne_def flag_typed_def
      split: if_splits prod.splits option.splits flagval.splits list.splits)

lemma flag_Parse_typed: "flag_Parse args = Ok sets \<Longrightarrow> list_all flag_typed sets"
proof (induction args arbitrary: sets rule: flag_Parse.induct)
  case (2 a args)
  then show ?case
    by (force simp: map_outcome_Ok intro: flag_parseOne_typed split: outcome.splits option.splits)
qed simp

text \<open>The flags that are fields of the configuration, and a field by its flag.\<close>

definition config_flags :: "string list" where
  "config_flags = [''data-dir'', ''listen'', ''node-id'', ''raft-addr'', ''tls-cert'', ''tls-key'', ''access-key'',
     ''secret-key'', ''bootstrap'', ''join'', ''region'', ''upload-max-age'']"

definition cfg_get :: "string \<Rightarrow> Config \<Rightarrow> flagval" where
  "cfg_get n c =
     (if n = ''data-dir'' then FStr (cfg_DataDir c) else if n = ''listen'' then FStr (cfg_Listen c)
      else if n = ''node-id'' then FStr (cfg_NodeID c) else if n = ''raft-addr'' then FStr (cfg_RaftAddr c)
      else if n = ''tls-cert'' then FStr (cfg_TLSCert c) else if n = ''tls-key'' then FStr (cfg_TLSKey c)
      else if n = ''access-key'' then FStr (cfg_AccessKey c) else if n = ''secret-key'' then FStr (cfg_SecretKey c)
      else if n = ''bootstrap'' then FBool (cfg_Bootstrap c) else if n = ''join'' then FStr (cfg_Join c)
      else if n = ''region'' then FStr (cfg_Region c) else FStr (cfg_UploadMaxAge c))"

lemma apply_flag_fields [simp]:
  "cfg_DataDir (apply_flag val m c) = (if m = ''data-dir'' then as_string (val m) else cfg_DataDir c)"
  "cfg_Listen (apply_flag val m c) = (if m = ''listen'' then as_string (val m) else cfg_Listen c)"
  "cfg_NodeID (apply_flag val m c) = (if m = ''node-id'' then as_string (val m) else cfg_NodeID c)"
  "cfg_RaftAddr (apply_flag val m c) = (if m = ''raft-addr'' then as_string (val m) else cfg_RaftAddr c)"
  "cfg_TLSCert (apply_flag val m c) = (if m = ''tls-cert'' then as_string (val m) else cfg_TLSCert c)"
  "cfg_TLSKey (apply_flag val m c) = (if m = ''tls-key'' then as_string (val m) else cfg_TLSKey c)"
  "cfg_AccessKey (apply_flag val m c) = (if m = ''access-key'' then as_string (val m) else cfg_AccessKey c)"
  "cfg_SecretKey (apply_flag val m c) = (if m = ''secret-key'' then as_string (val m) else cfg_SecretKey c)"
  "cfg_Bootstrap (apply_flag val m c) = (if m = ''bootstrap'' then as_bool (val m) else cfg_Bootstrap c)"
  "cfg_Join (apply_flag val m c) = (if m = ''join'' then as_string (val m) else cfg_Join c)"
  "cfg_Region (apply_flag val m c) = (if m = ''region'' then as_string (val m) else cfg_Region c)"
  "cfg_UploadMaxAge (apply_flag val m c) = (if m = ''upload-max-age'' then as_string (val m) else cfg_UploadMaxAge c)"
  by (simp_all add: apply_flag_def)

lemma config_flags_cases:
  assumes "n \<in> set config_flags"
    and "P ''data-dir''" "P ''listen''" "P ''node-id''" "P ''raft-addr''" "P ''tls-cert''" "P ''tls-key''"
    "P ''access-key''" "P ''secret-key''" "P ''bootstrap''" "P ''join''" "P ''region''" "P ''upload-max-age''"
  shows "P n"
  using assms unfolding config_flags_def by (simp only: list.set insert_iff empty_iff) metis

lemma apply_flag_other:
  assumes "n \<in> set config_flags" and "m \<noteq> n"
  shows "cfg_get n (apply_flag val m c) = cfg_get n c"
proof -
  have "m \<noteq> n \<longrightarrow> cfg_get n (apply_flag val m c) = cfg_get n c"
    using assms(1) by (rule config_flags_cases) (simp_all add: cfg_get_def)
  then show ?thesis using assms(2) by simp
qed

lemma same_kind_as [simp]:
  "same_kind (FStr a) v \<Longrightarrow> FStr (as_string v) = v" "same_kind (FBool b) v \<Longrightarrow> FBool (as_bool v) = v"
  by (cases v; simp)+

lemma apply_flag_same:
  assumes "n \<in> set config_flags" and "flag_typed (n, val n)"
  shows "cfg_get n (apply_flag val n c) = val n"
proof -
  have "flag_typed (n, val n) \<longrightarrow> cfg_get n (apply_flag val n c) = val n"
    using assms(1) by (rule config_flags_cases) (simp_all add: cfg_get_def flag_typed_def flag_defs_def)
  then show ?thesis using assms(2) by simp
qed

lemma apply_flags_other:
  "n \<in> set config_flags \<Longrightarrow> n \<notin> set ms \<Longrightarrow> cfg_get n (foldl (\<lambda>c m. apply_flag val m c) c ms) = cfg_get n c"
  by (induction ms arbitrary: c) (auto simp: apply_flag_other)

lemma apply_flags_set:
  assumes "n \<in> set config_flags" and "flag_typed (n, val n)" and "n \<in> set ms" and "distinct ms"
  shows "cfg_get n (foldl (\<lambda>c m. apply_flag val m c) c ms) = val n"
proof -
  obtain us vs where "ms = us @ n # vs" "n \<notin> set vs" using assms(3) by (meson split_list_last)
  then show ?thesis using assms(1,2) by (simp add: apply_flags_other apply_flag_same)
qed

lemma flag_Visit_field:
  assumes "n \<in> set config_flags" and "list_all flag_typed sets"
  shows "cfg_get n (flag_Visit sets c) = (case map_of (rev sets) n of Some v \<Rightarrow> v | None \<Rightarrow> cfg_get n c)"
proof (cases "map_of (rev sets) n")
  case None
  then have "n \<notin> set (map fst sets)" by (simp add: map_of_eq_None_iff)
  then show ?thesis using None assms(1) by (simp add: flag_Visit_def apply_flags_other)
next
  case (Some v)
  then have "(n, v) \<in> set sets" by (auto dest: map_of_SomeD)
  moreover from this have "flag_typed (n, v)" using assms(2) by (auto simp: list_all_iff)
  moreover have "flag_get sets n = v" by (simp add: flag_get_def Some)
  ultimately show ?thesis
    using Some assms(1) apply_flags_set [of n "flag_get sets" "sort (remdups (map fst sets))" c]
    by (force simp: flag_Visit_def)
qed

lemma default_flags: "n \<in> set config_flags \<Longrightarrow> map_of flag_defs n = Some (cfg_get n config_Default)"
  by (erule config_flags_cases) (simp_all add: cfg_get_def config_Default_def flag_defs_def)


section \<open>Properties\<close>

text \<open>C16. The configuration follows the documented precedence: every field has the last value its flag
  was given on the command line, or else the value that decoding the file over the defaults gives, or,
  without a file, the default of the flag. In particular the defaults of \<^verbatim>\<open>config.Default\<close> and of the
  flags agree.\<close>

theorem config_precedence:
  assumes "flag_Parse args = Ok sets" and "load_config decode args = Ok cfg" and "n \<in> set config_flags"
  shows "cfg_get n cfg =
      (case map_of (rev sets) n of
         Some v \<Rightarrow> v
       | None \<Rightarrow>
           (case map_of (rev sets) ''config'' of
              Some (FStr path) \<Rightarrow>
                if path = '''' then the (map_of flag_defs n)
                else cfg_get n (case decode path config_Default of Inr c \<Rightarrow> c | Inl e \<Rightarrow> config_Default)
            | _ \<Rightarrow> the (map_of flag_defs n)))"
proof -
  let ?path = "as_string (flag_get sets ''config'')"
  obtain c where c: "config_Load decode ?path = Ok c" and cfg: "cfg = flag_Visit sets c"
    using assms(1,2) by (auto simp: load_config_def split: outcome.splits)
  have typed: "list_all flag_typed sets" using assms(1) by (rule flag_Parse_typed)
  have path: "?path = (case map_of (rev sets) ''config'' of Some v \<Rightarrow> as_string v | None \<Rightarrow> '''')"
    by (simp add: flag_get_def flag_defs_def split: option.split)
  have base: "cfg_get n c = (case map_of (rev sets) ''config'' of
       Some (FStr path) \<Rightarrow>
         if path = '''' then the (map_of flag_defs n)
         else cfg_get n (case decode path config_Default of Inr c \<Rightarrow> c | Inl e \<Rightarrow> config_Default)
     | _ \<Rightarrow> the (map_of flag_defs n))"
    using c by (auto simp: path config_Load_def default_flags [OF assms(3)]
        split: option.splits flagval.splits sum.splits if_splits)
  show ?thesis using flag_Visit_field [OF assms(3) typed, of c] by (simp add: cfg base split: option.split)
qed

definition demo_args :: "string list" where
  "demo_args = [''--bootstrap'', ''-data-dir=/srv'', ''--region'', ''eu-west-1'', ''-region=eu-north-1'']"

theorem config_precedence_witness:
  "\<exists>cfg. load_config (\<lambda>_ _. Inl (ErrText ''no file'')) demo_args = Ok cfg \<and>
     cfg_get ''region'' cfg = FStr ''eu-north-1'' \<and> cfg_get ''listen'' cfg = FStr '':9000''"
proof -
  let ?sets = "[(''bootstrap'', FBool True), (''data-dir'', FStr ''/srv''), (''region'', FStr ''eu-west-1''),
    (''region'', FStr ''eu-north-1'')]"
  have p: "flag_Parse demo_args = Ok ?sets" by code_simp
  obtain cfg where c: "load_config (\<lambda>_ _. Inl (ErrText ''no file'')) demo_args = Ok cfg"
    by (simp add: load_config_def p flag_get_def flag_defs_def config_Load_def)
  have "''region'' \<in> set config_flags" "''listen'' \<in> set config_flags" by (simp_all add: config_flags_def)
  from config_precedence [OF p c this(1)] config_precedence [OF p c this(2)] c show ?thesis
    by (simp add: flag_defs_def)
qed

text \<open>C17. The join loop ends exactly when the cluster admits the node: it returns after the \<open>n\<close>-th
  request if and only if that one succeeds and none before it did, so it ends if some request would
  succeed, and runs forever only when every one of them fails.\<close>

theorem join_loop_terminates:
  "(join_loop post leader nid addr 0 = Some n \<longleftrightarrow>
      RequestJoin (post n) leader nid addr = Ok () \<and> (\<forall>i<n. RequestJoin (post i) leader nid addr \<noteq> Ok ())) \<and>
   ((\<exists>m. join_loop post leader nid addr 0 = Some m) \<longleftrightarrow> (\<exists>i. RequestJoin (post i) leader nid addr = Ok ()))"
proof -
  have iff: "join_loop post leader nid addr 0 = Some m \<longleftrightarrow>
      RequestJoin (post m) leader nid addr = Ok () \<and> (\<forall>i<m. RequestJoin (post i) leader nid addr \<noteq> Ok ())"
    (is "?l \<longleftrightarrow> ?r") for m
  proof
    assume ?l
    then have "first_accepted post leader nid addr 0 m" by (rule join_loop_SomeD)
    then show ?r by (simp add: first_accepted_def)
  next
    assume ?r
    then show ?l by (intro join_loop_reaches) simp_all
  qed
  have "(\<exists>m. join_loop post leader nid addr 0 = Some m) \<longleftrightarrow> (\<exists>i. RequestJoin (post i) leader nid addr = Ok ())"
    unfolding iff by (rule exists_least_iff [symmetric])
  then show ?thesis using iff [of n] by simp
qed

text \<open>A node that is down twice and then admits the caller.\<close>

definition demo_post :: "nat \<Rightarrow> string \<Rightarrow> json \<Rightarrow> err + (string \<times> nat \<times> bytes)" where
  "demo_post i url j = (if i < 2 then Inl (ErrText ''connection refused'') else Inr (''200 OK'', 200, ''''))"

theorem join_loop_terminates_witness:
  "join_loop demo_post ''node1:9000'' ''n2'' ''n2:9090'' 0 = Some 2"
  using join_loop_terminates [of demo_post "''node1:9000''" "''n2''" "''n2:9090''" 2]
  by (simp add: demo_post_def [abs_def] RequestJoin_def Let_def)


lemma or_fatal_Ok: "or_fatal what x k = Some (Ok y) \<longleftrightarrow> (\<exists>v. x = Ok v \<and> k v = Some (Ok y))"
  by (cases x) auto

lemma main_start_OkD:
  assumes "main_start S args dk = Some (Ok sv)"
  obtains meta st n where "load_config (sy_toml S) args = Ok (sv_cfg sv)"
    "\<not> (cfg_Bootstrap (sv_cfg sv) \<and> cfg_Join (sv_cfg sv) \<noteq> '''')"
    "NewMetaStore (sy_bolt S) (sy_dbfile S [cfg_DataDir (sv_cfg sv)] dk) = Ok meta"
    "st_NewWithMeta (sy_os S) [cfg_DataDir (sv_cfg sv)] (ms_SetRegion (cfg_Region (sv_cfg sv)) meta) dk = Ok st"
    "raft_New (sy_raft S) (cfg_NodeID (sv_cfg sv)) (cfg_DataDir (sv_cfg sv) @ ''/raft'') (cfg_RaftAddr (sv_cfg sv)) =
      Ok (sv_node sv)"
    "(if cfg_Bootstrap (sv_cfg sv) then RaftNode_Bootstrap (sv_node sv) else Ok ()) = Ok ()"
    "join_cluster S (sv_cfg sv) = Some n"
    "sv_store sv = st_SetRaft (sv_node sv) st"
    "sv_handler sv = SetJoiner (Some (sv_node sv)) (NewHandler (cfg_AccessKey (sv_cfg sv)) (cfg_SecretKey (sv_cfg sv)))"
    "ParseDuration (sy_fmul S) (cfg_UploadMaxAge (sv_cfg sv)) = Ok (sv_maxAge sv)"
    "sv_listener sv = listener_of (sv_cfg sv)"
proof -
  obtain cfg where cfg: "load_config (sy_toml S) args = Ok cfg"
    using assms by (auto simp: main_start_def split: outcome.splits)
  have "\<not> (cfg_Bootstrap cfg \<and> cfg_Join cfg \<noteq> '''')"
    using assms by (auto simp: main_start_def cfg split: if_splits)
  moreover from this obtain meta st node n where
    "NewMetaStore (sy_bolt S) (sy_dbfile S [cfg_DataDir cfg] dk) = Ok meta"
    "st_NewWithMeta (sy_os S) [cfg_DataDir cfg] (ms_SetRegion (cfg_Region cfg) meta) dk = Ok st"
    "raft_New (sy_raft S) (cfg_NodeID cfg) (cfg_DataDir cfg @ ''/raft'') (cfg_RaftAddr cfg) = Ok node"
    "(if cfg_Bootstrap cfg then RaftNode_Bootstrap node else Ok ()) = Ok ()"
    "join_cluster S cfg = Some n" "start_server S cfg node (st_SetRaft node st) = Some (Ok sv)"
    using assms by (auto simp: main_start_def cfg or_fatal_Ok split: option.splits)
  moreover from this(6) have "sv_cfg sv = cfg" "sv_node sv = node" "sv_store sv = st_SetRaft node st"
    "sv_handler sv = SetJoiner (Some node) (NewHandler (cfg_AccessKey cfg) (cfg_SecretKey cfg))"
    "ParseDuration (sy_fmul S) (cfg_UploadMaxAge cfg) = Ok (sv_maxAge sv)" "sv_listener sv = listener_of cfg"
    by (auto simp: start_server_def Let_def or_fatal_Ok)
  ultimately show ?thesis using cfg that by blast
qed

lemma NewWithMeta_OkD:
  assumes "st_NewWithMeta E dir meta dk = Ok st"
  shows "st_meta st = meta" "st_dataDir st = dir" "st_multipart st = []" "dk_files (st_disk st) = dk_files dk"
  using assms
  by (auto simp: st_NewWithMeta_def os_MkdirAll_def newMultipartState_def split: option.splits prod.splits outcome.splits)

lemma raft_New_localID: "raft_New R nid dir bind = Ok node \<Longrightarrow> rn_localID node = nid"
  by (auto simp: raft_New_def split: sum.splits option.splits)

lemma start_warning:
  assumes "main_start S args dk = Some (Ok sv)"
  shows "sv_warning sv \<noteq> None \<longleftrightarrow> \<not> RaftNode_IsLeader (sv_node sv)"
proof -
  obtain cfg node st where "start_server S cfg node st = Some (Ok sv)"
    using assms by (auto simp: main_start_def or_fatal_Ok split: outcome.splits if_splits option.splits)
  then show ?thesis by (auto simp: start_server_def Let_def or_fatal_Ok leader_warning_def)
qed

text \<open>C15. A server that starts is wired as configured: it has the configuration the arguments give and
  was not asked both to bootstrap and to join; store and handler share the Raft node, which has the
  configured identifier; the handler checks the configured keys; new buckets get the configured region;
  no object and no upload is known yet. A bootstrapped node was accepted as the only server, a joining
  one was admitted, the age limit of uploads is a valid duration, and the log has a warning exactly when
  the node does not lead.\<close>

theorem startup_wires:
  assumes "main_start S args dk = Some (Ok sv)" and "cfg = sv_cfg sv" and "node = sv_node sv"
  shows "load_config (sy_toml S) args = Ok cfg \<and> \<not> (cfg_Bootstrap cfg \<and> cfg_Join cfg \<noteq> '''') \<and>
      st_raft (sv_store sv) = Some node \<and> hd_joiner (sv_handler sv) = Some node \<and> rn_localID node = cfg_NodeID cfg \<and>
      hd_accessKey (sv_handler sv) = cfg_AccessKey cfg \<and> hd_secretKey (sv_handler sv) = cfg_SecretKey cfg \<and>
      ms_region (st_meta (sv_store sv)) = cfg_Region cfg \<and> st_dataDir (sv_store sv) = [cfg_DataDir cfg] \<and>
      ms_objects (st_meta (sv_store sv)) = [] \<and> st_multipart (sv_store sv) = [] \<and>
      (cfg_Bootstrap cfg \<longrightarrow> rl_bootstrap (rn_raft node) [(cfg_NodeID cfg, rn_addr node)] = None) \<and>
      (cfg_Join cfg \<noteq> '''' \<longrightarrow>
        (\<exists>i. RequestJoin (sy_post S i) (cfg_Join cfg) (cfg_NodeID cfg) (cfg_RaftAddr cfg) = Ok ())) \<and>
      ParseDuration (sy_fmul S) (cfg_UploadMaxAge cfg) = Ok (sv_maxAge sv) \<and>
      (sv_warning sv \<noteq> None \<longleftrightarrow> \<not> RaftNode_IsLeader node)"
proof -
  from assms(1) obtain meta st n where s: "load_config (sy_toml S) args = Ok cfg"
    "\<not> (cfg_Bootstrap cfg \<and> cfg_Join cfg \<noteq> '''')"
    "NewMetaStore (sy_bolt S) (sy_dbfile S [cfg_DataDir cfg] dk) = Ok meta"
    "st_NewWithMeta (sy_os S) [cfg_DataDir cfg] (ms_SetRegion (cfg_Region cfg) meta) dk = Ok st"
    "raft_New (sy_raft S) (cfg_NodeID cfg) (cfg_DataDir cfg @ ''/raft'') (cfg_RaftAddr cfg) = Ok node"
    "(if cfg_Bootstrap cfg then RaftNode_Bootstrap node else Ok ()) = Ok ()"
    "join_cluster S cfg = Some n" "sv_store sv = st_SetRaft node st"
    "sv_handler sv = SetJoiner (Some node) (NewHandler (cfg_AccessKey cfg) (cfg_SecretKey cfg))"
    "ParseDuration (sy_fmul S) (cfg_UploadMaxAge cfg) = Ok (sv_maxAge sv)"
    unfolding assms(2,3) by (rule main_start_OkD)
  have "\<exists>i. RequestJoin (sy_post S i) (cfg_Join cfg) (cfg_NodeID cfg) (cfg_RaftAddr cfg) = Ok ()"
    if "cfg_Join cfg \<noteq> ''''"
    using s(7) that by (auto simp: join_cluster_def first_accepted_def dest!: join_loop_SomeD)
  moreover have "rl_bootstrap (rn_raft node) [(cfg_NodeID cfg, rn_addr node)] = None" if "cfg_Bootstrap cfg"
    using s(6) that raft_New_localID [OF s(5)] by (simp add: RaftNode_Bootstrap_def error_of_def split: option.splits)
  ultimately show ?thesis
    using s NewWithMeta_OkD [OF s(4)] raft_New_localID [OF s(5)] NewMetaStore_Ok(1) [OF s(3)]
      start_warning [OF assms(1)] assms(3)
    by (simp add: st_SetRaft_def SetJoiner_def NewHandler_def ms_SetRegion_def)
qed

text \<open>C38. A first start in a new place fails: when the data directory does not exist, and the database
  library cannot open a file in a missing directory, the process ends with an error of the metadata
  store, because the database is opened before the storage engine makes the directory. Making it first,
  as \<^verbatim>\<open>store.New\<close> does, would have been enough.\<close>

theorem first_start_fails:
  assumes "load_config (sy_toml S) args = Ok cfg" and "\<not> (cfg_Bootstrap cfg \<and> cfg_Join cfg \<noteq> '''')"
    and "\<not> is_dir dk [cfg_DataDir cfg]"
    and no_dir: "\<And>d dk. \<not> is_dir dk d \<Longrightarrow> bolt_open (sy_bolt S) (sy_dbfile S d dk) = Inl no_such_file"
  shows "main_start S args dk = Some (Err (ErrWrap ''meta store'' (ErrWrap ''open bucket db'' no_such_file))) \<and>
      is_dir (snd (os_MkdirAll os_ok ([cfg_DataDir cfg] @ [''blobs'']) dk)) [cfg_DataDir cfg]"
proof -
  have "NewMetaStore (sy_bolt S) (sy_dbfile S [cfg_DataDir cfg] dk) = Err (ErrWrap ''open bucket db'' no_such_file)"
    using no_dir [OF assms(3)] by (simp add: NewMetaStore_def OpenBucketDB_def)
  then show ?thesis
    using assms(1,2) by (auto simp: main_start_def os_MkdirAll_def os_ok_def is_dir_def list_ex_iff prefix_def)
qed


text \<open>A system whose database library cannot open a file in a missing directory.\<close>

definition demo_sys :: "(string, json) gomap sys" where
  "demo_sys =
     \<lparr>sy_os = os_ok,
      sy_bolt = alist_bolt\<lparr>bolt_open := \<lambda>db. if db = [(''missing'', JNull)] then Inl no_such_file else Inr db\<rparr>,
      sy_dbfile = (\<lambda>d dk. if is_dir dk d then [] else [(''missing'', JNull)]),
      sy_raft = \<lparr>rs_transport = Inr, rs_snapshots = \<lambda>_. None, rs_boltdb = \<lambda>_. None, rs_raft = \<lambda>_. Inr demo_lib\<rparr>,
      sy_toml = (\<lambda>_ _. Inl (ErrText ''no file'')), sy_post = demo_post, sy_fmul = (\<lambda>f u n. f * u div 10 ^ n)\<rparr>"

definition demo_config :: Config where
  "demo_config = config_Default\<lparr>cfg_DataDir := ''/srv'', cfg_Bootstrap := True, cfg_Region := ''eu-north-1''\<rparr>"

lemma demo_load: "load_config (\<lambda>_ _. Inl (ErrText ''no file'')) demo_args = Ok demo_config"
  by code_simp

lemma demo_duration: "ParseDuration fmul ''24h'' = Ok (86400 * 10 ^ 9)"
  by (simp add: ParseDuration_def duration_terms.simps duration_term_def is_digit_def less_eq_char_def
      digit_def unit_map_def)

definition demo_disk :: disk where
  "demo_disk = \<lparr>dk_dirs = [[''/srv'']], dk_files = []\<rparr>"

lemma demo_config_fields [simp]:
  "cfg_DataDir demo_config = ''/srv''" "cfg_Bootstrap demo_config" "cfg_Join demo_config = ''''"
  "cfg_UploadMaxAge demo_config = ''24h''" "cfg_NodeID demo_config = ''node1''" "cfg_Region demo_config = ''eu-north-1''"
  "cfg_AccessKey demo_config = ''minioadmin''" "cfg_SecretKey demo_config = ''minioadmin''"
  by (simp_all add: demo_config_def config_Default_def)

lemma demo_start:
  "\<exists>sv. main_start demo_sys demo_args demo_disk = Some (Ok sv) \<and> sv_cfg sv = demo_config \<and> rn_raft (sv_node sv) = demo_lib \<and>
     ms_buckets (st_meta (sv_store sv)) = []"
proof -
  have "\<exists>meta. NewMetaStore (sy_bolt demo_sys) (sy_dbfile demo_sys [''/srv''] demo_disk) = Ok meta \<and> ms_buckets meta = []"
    by (simp add: demo_sys_def demo_disk_def is_dir_def NewMetaStore_def OpenBucketDB_def bolt_Update_def alist_bolt_def)
  then obtain meta where "NewMetaStore (sy_bolt demo_sys) (sy_dbfile demo_sys [''/srv''] demo_disk) = Ok meta"
    "ms_buckets meta = []" by blast
  moreover have "load_config (sy_toml demo_sys) demo_args = Ok demo_config"
    using demo_load by (simp add: demo_sys_def)
  ultimately show ?thesis
    by (simp add: main_start_def start_server_def Let_def join_cluster_def demo_duration)
      (simp add: demo_sys_def st_NewWithMeta_def os_MkdirAll_def os_ok_def raft_New_def RaftNode_Bootstrap_def
        error_of_def demo_lib_def st_SetRaft_def ms_SetRegion_def)
qed

theorem startup_wires_witness:
  "\<exists>sv. main_start demo_sys demo_args demo_disk = Some (Ok sv) \<and> hd_joiner (sv_handler sv) = Some (sv_node sv) \<and>
     ms_region (st_meta (sv_store sv)) = ''eu-north-1''"
proof -
  obtain sv where sv: "main_start demo_sys demo_args demo_disk = Some (Ok sv)" "sv_cfg sv = demo_config"
    using demo_start by blast
  from startup_wires [OF sv(1) refl refl] sv show ?thesis by simp
qed

theorem first_start_fails_witness:
  "main_start demo_sys demo_args \<lparr>dk_dirs = [], dk_files = []\<rparr> =
     Some (Err (ErrWrap ''meta store'' (ErrWrap ''open bucket db'' no_such_file)))"
proof -
  have "load_config (sy_toml demo_sys) demo_args = Ok demo_config"
    using demo_load by (simp add: demo_sys_def)
  from first_start_fails [OF this, of "\<lparr>dk_dirs = [], dk_files = []\<rparr>"] show ?thesis
    by (simp add: demo_sys_def is_dir_def)
qed

section \<open>The reaper over time\<close>

lemma sweep_multipart:
  assumes "distinct (map fst (st_multipart s))" and "st_AbortStaleUploads os_ok now age s = (n, s')"
  shows "map_of (st_multipart s') uid = (case map_of (st_multipart s) uid of None \<Rightarrow> None
      | Some u \<Rightarrow> if mu_initiated u < now - age then None else Some u)"
    and "distinct (map fst (st_multipart s'))" and "same_objects s s'"
proof -
  let ?stale = "map fst (filter (\<lambda>(_, u). mu_initiated u < now - age) (st_multipart s))"
  have s': "s' = foldl (\<lambda>s uid. cleanupUpload os_ok uid s) s ?stale"
    using assms(2) by (simp add: st_AbortStaleUploads_def Let_def)
  have stale: "uid \<in> set ?stale \<longleftrightarrow> (\<exists>u. map_of (st_multipart s) uid = Some u \<and> mu_initiated u < now - age)"
    using assms(1) by (force simp: image_iff dest: map_of_SomeD)
  show "map_of (st_multipart s') uid = (case map_of (st_multipart s) uid of None \<Rightarrow> None
      | Some u \<Rightarrow> if mu_initiated u < now - age then None else Some u)"
    unfolding s' cleanup_all(2) stale by (auto split: option.split)
  have "distinct (map fst (st_multipart s)) \<Longrightarrow>
      distinct (map fst (st_multipart (foldl (\<lambda>s uid. cleanupUpload os_ok uid s) s uids)))" for uids and s :: "'a Store"
    by (induction uids arbitrary: s) (simp_all add: distinct_delete cleanupUpload_def)
  then show "distinct (map fst (st_multipart s'))" using assms(1) by (simp add: s')
  show "same_objects s s'" unfolding s' by (rule cleanup_all(1))
qed

text \<open>After any ticks, an upload is there exactly when it was and was young enough at every tick; objects
  are as they were.\<close>

lemma reaper_run_keeps:
  assumes "distinct (map fst (st_multipart (sv_store sv)))" and "reaper_run os_ok ticks sv = (log, sv')"
  shows "(\<forall>uid. map_of (st_multipart (sv_store sv')) uid = (case map_of (st_multipart (sv_store sv)) uid of None \<Rightarrow> None
      | Some u \<Rightarrow> if \<forall>now \<in> set ticks. now - sv_maxAge sv \<le> mu_initiated u then Some u else None)) \<and>
    same_objects (sv_store sv) (sv_store sv')"
  using assms
proof (induction ticks arbitrary: sv log)
  case (Cons now ticks)
  obtain n s1 where s1: "st_AbortStaleUploads os_ok now (sv_maxAge sv) (sv_store sv) = (n, s1)" by fastforce
  let ?sv1 = "sv\<lparr>sv_store := s1\<rparr>"
  obtain l where l: "reaper_run os_ok ticks ?sv1 = (l, sv')"
    using Cons.prems(2) by (auto simp: reaper_tick_def s1 split: prod.splits)
  note sweep = sweep_multipart [OF Cons.prems(1) s1]
  have dist: "distinct (map fst (st_multipart (sv_store ?sv1)))" using sweep(2) by simp
  from Cons.IH [OF dist l] sweep(1,3) same_objects_trans show ?case
    by (auto split: option.split)
qed (simp add: same_objects_def split: option.split)

end
