(* ===== verification/Service.thy ===== *)
theory Service
  imports Integrity Server
begin

text \<open>
  The running server as a state machine: requests in any order, the two halves of a write and of a part
  that is uploaded, ticks of the reaper, and entries of the log; a snapshot that is installed while the server
  runs is not one of the steps. Every request is a sequence of calls of the
  store, so what holds in every state of the store holds in every state of the server.
\<close>

section \<open>Steps\<close>

text \<open>A panic ends the request it happens in, and the steps leave the result aside, since \<^verbatim>\<open>net/http\<close> recovers it
  and the server runs on. Theory \<open>Crashes\<close> says which steps panic.\<close>

inductive sv_step :: "'db bolt \<Rightarrow> 'db server \<Rightarrow> 'db server \<Rightarrow> bool" for B :: "'db bolt" where
  request: "ev_bolt V = B \<Longrightarrow> os_atomic (ev_os V) \<Longrightarrow> ServeHTTP V (sv_handler sv) r (sv_store sv) = (x, s') \<Longrightarrow>
    sv_step B sv (sv\<lparr>sv_store := s'\<rparr>)"
| put_written: "os_atomic E \<Longrightarrow> PutObject_write E body (sv_store sv) = (w, s') \<Longrightarrow> sv_step B sv (sv\<lparr>sv_store := s'\<rparr>)"
| put_registered: "PutObject_register t b k data (sv_store sv) = (y, s') \<Longrightarrow> sv_step B sv (sv\<lparr>sv_store := s'\<rparr>)"
| part_written: "UploadPart_write E b k uid n body (sv_store sv) = (z, s') \<Longrightarrow> sv_step B sv (sv\<lparr>sv_store := s'\<rparr>)"
| part_recorded: "UploadPart_record t uid n w (sv_store sv) = (y, s') \<Longrightarrow> sv_step B sv (sv\<lparr>sv_store := s'\<rparr>)"
| tick: "reaper_tick E now sv = (n, sv') \<Longrightarrow> sv_step B sv sv'"
| log_entry: "op_sound op \<Longrightarrow> fsm_Apply t (enc_RaftOp op) (st_meta (sv_store sv)) = (y, m') \<Longrightarrow>
    sv_step B sv (sv\<lparr>sv_store := (sv_store sv)\<lparr>st_meta := m'\<rparr>\<rparr>)"

inductive sv_reach :: "'db sys \<Rightarrow> 'db server \<Rightarrow> bool" for S :: "'db sys" where
  booted: "main_start S args dk = Some (Ok sv) \<Longrightarrow> blobs_intact [cfg_DataDir (sv_cfg sv)] dk \<Longrightarrow> sv_reach S sv"
| served: "sv_reach S sv \<Longrightarrow> sv_step (sy_bolt S) sv sv' \<Longrightarrow> sv_reach S sv'"

section \<open>Requests are calls of the store\<close>

abbreviation st_steps :: "'db bolt \<Rightarrow> 'db Store \<Rightarrow> 'db Store \<Rightarrow> bool" where
  "st_steps B \<equiv> (st_step B)\<^sup>*\<^sup>*"

lemma st_UploadPart_steps: "st_steps B s (snd (st_UploadPart E t b k uid n body s))"
proof -
  obtain z s1 where w: "UploadPart_write E b k uid n body s = (z, s1)" by fastforce
  then have 1: "st_steps B s s1" using do_write_part by blast
  show ?thesis
  proof (cases z)
    case (Ok v)
    obtain y s2 where r: "UploadPart_record t uid n v s1 = (y, s2)" by fastforce
    then have "st_step B s1 s2" by (rule do_record_part)
    with 1 show ?thesis by (simp add: st_UploadPart_def w Ok r)
  qed (use 1 in \<open>simp_all add: st_UploadPart_def w\<close>)
qed

lemma call_steps:
  "st_steps B s (snd (st_CreateBucket B t b s))" "st_steps B s (snd (st_DeleteBucket B b s))"
  "st_steps B s (snd (st_DeleteObject E t b k v s))" "st_steps B s (snd (st_NewMultipartUpload B rnd t t' b k s))"
  "st_steps B s (snd (st_AbortMultipartUpload E b k uid s))"
  by (rule r_into_rtranclp, rule st_step.intros, rule surjective_pairing)+

lemma write_steps:
  "os_atomic E \<Longrightarrow> st_steps B s (snd (st_PutObject E t b k body s))"
  "os_atomic E \<Longrightarrow> st_steps B s (snd (st_CompleteMultipartUpload E t b k uid cps s))"
  by (rule r_into_rtranclp, erule st_step.intros, rule surjective_pairing)+

lemma handleBucket_steps: "st_steps (ev_bolt V) s (snd (handleBucket V r b s))"
  by (simp add: handleBucket_def Let_def read_handlers call_steps(1,2))

lemma handleObject_steps:
  assumes "os_atomic (ev_os V)"
  shows "st_steps (ev_bolt V) s (snd (handleObject V r b k s))"
  using assms
  by (auto simp: handleObject_def Let_def write_handlers getObject_def listParts_def headObject_state
      intro: call_steps write_steps st_UploadPart_steps split: option.split)

lemma ServeHTTP_steps:
  assumes "os_atomic (ev_os V)" and "ServeHTTP V h r s = (x, s')"
  shows "st_steps (ev_bolt V) s s'"
proof -
  have "st_steps (ev_bolt V) s (snd (route V r' s))" for r'
    using assms(1) by (simp add: route_def Let_def listBuckets_def handleBucket_steps handleObject_steps
        split: prod.split option.split)
  then have "st_steps (ev_bolt V) s (snd (ServeHTTP V h r s))"
    by (simp add: ServeHTTP_def split: prod.split bool.split)
  then show ?thesis by (simp add: assms(2))
qed

lemma sv_step_store: "sv_step B sv sv' \<Longrightarrow> st_steps B (sv_store sv) (sv_store sv')"
proof (induction rule: sv_step.induct)
  case (request V sv r x s')
  then show ?case using ServeHTTP_steps by auto
next
  case (put_written E body sv w s')
  then show ?case by simp (blast intro: do_put_write)
next
  case (put_registered t b k data sv y s')
  then show ?case by simp (blast intro: do_put_register)
next
  case (part_written E b k uid n body sv z s')
  then show ?case by simp (blast intro: do_write_part)
next
  case (part_recorded t uid n w sv y s')
  then show ?case by simp (blast intro: do_record_part)
next
  case (tick E now sv n sv')
  then obtain s' where "st_AbortStaleUploads E now (sv_maxAge sv) (sv_store sv) = (n, s')" "sv_store sv' = s'"
    by (auto simp: reaper_tick_def split: prod.splits)
  then show ?case by simp (blast intro: do_reap)
next
  case (log_entry op t sv y m')
  then show ?case by simp (blast intro: do_log_entry)
qed

lemma sv_step_frame:
  "sv_step B sv sv' \<Longrightarrow> sv_cfg sv' = sv_cfg sv \<and> sv_node sv' = sv_node sv \<and> sv_handler sv' = sv_handler sv"
  by (erule sv_step.cases) (auto simp: reaper_tick_def split: prod.splits)

section \<open>What the server keeps\<close>

lemma booted_sound:
  assumes "main_start S args dk = Some (Ok sv)" and "blobs_intact [cfg_DataDir (sv_cfg sv)] dk"
  shows "st_sound (sv_store sv)"
proof -
  obtain meta st where s: "NewMetaStore (sy_bolt S) (sy_dbfile S [cfg_DataDir (sv_cfg sv)] dk) = Ok meta"
    "st_NewWithMeta (sy_os S) [cfg_DataDir (sv_cfg sv)] (ms_SetRegion (cfg_Region (sv_cfg sv)) meta) dk = Ok st"
    "sv_store sv = st_SetRaft (sv_node sv) st"
    using main_start_OkD [OF assms(1)] by metis
  have "dk_files (st_disk st) = dk_files dk" "st_dataDir st = [cfg_DataDir (sv_cfg sv)]" "ms_objects (st_meta st) = []"
    using NewWithMeta_OkD [OF s(2)] NewMetaStore_Ok(1) [OF s(1)] by (simp_all add: ms_SetRegion_def)
  then show ?thesis
    using assms(2) by (simp add: st_sound_def meta_sound_def blobs_intact_def blob_at_def s(3) st_SetRaft_def)
qed

lemma st_steps_sound: "st_steps B s s' \<Longrightarrow> st_sound s \<Longrightarrow> st_sound s'"
  by (induction rule: rtranclp_induct) (use st_step_sound in blast)+

lemma sv_reach_sound: "sv_reach S sv \<Longrightarrow> st_sound (sv_store sv)"
proof (induction rule: sv_reach.induct)
  case (booted args dk sv)
  then show ?case by (rule booted_sound)
next
  case (served sv sv')
  then show ?case using sv_step_store st_steps_sound by blast
qed

text \<open>Bytes with a status of success are the answer to a read.\<close>

definition from_read :: "os \<Rightarrow> 'db Store \<Rightarrow> response \<Rightarrow> bool" where
  "from_read E s x =
     (\<forall>data. rs_Status x = 200 \<and> rs_Body x = BBytes data \<longrightarrow>
       (\<exists>b k v meta. st_GetObject E b k v s = Ok (data, meta) \<and> rs_Header x = object_headers meta))"

definition handled_read :: "os \<Rightarrow> 'db Store \<Rightarrow> 'db handled \<Rightarrow> bool" where
  "handled_read E s p = (case fst p of Ok x \<Rightarrow> from_read E s x | _ \<Rightarrow> True)"

lemma no_bytes: "rs_Status x \<noteq> 200 \<or> (\<forall>d. rs_Body x \<noteq> BBytes d) \<Longrightarrow> from_read E s x"
  by (auto simp: from_read_def)

lemma no_bytes_simps [simp]:
  "from_read E s (status_only n)" "from_read E s (writeXML doc)" "from_read E s (s3Error c m)"
  "from_read E s (storeError e)" "from_read E s (marker_response meta)"
  "from_read E s \<lparr>rs_Status = n, rs_Header = hs, rs_Body = BNone\<rparr>" "n \<noteq> 200 \<Longrightarrow> from_read E s (http_Error m n)"
  by (simp_all add: from_read_def status_only_def writeXML_def s3Error_def storeError_def Let_def
      marker_response_def http_Error_def)

lemma handled_read_simps [simp]: "handled_read E s (Ok x, s') = from_read E s x" "handled_read E s (Panic m, s')"
  by (simp_all add: handled_read_def)

lemma respond_read: "(\<And>y. fst p = Ok y \<Longrightarrow> from_read E s (f y)) \<Longrightarrow> handled_read E s (respond f p)"
  by (cases p; cases "fst p") auto

lemma handleBucket_read: "handled_read E s (handleBucket V r b s)"
  by (auto simp: handleBucket_def Let_def read_handlers intro!: respond_read split: prod.split)

lemma getObject_read: "handled_read (ev_os V) s (getObject V r b k s)"
  unfolding getObject_def by (rule respond_read) (fastforce simp: from_read_def marker_response_def split: if_splits)

lemma headObject_read: "handled_read E s (headObject r b k s)"
  by (simp add: headObject_def Let_def split: outcome.split)

lemma handleObject_read: "handled_read (ev_os V) s (handleObject V r b k s)"
  by (auto simp: handleObject_def Let_def listParts_def write_handlers getObject_read headObject_read
      intro!: respond_read split: prod.split option.split)

lemma routeInternal_read: "from_read E s (routeInternal parse h r)"
  by (simp add: routeInternal_def split: option.split sum.split outcome.split)

lemma served_bytes:
  assumes "ServeHTTP V h r s = (Ok x, s')" and "rs_Status x = 200" and "rs_Body x = BBytes data"
  shows "\<exists>b k v meta. st_GetObject (ev_os V) b k v s = Ok (data, meta) \<and> rs_Header x = object_headers meta"
proof -
  have "handled_read (ev_os V) s (route V r' s)" for r'
    by (simp add: route_def Let_def listBuckets_def handleBucket_read handleObject_read split: prod.split option.split)
  then have "handled_read (ev_os V) s (ServeHTTP V h r s)"
    by (simp add: ServeHTTP_def routeInternal_read split: prod.split bool.split)
  then show ?thesis using assms by (simp add: from_read_def)
qed

section \<open>Buckets and objects over HTTP\<close>

definition bucket_url :: "string \<Rightarrow> URL" where
  "bucket_url b = \<lparr>u_Scheme = '''', u_Path = ''/'' @ b, u_RawPath = '''', u_RawQuery = ''''\<rparr>"

lemma bucket_url_query [simp]: "url_Query (bucket_url b) = []"
  by (simp add: bucket_url_def url_Query_def add_setting_def)

lemma bucket_url_external: "CHR ''/'' \<notin> set b \<Longrightarrow> \<not> HasPrefix (u_Path (bucket_url b)) ''/internal/''"
  by (auto simp: bucket_url_def HasPrefix_def prefix_def)

lemma create_over_http:
  assumes "auth_wf a" and "payload \<noteq> ''''" and "hd_accessKey h = sa_accessKey a"
    and "rq_URL r = bucket_url b" and "CHR ''/'' \<notin> set b" and "rq_Method r = ''PUT''"
  shows "ServeHTTP V h (sign_request (hd_secretKey h) a payload r) s =
    respond (\<lambda>_. status_only 200) (st_CreateBucket (ev_bolt V) (ev_now V) b s)"
proof -
  have "\<not> HasPrefix (u_Path (rq_URL r)) ''/internal/''" using assms(4,5) by (simp add: bucket_url_external)
  moreover have "route V r' s = handleBucket V r' b s" if "rq_URL r' = bucket_url b" "rq_Method r' = ''PUT''" for r'
    using that cut_absent [OF assms(5)]
    by (simp add: route_def Let_def TrimPrefix_def bucket_url_def)
  ultimately show ?thesis
    using assms by (simp add: verify_signed handleBucket_def)
qed

lemma respond_success:
  "respond f p = (Ok x, s') \<Longrightarrow> rs_Status x = 200 \<Longrightarrow> \<exists>y. p = (Ok y, s') \<and> x = f y"
  by (cases p; cases "fst p") (auto simp: storeError_def s3Error_def Let_def split: if_splits)

lemma created_bucket:
  assumes "ms_CreateBucket B t b m = (Ok u, m')" and "ms_objects m = []"
  shows "ms_wf m'" "ms_writable m' b" "ms_room m' b k" "ms_next m' b' k = 1" "ms_history m' b' k = []"
proof -
  from assms obtain db where "m' = m\<lparr>ms_buckets := db, ms_cache := AList.update b True (ms_cache m), ms_objects := [(b, [])]\<rparr>"
    by (auto simp: ms_CreateBucket_def split: prod.splits outcome.splits)
  then show "ms_wf m'" "ms_writable m' b" "ms_room m' b k" "ms_next m' b' k = 1" "ms_history m' b' k = []"
    by (simp_all add: ms_wf_def keys_wf_def ms_writable_def map_bool_def ms_room_def ms_next_def key_next_def
        ms_history_def key_history_def)
qed

lemma started_state:
  assumes "main_start S args dk = Some (Ok sv)"
    and "RaftNode_IsLeader (sv_node sv)" and "\<And>data. rl_apply (rn_raft (sv_node sv)) data = None"
  shows "ms_objects (st_meta (sv_store sv)) = []" "accepts (sv_store sv)"
    "dk_files (st_disk (sv_store sv)) = dk_files dk" "st_dataDir (sv_store sv) = [cfg_DataDir (sv_cfg sv)]"
    "hd_accessKey (sv_handler sv) = cfg_AccessKey (sv_cfg sv)" "hd_secretKey (sv_handler sv) = cfg_SecretKey (sv_cfg sv)"
proof -
  obtain meta st where s: "NewMetaStore (sy_bolt S) (sy_dbfile S [cfg_DataDir (sv_cfg sv)] dk) = Ok meta"
    "st_NewWithMeta (sy_os S) [cfg_DataDir (sv_cfg sv)] (ms_SetRegion (cfg_Region (sv_cfg sv)) meta) dk = Ok st"
    "sv_store sv = st_SetRaft (sv_node sv) st"
    "sv_handler sv = SetJoiner (Some (sv_node sv)) (NewHandler (cfg_AccessKey (sv_cfg sv)) (cfg_SecretKey (sv_cfg sv)))"
    using main_start_OkD [OF assms(1)] by metis
  show "ms_objects (st_meta (sv_store sv)) = []"
    using NewMetaStore_Ok(1) [OF s(1)] NewWithMeta_OkD(1) [OF s(2)] by (simp add: s(3) st_SetRaft_def ms_SetRegion_def)
  show "accepts (sv_store sv)" using assms(2,3) by (simp add: s(3) st_SetRaft_def accepts_def)
  show "dk_files (st_disk (sv_store sv)) = dk_files dk" "st_dataDir (sv_store sv) = [cfg_DataDir (sv_cfg sv)]"
    using NewWithMeta_OkD [OF s(2)] by (simp_all add: s(3) st_SetRaft_def)
  show "hd_accessKey (sv_handler sv) = cfg_AccessKey (sv_cfg sv)" "hd_secretKey (sv_handler sv) = cfg_SecretKey (sv_cfg sv)"
    by (simp_all add: s(4) SetJoiner_def NewHandler_def)
qed

lemma blobs_intact_files: "dk_files dk = dk_files dk' \<Longrightarrow> blobs_intact dir dk = blobs_intact dir dk'"
  by (simp add: blobs_intact_def blob_at_def)

text \<open>A bucket that was created over HTTP right after the start is empty and takes writes.\<close>

lemma created_state:
  assumes start: "main_start S args dk = Some (Ok sv)"
    and leads: "RaftNode_IsLeader (sv_node sv)" "\<And>entry. rl_apply (rn_raft (sv_node sv)) entry = None"
    and client: "auth_wf a" "sa_accessKey a = cfg_AccessKey (sv_cfg sv)" "p \<noteq> ''''"
    and r: "CHR ''/'' \<notin> set b" "rq_Method r = ''PUT''" "rq_URL r = bucket_url b"
    and created: "ServeHTTP V (sv_handler sv) (sign_request (cfg_SecretKey (sv_cfg sv)) a p r) (sv_store sv) = (Ok x, s)"
      "rs_Status x = 200"
  shows "ms_wf (st_meta s)" "ms_writable (st_meta s) b" "ms_room (st_meta s) b k" "accepts s"
    "ms_next (st_meta s) b' k = 1" "ms_history (st_meta s) b' k = []"
    "blobs_intact [cfg_DataDir (sv_cfg sv)] dk \<Longrightarrow> blobs_intact (st_dataDir s) (st_disk s)"
proof -
  note st = started_state [OF start leads]
  have keys: "hd_accessKey (sv_handler sv) = sa_accessKey a" "hd_secretKey (sv_handler sv) = cfg_SecretKey (sv_cfg sv)"
    using st client by simp_all
  have "respond (\<lambda>_. status_only 200) (st_CreateBucket (ev_bolt V) (ev_now V) b (sv_store sv)) = (Ok x, s)"
    using create_over_http [OF client(1,3) keys(1) r(3,1,2), of V "sv_store sv"] created(1) by (simp add: keys(2))
  from respond_success [OF this created(2)] obtain u where
    c: "st_CreateBucket (ev_bolt V) (ev_now V) b (sv_store sv) = (Ok u, s)" by blast
  then have m: "ms_CreateBucket (ev_bolt V) (ev_now V) b (st_meta (sv_store sv)) = (Ok u, st_meta s)"
    and rest: "s = (sv_store sv)\<lparr>st_meta := st_meta s\<rparr>"
    by (auto simp: st_CreateBucket_def on_meta_def split: prod.splits)
  show "ms_wf (st_meta s)" "ms_writable (st_meta s) b" "ms_room (st_meta s) b k" "ms_next (st_meta s) b' k = 1"
    "ms_history (st_meta s) b' k = []"
    by (rule created_bucket [OF m st(1)])+
  have frame: "accepts s" "st_dataDir s = [cfg_DataDir (sv_cfg sv)]" "dk_files (st_disk s) = dk_files dk"
    by (subst rest, use st in \<open>simp add: accepts_def\<close>)+
  then show "accepts s" "blobs_intact [cfg_DataDir (sv_cfg sv)] dk \<Longrightarrow> blobs_intact (st_dataDir s) (st_disk s)"
    using blobs_intact_files [OF frame(3)] by simp_all
qed

section \<open>An example\<close>

definition live_env :: "(string, json) gomap env" where
  "live_env = demo_env\<lparr>ev_bolt := sy_bolt demo_sys\<rparr>"

definition live_request :: "string \<Rightarrow> string \<Rightarrow> bytes \<Rightarrow> request" where
  "live_request m p d = sign_request ''minioadmin'' demo_auth ''UNSIGNED-PAYLOAD'' (demo_request m p d)"

lemma demo_request_bucket: "rq_URL (demo_request m ''/b'' d) = bucket_url ''b''"
  by (simp add: demo_request_def bucket_url_def)

lemma live_server:
  obtains sv s where "main_start demo_sys demo_args demo_disk = Some (Ok sv)" "sv_cfg sv = demo_config"
    "RaftNode_IsLeader (sv_node sv)" "\<forall>entry. rl_apply (rn_raft (sv_node sv)) entry = None"
    "blobs_intact [cfg_DataDir (sv_cfg sv)] demo_disk"
    "ServeHTTP live_env (sv_handler sv) (live_request ''PUT'' ''/b'' '''') (sv_store sv) = (Ok (status_only 200), s)"
    "\<exists>bk. st_GetBucket (sy_bolt demo_sys) ''b'' s = Ok bk"
proof -
  obtain sv where sv: "main_start demo_sys demo_args demo_disk = Some (Ok sv)" "sv_cfg sv = demo_config"
    "rn_raft (sv_node sv) = demo_lib" "ms_buckets (st_meta (sv_store sv)) = []"
    using demo_start by blast
  have lib: "RaftNode_IsLeader (sv_node sv)" "\<And>entry. rl_apply (rn_raft (sv_node sv)) entry = None"
    by (simp_all add: RaftNode_IsLeader_def sv(3) demo_lib_def)
  have keys: "hd_accessKey (sv_handler sv) = ''minioadmin''" "hd_secretKey (sv_handler sv) = ''minioadmin''"
    using started_state(5,6) [OF sv(1) lib] by (simp_all add: sv(2))
  obtain s where s: "st_CreateBucket (ev_bolt live_env) (ev_now live_env) ''b'' (sv_store sv) = (Ok (), s)"
    "\<exists>bk. st_GetBucket (sy_bolt demo_sys) ''b'' s = Ok bk"
    by (simp add: st_CreateBucket_def on_meta_def ms_CreateBucket_def BucketDB_Create_def bolt_Update_def sv(4)
        live_env_def demo_env_def demo_sys_def alist_bolt_def st_GetBucket_def ms_GetBucket_def BucketDB_Get_def
        dec_enc_BucketMeta)
  from s(1) have "ServeHTTP live_env (sv_handler sv) (live_request ''PUT'' ''/b'' '''') (sv_store sv) = (Ok (status_only 200), s)"
    using create_over_http [OF demo_auth_wf, of "''UNSIGNED-PAYLOAD''" "sv_handler sv" "demo_request ''PUT'' ''/b'' ''''" "''b''"
        live_env "sv_store sv"]
    by (simp add: keys live_request_def demo_request_bucket)
  moreover have "blobs_intact [cfg_DataDir (sv_cfg sv)] demo_disk"
    by (simp add: blobs_intact_def blob_at_def demo_disk_def)
  ultimately show ?thesis using that sv(1,2) lib s(2) by blast
qed

end
