(* ===== verification/Crashes.thy ===== *)
theory Crashes
  imports Service
begin

text \<open>
  Which requests crash. A server that starts on a database without buckets never meets a bucket without
  its map of keys, so that two panics are left: the digest of a delete marker, in a read of a marker by its
  version, and, where requests overlap, the missing upload of a part that is recorded too late.
\<close>

section \<open>Outcomes that are not a panic\<close>

named_theorems calm \<open>operations that do not panic\<close>

lemma is_panic_iff: "is_panic x \<longleftrightarrow> (\<exists>p. x = Panic p)"
  by (cases x) auto

lemma calmD: "\<not> is_panic (fst x) \<Longrightarrow> x \<noteq> (Panic p, s)" "\<not> is_panic y \<Longrightarrow> y \<noteq> Panic p"
  by auto

lemma respond_calm [simp]: "is_panic (fst (respond f p)) = is_panic (fst p)"
  by (cases p; cases "fst p") auto

lemma map_outcome_calm [simp]: "is_panic (map_outcome f x) = is_panic x"
  by (cases x) auto

lemma bolt_calm [calm]:
  "\<not> is_panic (fst (BucketDB_Create B t n r db))" "\<not> is_panic (fst (BucketDB_Delete B n db))"
  "\<not> is_panic (BucketDB_Get B n db)"
  by (simp_all add: BucketDB_Create_def BucketDB_Delete_def BucketDB_Get_def bolt_Update_def
      split: option.split sum.split)

lemma reading_calm [calm]: "\<not> is_panic (ReadAll_limit n body)" "\<not> is_panic (os_Open E p dk)"
  "\<not> is_panic (fst (os_MkdirAll E p dk))" "\<not> is_panic (fst (os_WriteFile E p d dk))"
  by (simp_all add: ReadAll_limit_def os_Open_def os_MkdirAll_def os_WriteFile_def
      split: option.split write_fault.split)

lemma bucket_calm [calm]:
  "\<not> is_panic (fst (st_CreateBucket B t b s))" "\<not> is_panic (fst (st_DeleteBucket B b s))"
  "\<not> is_panic (st_GetBucket B b s)"
proof -
  show "\<not> is_panic (fst (st_CreateBucket B t b s))"
    using bolt_calm(1) [of B t b "ms_region (st_meta s)" "ms_buckets (st_meta s)"]
    by (auto simp: st_CreateBucket_def on_meta_def ms_CreateBucket_def split: prod.split outcome.split)
  show "\<not> is_panic (fst (st_DeleteBucket B b s))"
    using bolt_calm(2) [of B b "ms_buckets (st_meta s)"]
    by (auto simp: st_DeleteBucket_def on_meta_def ms_DeleteBucket_def split: prod.split outcome.split)
  show "\<not> is_panic (st_GetBucket B b s)" by (simp add: st_GetBucket_def ms_GetBucket_def calm)
qed

lemma meta_calm [calm]:
  "\<not> is_panic (ms_GetObject b k v m)" "\<not> is_panic (ms_GetObjectVersion_ptr b k v m)"
  "\<not> is_panic (ms_GetObjectVersion b k v m)" "\<not> is_panic (fst (ms_DeleteObject t b k v m))"
  by (simp_all add: ms_GetObject_def ms_GetObjectVersion_def ms_GetObjectVersion_ptr_def ms_DeleteObject_def
      split: option.split prod.split)

section \<open>No bucket without its map of keys\<close>

definition nil_free :: "'db MetaStore \<Rightarrow> bool" where
  "nil_free m = (\<forall>b. map_bool (ms_cache m) b \<longrightarrow> map_of (ms_objects m) b \<noteq> None)"

lemma nil_free_set_keys: "nil_free m \<Longrightarrow> nil_free (set_keys b ks m)"
  by (auto simp: nil_free_def set_keys_def)

lemma nil_free_buckets:
  assumes "nil_free m"
  shows "nil_free (snd (ms_CreateBucket B t b m))" "nil_free (snd (ms_DeleteBucket B b m))"
  using assms
  by (auto simp: nil_free_def ms_CreateBucket_def ms_DeleteBucket_def map_bool_def AList.update_conv' AList.delete_conv'
      split: prod.split outcome.split option.splits if_splits)

lemma nil_free_objects:
  assumes "nil_free m"
  shows "nil_free (snd (ms_PutObject b k meta m))" "nil_free (snd (ms_DeleteObject t b k v m))"
    and "\<not> is_panic (fst (ms_PutObject b k meta m))"
  using assms
  by (auto simp: ms_PutObject_def ms_DeleteObject_def Let_def nil_free_set_keys split: option.split prod.split)
    (auto simp: nil_free_def)

lemma ApplyOp_calm:
  assumes "nil_free m"
  shows "nil_free (snd (ApplyOp t op m))" "\<not> is_panic (fst (ApplyOp t op m))"
  using assms by (auto simp: ApplyOp_def nil_free_objects calm split: option.split sum.split)

lemma fsm_Apply_calm:
  assumes "nil_free m"
  shows "nil_free (snd (fsm_Apply t data m))" "\<not> is_panic (fst (fsm_Apply t data m))"
  using assms by (auto simp: fsm_Apply_def ApplyOp_calm split: sum.split)

lemma RaftNode_Apply_calm:
  assumes "nil_free m"
  shows "nil_free (snd (RaftNode_Apply t n op m))" "\<not> is_panic (fst (RaftNode_Apply t n op m))"
  using fsm_Apply_calm [OF assms, of t "enc_RaftOp op"] assms
  by (auto simp: RaftNode_Apply_def Let_def split: option.split prod.split outcome.split)

lemma raftApply_calm:
  assumes "nil_free (st_meta s)"
  shows "nil_free (st_meta (snd (raftApply t op s)))" "\<not> is_panic (fst (raftApply t op s))"
  using ApplyOp_calm [OF assms] RaftNode_Apply_calm [OF assms] assms
  by (auto simp: raftApply_def on_meta_def case_prod_beta split: option.split)

section \<open>Calls of the store\<close>

lemma writeBlob_calm: "2 \<le> length sha \<Longrightarrow> \<not> is_panic (fst (writeBlob E dir sha data dk))"
  using reading_calm(3,4) [THEN calmD(1)]
  by (auto simp: writeBlob_def slice_to_def blobPath_eq calm split: prod.split outcome.split)

lemma st_PutObject_calm:
  assumes "nil_free (st_meta s)"
  shows "\<not> is_panic (fst (st_PutObject E t b k body s))"
proof (cases "ReadAll_limit MaxObjectSize body")
  case (Ok data)
  have blob: "writeBlob E (st_dataDir s) (sha_hex data) data (st_disk s) \<noteq> (Panic p, dk)" for p dk
    by (rule calmD(1), rule writeBlob_calm) simp
  have log: "raftApply t op (s\<lparr>st_disk := dk\<rparr>) \<noteq> (Panic p, s')" for op dk p s'
    using assms by (intro calmD raftApply_calm) simp
  show ?thesis
    using blob log
    by (auto simp: st_PutObject_def Ok Let_def sha_hex_def [symmetric] split: prod.split outcome.split)
qed (use reading_calm(1) [of MaxObjectSize body] in \<open>auto simp: st_PutObject_def\<close>)

lemma register_complete_calm:
  assumes "nil_free (st_meta s)"
  shows "\<not> is_panic (fst (register_complete E t b k uid sz data s))"
proof -
  have blob: "writeBlob E (st_dataDir s) (sha_hex data) data (st_disk s) \<noteq> (Panic p, dk)" for p dk
    by (rule calmD(1), rule writeBlob_calm) simp
  have log: "raftApply t op (s\<lparr>st_disk := dk\<rparr>) \<noteq> (Panic p, s')" for op dk p s'
    using assms by (intro calmD raftApply_calm) simp
  show ?thesis
    using blob log
    by (auto simp: register_complete_def Let_def sha_hex_def [symmetric] split: prod.split outcome.split)
qed

lemma validate_calm [calm]: "\<not> is_panic (validateUpload b k uid s)"
  by (simp add: validateUpload_def split: option.split)

lemma parts_calm [calm]:
  "\<not> is_panic (check_parts ps cps n)" "\<not> is_panic (read_parts E dir uid dk cps data)"
proof -
  show "\<not> is_panic (check_parts ps cps n)"
    by (induction ps cps n rule: check_parts.induct) (auto split: option.split)
  show "\<not> is_panic (read_parts E dir uid dk cps data)"
  proof (induction cps arbitrary: data)
    case (Cons cp cps)
    then show ?case
      using reading_calm(2) [of E "partPath dir uid (cp_PartNumber cp)" dk] by (auto split: outcome.split)
  qed simp
qed

lemma st_Complete_calm:
  assumes "nil_free (st_meta s)"
  shows "\<not> is_panic (fst (st_CompleteMultipartUpload E t b k uid cps s))"
proof -
  have "check_parts ps cps n \<noteq> Panic p" "read_parts E dir uid dk cps data \<noteq> Panic p"
    "validateUpload b k uid s \<noteq> Panic p" for ps cps n dir dk data p
    by (rule calmD(2), simp add: calm)+
  then show ?thesis
    using register_complete_calm [OF assms]
    by (auto simp: st_CompleteMultipartUpload_def Let_def split: option.split outcome.split)
qed

lemma UploadPart_write_valid:
  assumes "UploadPart_write E b k uid n body s = (Ok z, s')"
  shows "map_of (st_multipart s') uid \<noteq> None"
proof -
  have "validateUpload b k uid s = Ok ()" "st_multipart s' = st_multipart s"
    using assms by (auto simp: UploadPart_write_def Let_def split: outcome.splits prod.splits)
  then show ?thesis by (auto simp: validateUpload_def split: option.splits)
qed

lemma st_UploadPart_calm [calm]: "\<not> is_panic (fst (st_UploadPart E t b k uid n body s))"
proof -
  obtain z s1 where w: "UploadPart_write E b k uid n body s = (z, s1)" by fastforce
  show ?thesis
  proof (cases z)
    case (Ok v)
    then show ?thesis
      using UploadPart_write_valid [of E b k uid n body s v s1] w
      by (auto simp: st_UploadPart_def UploadPart_record_def Let_def split: prod.split)
  next
    case (Panic p)
    with w reading_calm(1) [THEN calmD(2)] reading_calm(3,4) [THEN calmD(1)] show ?thesis
      by (auto simp: UploadPart_write_def Let_def validate_calm [THEN calmD(2)] split: outcome.splits prod.splits)
  qed (simp add: st_UploadPart_def w)
qed

lemma session_calm [calm]:
  "\<not> is_panic (fst (st_NewMultipartUpload B rnd t t' b k s))" "\<not> is_panic (fst (st_AbortMultipartUpload E b k uid s))"
  "\<not> is_panic (st_ListParts b k uid s)" "\<not> is_panic (st_ListMultipartUploads B b s)"
proof -
  have get: "\<not> is_panic (ms_GetBucket B b (st_meta s))" by (simp add: ms_GetBucket_def calm)
  show "\<not> is_panic (fst (st_NewMultipartUpload B rnd t t' b k s))" "\<not> is_panic (st_ListMultipartUploads B b s)"
    using get [THEN calmD(2)] by (auto simp: st_NewMultipartUpload_def st_ListMultipartUploads_def Let_def split: outcome.split)
  show "\<not> is_panic (fst (st_AbortMultipartUpload E b k uid s))" "\<not> is_panic (st_ListParts b k uid s)"
    by (auto simp: st_AbortMultipartUpload_def st_ListParts_def validate_calm [THEN calmD(2)]
        split: outcome.split option.split)
qed

text \<open>A delete reads a digest through the pointer it kept: of the version that moved into the cell, or of
  the one that was removed. Both are sound.\<close>

lemma cell_sound:
  assumes "meta_sound m" and "meta_sound m'" and "ms_GetObjectVersion_ptr b k v m = Ok (i, old)"
  shows "version_sound (cell_after i old (ms_history m' b k))"
proof -
  have "old \<in> set (ms_history m b k)"
    using assms(3) by (auto simp: version_ptr dest: find_version_Some split: option.splits)
  then show ?thesis
    using history_sound [OF assms(1)] history_sound [OF assms(2), of _ b k]
    by (cases "i < length (ms_history m' b k)") (auto simp: cell_after_def)
qed

lemma sound_blobPath: "version_sound v \<Longrightarrow> \<not> om_IsDeleteMarker v \<Longrightarrow> blobPath dir (om_Sha256 v) = Ok (blob_path dir (om_Sha256 v))"
  by (auto simp: version_sound_def blobPath_eq)

lemma st_DeleteObject_calm:
  assumes "nil_free (st_meta s)" and "st_sound s"
  shows "\<not> is_panic (fst (st_DeleteObject E t b k v s))"
proof (cases "v = ''''")
  case True
  then show ?thesis by (simp add: st_DeleteObject_def on_meta_def case_prod_beta calm)
next
  case False
  let ?op = "\<lparr>op_Kind = ''delete_version'', op_Bucket = b, op_Key = k, op_VersionID = v, op_Meta = None\<rparr>"
  obtain q s1 where s1: "raftApply t ?op s = (q, s1)" by fastforce
  have meta: "meta_sound (st_meta s)" using assms(2) by (simp add: st_sound_def)
  then have "meta_sound (st_meta s1)" using raftApply_sound [OF _ _ s1] by (simp add: op_sound_def)
  then have cell: "version_sound (cell_after i old (ms_history (st_meta s1) b k))"
    if "ms_GetObjectVersion_ptr b k v (st_meta s) = Ok (i, old)" for i old
    by (rule cell_sound [OF meta _ that])
  have "\<not> is_panic q" using raftApply_calm(2) [OF assms(1), of t ?op] s1 by simp
  with meta_calm(2) [THEN calmD(2), of b k v "st_meta s"] show ?thesis
    using False cell sound_blobPath
    by (cases q) (auto simp: st_DeleteObject_def s1 Let_def split: outcome.split)
qed

lemma st_GetObject_panics:
  assumes "st_sound s"
  shows "st_GetObject E b k v s = Panic p \<longleftrightarrow>
    p = ''slice bounds out of range'' \<and> (\<exists>meta. ms_GetObject b k v (st_meta s) = Ok meta \<and> om_IsDeleteMarker meta)"
proof (cases "ms_GetObject b k v (st_meta s)")
  case (Ok meta)
  have "version_sound meta" using got_sound [OF _ Ok] assms by (simp add: st_sound_def)
  then show ?thesis
    using Ok reading_calm(2) [THEN calmD(2)]
    by (auto simp: st_GetObject_def version_sound_def blobPath_eq slice_to_def split: if_splits outcome.splits)
next
  case (Panic p)
  then show ?thesis using meta_calm(1) [of b k v "st_meta s"] by simp
qed (simp add: st_GetObject_def)

lemma marker_read:
  assumes "v \<noteq> ''''"
  shows "(\<exists>meta. ms_GetObject b k v m = Ok meta \<and> om_IsDeleteMarker meta) \<longleftrightarrow> ms_IsDeleteMarker b k v m"
  using assms
  by (auto simp: ms_GetObject_def ms_IsDeleteMarker_def ms_GetObjectVersion_def ms_GetObjectVersion_ptr_def
      split: option.split)

section \<open>Every step keeps the maps of keys\<close>

lemma raftApply_meta: "raftApply t op s = (q, s') \<Longrightarrow> nil_free (st_meta s) \<Longrightarrow> nil_free (st_meta s')"
  using raftApply_calm(1) [of s t op] by simp

lemma st_step_nil_free: "st_step B s s' \<Longrightarrow> nil_free (st_meta s) \<Longrightarrow> nil_free (st_meta s')"
proof (induction rule: st_step.induct)
  case (do_create t b s r s')
  then show ?case using nil_free_buckets(1) [of "st_meta s" B t b]
    by (auto simp: st_CreateBucket_def on_meta_def split: prod.splits)
next
  case (do_delete_bucket b s r s')
  then show ?case using nil_free_buckets(2) [of "st_meta s" B b]
    by (auto simp: st_DeleteBucket_def on_meta_def split: prod.splits)
next
  case (do_put E t b k body s x s')
  then show ?case
    by (auto simp: st_PutObject_def Let_def split: outcome.splits prod.splits dest!: raftApply_meta)
next
  case (do_put_write E body s w s')
  then show ?case by (auto simp: PutObject_write_def split: outcome.splits prod.splits)
next
  case (do_put_register t b k data s r s')
  then show ?case by (auto simp: PutObject_register_def Let_def dest!: raftApply_meta)
next
  case (do_delete E t b k vid s y s')
  then show ?case using nil_free_objects(2) [of "st_meta s" t b k "''''"]
    by (auto simp: st_DeleteObject_def on_meta_def Let_def split: if_splits outcome.splits prod.splits dest!: raftApply_meta)
next
  case (do_new_upload rand t t' b k s y s')
  then show ?case by (auto simp: st_NewMultipartUpload_def Let_def split: outcome.splits)
next
  case (do_write_part E b k uid n body s z s')
  then show ?case by (auto simp: UploadPart_write_def Let_def split: outcome.splits prod.splits)
next
  case (do_record_part t uid n w s y s')
  then show ?case by (auto simp: UploadPart_record_def Let_def split: option.splits prod.splits)
next
  case (do_complete E t b k uid cps s r s')
  then show ?case
    by (auto simp: st_CompleteMultipartUpload_def register_complete_def cleanupUpload_def Let_def
        split: outcome.splits option.splits prod.splits dest!: raftApply_meta)
next
  case (do_abort E b k uid s r s')
  then show ?case by (auto simp: st_AbortMultipartUpload_def cleanupUpload_def split: outcome.splits)
next
  case (do_reap E t age s m s')
  have "st_meta (foldl (\<lambda>s uid. cleanupUpload E uid s) s uids) = st_meta s" for uids and s :: "'a Store"
    by (induction uids arbitrary: s) (simp_all add: cleanupUpload_def)
  then show ?case using do_reap by (auto simp: st_AbortStaleUploads_def Let_def)
next
  case (do_log_entry op t s r m')
  then show ?case using fsm_Apply_calm(1) [of "st_meta s" t "enc_RaftOp op"] by simp
qed

section \<open>Requests\<close>

lemma handleBucket_calm: "\<not> is_panic (fst (handleBucket V r b s))"
  by (simp add: handleBucket_def Let_def listMultipartUploads_def listObjectVersions_def listObjectsV2_def
      headBucket_def calm)

text \<open>The request that reads a marker by its version.\<close>

definition reads_marker :: "request \<Rightarrow> string \<Rightarrow> string \<Rightarrow> 'db Store \<Rightarrow> bool" where
  "reads_marker r b k s =
     (rq_Method r = ''GET'' \<and> \<not> values_Has (url_Query (rq_URL r)) ''uploadId'' \<and>
      query r ''versionId'' \<noteq> '''' \<and> ms_IsDeleteMarker b k (query r ''versionId'') (st_meta s))"

lemma getObject_panics:
  assumes "st_sound s"
  shows "fst (getObject V r b k s) = Panic p \<longleftrightarrow> p = ''slice bounds out of range'' \<and>
     query r ''versionId'' \<noteq> '''' \<and> ms_IsDeleteMarker b k (query r ''versionId'') (st_meta s)"
proof -
  let ?v = "query r ''versionId''"
  have "fst (getObject V r b k s) = Panic p \<longleftrightarrow> st_GetObject (ev_os V) b k ?v s = Panic p"
    by (cases "st_GetObject (ev_os V) b k ?v s") (simp_all add: getObject_def)
  also have "\<dots> \<longleftrightarrow> p = ''slice bounds out of range'' \<and>
      (\<exists>meta. ms_GetObject b k ?v (st_meta s) = Ok meta \<and> om_IsDeleteMarker meta)"
    by (rule st_GetObject_panics [OF assms])
  finally show ?thesis
    using marker_read [of ?v b k "st_meta s"] ms_GetObject_not_marker [of b k "st_meta s"] by (cases "?v = ''''") auto
qed

lemma handleObject_panics:
  assumes "nil_free (st_meta s)" and "st_sound s"
  shows "fst (handleObject V r b k s) = Panic p \<longleftrightarrow> p = ''slice bounds out of range'' \<and> reads_marker r b k s"
proof -
  have calls: "\<not> is_panic (fst (putObject V r b k s))" "\<not> is_panic (fst (deleteObject V r b k s))"
    "\<not> is_panic (fst (completeMultipartUpload V r b k s))" "\<not> is_panic (fst (uploadPart V r b k s))"
    "\<not> is_panic (fst (createMultipartUpload V b k s))" "\<not> is_panic (fst (abortMultipartUpload V r b k s))"
    "\<not> is_panic (fst (listParts r b k s))"
    using st_PutObject_calm [OF assms(1)] st_DeleteObject_calm [OF assms] st_Complete_calm [OF assms(1)]
    by (simp_all add: write_handlers listParts_def Let_def calm split: option.split)
  have head: "\<not> is_panic (fst (headObject r b k s))"
    using meta_calm(1,3) [THEN calmD(2), of b k _ "st_meta s"]
    by (auto simp: headObject_def st_GetMetaVersion_def st_GetMeta_def Let_def split: outcome.split)
  show ?thesis
    using calls [THEN calmD(2)] head [THEN calmD(2)] getObject_panics [OF assms(2)]
    by (auto simp: handleObject_def reads_marker_def Let_def)
qed

section \<open>Properties\<close>

lemma fresh_start:
  assumes "main_start S args dk = Some (Ok sv)" and "st_ListBuckets (sy_bolt S) (sv_store sv) = []"
  shows "nil_free (st_meta (sv_store sv))"
proof -
  obtain meta st where s: "NewMetaStore (sy_bolt S) (sy_dbfile S [cfg_DataDir (sv_cfg sv)] dk) = Ok meta"
    "st_NewWithMeta (sy_os S) [cfg_DataDir (sv_cfg sv)] (ms_SetRegion (cfg_Region (sv_cfg sv)) meta) dk = Ok st"
    "sv_store sv = st_SetRaft (sv_node sv) st"
    using main_start_OkD [OF assms(1)] by metis
  have m: "st_meta (sv_store sv) = ms_SetRegion (cfg_Region (sv_cfg sv)) meta"
    using NewWithMeta_OkD(1) [OF s(2)] by (simp add: s(3) st_SetRaft_def)
  then have "fst (BucketDB_List (sy_bolt S) (ms_buckets meta)) = []"
    using assms(2) by (simp add: st_ListBuckets_def ms_ListBuckets_def ms_SetRegion_def)
  then have "ms_cache (st_meta (sv_store sv)) = []"
    using NewMetaStore_Ok(2) [OF s(1)] by (simp add: m ms_SetRegion_def cache_of_def)
  then show ?thesis by (simp add: nil_free_def map_bool_def)
qed

lemma run_keeps:
  assumes "(sv_step B)\<^sup>*\<^sup>* sv0 sv" and "nil_free (st_meta (sv_store sv0))" and "st_sound (sv_store sv0)"
  shows "nil_free (st_meta (sv_store sv)) \<and> st_sound (sv_store sv)"
  using assms(1)
proof (induction rule: rtranclp_induct)
  case (step sv1 sv2)
  have "nil_free (st_meta s')" if "st_steps B s s'" "nil_free (st_meta s)" for s s' :: "'a Store"
    using that by (induction rule: rtranclp_induct) (use st_step_nil_free in blast)+
  then show ?case using sv_step_store [OF step.hyps(2)] step.IH st_steps_sound by blast
qed (use assms in simp)

text \<open>The halves of writes and of part uploads, as they run when requests overlap.\<close>

lemma halves_calm:
  "\<not> is_panic (fst (PutObject_write E body s))" "\<not> is_panic (fst (UploadPart_write E b k uid n body s))"
proof -
  have "writeBlob E (st_dataDir s) (sha_hex data) data (st_disk s) \<noteq> (Panic p, dk)" for data p dk
    by (rule calmD(1), rule writeBlob_calm) simp
  then show "\<not> is_panic (fst (PutObject_write E body s))"
    using reading_calm(1) [THEN calmD(2)]
    by (auto simp: PutObject_write_def sha_hex_def [symmetric] split: outcome.split prod.split)
  show "\<not> is_panic (fst (UploadPart_write E b k uid n body s))"
    using reading_calm(1) [THEN calmD(2)] reading_calm(3,4) [THEN calmD(1)]
    by (auto simp: UploadPart_write_def Let_def validate_calm [THEN calmD(2)] split: outcome.split prod.split)
qed

lemma register_calm: "nil_free (st_meta s) \<Longrightarrow> \<not> is_panic (fst (PutObject_register t b k data s))"
  by (simp add: PutObject_register_def Let_def raftApply_calm)

lemma record_panics: "is_panic (fst (UploadPart_record t uid n w s)) \<longleftrightarrow> map_of (st_multipart s) uid = None"
  by (simp add: UploadPart_record_def Let_def split: option.split prod.split)

text \<open>C12. What crashes: a server that starts without buckets keeps, through any run of requests, halves of
  overlapping writes and part uploads, reaper ticks and log entries, a state in which a request that is
  served on its own panics exactly when it is a signed \<^verbatim>\<open>GET\<close> of a delete marker by its version, which slices an
  empty digest. Of the halves of overlapping requests none panics but recording a part, and that exactly
  when the upload has ended in between. No entry of the log, whatever it holds, makes the node panic.\<close>

theorem request_panics_iff:
  assumes "main_start S args dk = Some (Ok sv0)" and "blobs_intact [cfg_DataDir (sv_cfg sv0)] dk"
    and "st_ListBuckets (sy_bolt S) (sv_store sv0) = []" and "(sv_step (sy_bolt S))\<^sup>*\<^sup>* sv0 sv"
  shows "(fst (ServeHTTP V h r (sv_store sv)) = Panic p \<longleftrightarrow>
      p = ''slice bounds out of range'' \<and> \<not> HasPrefix (u_Path (rq_URL r)) ''/internal/'' \<and>
      fst (verifySigV4 (hd_accessKey h) (hd_secretKey h) r) \<and> rq_Method r = ''GET'' \<and>
      \<not> values_Has (url_Query (rq_URL r)) ''uploadId'' \<and> query r ''versionId'' \<noteq> '''' \<and>
      (\<exists>b k. cut (CHR ''/'') (TrimPrefix (u_Path (rq_URL r)) ''/'') = (b, Some k) \<and>
         ms_IsDeleteMarker b k (query r ''versionId'') (st_meta (sv_store sv)))) \<and>
    \<not> is_panic (fst (PutObject_write E body (sv_store sv))) \<and>
    \<not> is_panic (fst (PutObject_register t b' k' data (sv_store sv))) \<and>
    \<not> is_panic (fst (UploadPart_write E b' k' uid n body (sv_store sv))) \<and>
    (is_panic (fst (UploadPart_record t uid n w (sv_store sv))) \<longleftrightarrow> map_of (st_multipart (sv_store sv)) uid = None) \<and>
    \<not> is_panic (fst (fsm_Apply t entry (st_meta (sv_store sv))))"
proof (intro conjI)
  have inv: "nil_free (st_meta (sv_store sv))" "st_sound (sv_store sv)"
    using run_keeps [OF assms(4) fresh_start [OF assms(1,3)] booted_sound [OF assms(1,2)]] by auto
  then show "\<not> is_panic (fst (fsm_Apply t entry (st_meta (sv_store sv))))" by (simp add: fsm_Apply_calm)
  show "\<not> is_panic (fst (PutObject_register t b' k' data (sv_store sv)))" by (rule register_calm [OF inv(1)])
  have route: "fst (route V r' (sv_store sv)) = Panic p \<longleftrightarrow> p = ''slice bounds out of range'' \<and>
      (\<exists>b k. cut (CHR ''/'') (TrimPrefix (u_Path (rq_URL r')) ''/'') = (b, Some k) \<and> reads_marker r' b k (sv_store sv))" for r'
    using handleObject_panics [OF inv]
    by (auto simp: route_def Let_def listBuckets_def handleBucket_calm [THEN calmD(2)] split: prod.split option.split)
  obtain ok r' where v: "verifySigV4 (hd_accessKey h) (hd_secretKey h) r = (ok, r')" by fastforce
  moreover have "\<exists>body. r' = r\<lparr>rq_Body := body\<rparr>"
    using verifySigV4_request [of "hd_accessKey h" "hd_secretKey h" r] v by simp
  ultimately show "fst (ServeHTTP V h r (sv_store sv)) = Panic p \<longleftrightarrow>
      p = ''slice bounds out of range'' \<and> \<not> HasPrefix (u_Path (rq_URL r)) ''/internal/'' \<and>
      fst (verifySigV4 (hd_accessKey h) (hd_secretKey h) r) \<and> rq_Method r = ''GET'' \<and>
      \<not> values_Has (url_Query (rq_URL r)) ''uploadId'' \<and> query r ''versionId'' \<noteq> '''' \<and>
      (\<exists>b k. cut (CHR ''/'') (TrimPrefix (u_Path (rq_URL r)) ''/'') = (b, Some k) \<and>
         ms_IsDeleteMarker b k (query r ''versionId'') (st_meta (sv_store sv)))"
    using route [of r'] by (cases ok) (auto simp: ServeHTTP_def reads_marker_def query_def)
qed (rule halves_calm record_panics)+

text \<open>A request for version 2 of an object whose second version is a marker.\<close>

definition marker_request :: request where
  "marker_request = sign_request ''minioadmin'' demo_auth ''UNSIGNED-PAYLOAD''
     ((demo_request ''GET'' ''/b/k'' '''')\<lparr>rq_URL := (object_url ''b'' ''k'')\<lparr>u_RawQuery := ''versionId=2''\<rparr>\<rparr>)"

lemma marker_request_url:
  "rq_URL marker_request = (object_url ''b'' ''k'')\<lparr>u_RawQuery := ''versionId=2''\<rparr>" "rq_Method marker_request = ''GET''"
  by (simp_all add: marker_request_def)

lemma marker_request_query: "url_Query (rq_URL marker_request) = [(''versionId'', [''2''])]"
  unfolding marker_request_url(1) by code_simp

lemma marked_version:
  assumes "ms_wf m" and "ms_writable m b" and "ms_next m b k < 2 ^ 63 - 1" and "ms_history m b k \<noteq> []"
  shows "\<exists>m'. ms_DeleteObject t b k '''' m = (Ok (FormatInt (ms_next m b k)), m') \<and>
    ms_IsDeleteMarker b k (FormatInt (ms_next m b k)) m'"
proof -
  have room: "ms_room m b k" using assms(3) by (simp add: ms_room_def)
  let ?h = "ms_history m b k @ [(delete_marker k t)\<lparr>om_VersionID := FormatInt (ms_next m b k)\<rparr>]"
  obtain m' where m': "ms_DeleteObject t b k '''' m = (Ok (FormatInt (ms_next m b k)), m')" "ms_wf m'"
    "ms_history m' b k = ?h"
    by (rule mark_step [OF assms(1,2) room assms(4), of t]) auto
  have "find_version (FormatInt (ms_next m b k)) ?h = Some (length (ms_history m b k))"
    using find_version_nth [of ?h "length (ms_history m b k)"] ms_history_distinct [OF m'(2), of b k] by (simp add: m'(3))
  then show ?thesis
    using m'(1) by (simp add: ms_IsDeleteMarker_def ms_GetObjectVersion_def version_ptr m'(3) delete_marker_def)
qed

lemma delete_over_http:
  assumes "auth_wf a" and "payload \<noteq> ''''" and "hd_accessKey h = sa_accessKey a"
    and "rq_URL r = object_url b k" and "CHR ''/'' \<notin> set b" and "b \<noteq> ''internal''" and "rq_Method r = ''DELETE''"
  shows "ServeHTTP V h (sign_request (hd_secretKey h) a payload r) s =
    respond (\<lambda>_. status_only 204) (st_DeleteObject (ev_os V) (ev_now V) b k '''' s)"
  using assms by (simp add: verify_signed object_url_external route_object handleObject_def deleteObject_def query_def)

lemma live_marker:
  obtains sv0 sv where "main_start demo_sys demo_args demo_disk = Some (Ok sv0)"
    "blobs_intact [cfg_DataDir (sv_cfg sv0)] demo_disk" "st_ListBuckets (sy_bolt demo_sys) (sv_store sv0) = []"
    "(sv_step (sy_bolt demo_sys))\<^sup>*\<^sup>* sv0 sv" "sv_handler sv = sv_handler sv0"
    "hd_accessKey (sv_handler sv0) = ''minioadmin''" "hd_secretKey (sv_handler sv0) = ''minioadmin''"
    "ms_IsDeleteMarker ''b'' ''k'' ''2'' (st_meta (sv_store sv))"
proof -
  obtain sv s0 where sv: "main_start demo_sys demo_args demo_disk = Some (Ok sv)" "sv_cfg sv = demo_config"
    "RaftNode_IsLeader (sv_node sv)" "\<forall>entry. rl_apply (rn_raft (sv_node sv)) entry = None"
    "blobs_intact [cfg_DataDir (sv_cfg sv)] demo_disk"
    "ServeHTTP live_env (sv_handler sv) (live_request ''PUT'' ''/b'' '''') (sv_store sv) = (Ok (status_only 200), s0)"
    by (rule live_server) blast
  have keys: "cfg_SecretKey (sv_cfg sv) = ''minioadmin''" "cfg_AccessKey (sv_cfg sv) = ''minioadmin''"
    "hd_accessKey (sv_handler sv) = ''minioadmin''" "hd_secretKey (sv_handler sv) = ''minioadmin''"
    using started_state(5,6) [OF sv(1,3) sv(4) [rule_format]] by (simp_all add: sv(2))
  have env: "os_atomic (ev_os live_env)" "ev_bolt live_env = sy_bolt demo_sys"
    by (simp_all add: live_env_def demo_env_def os_atomic_def os_ok_def)
  have empty: "st_ListBuckets (sy_bolt demo_sys) (sv_store sv) = []"
    using demo_start sv(1)
    by (auto simp: st_ListBuckets_def ms_ListBuckets_def BucketDB_List_def demo_sys_def alist_bolt_def ordered_entries_def)
  note made = created_state [OF sv(1,3) sv(4) [rule_format] demo_auth_wf _ _ _ _ demo_request_bucket
      sv(6) [unfolded live_request_def, folded keys(1)]]
  have made1: "ms_wf (st_meta s0)" "ms_writable (st_meta s0) ''b''" "ms_room (st_meta s0) ''b'' ''k''" "accepts s0"
    "ms_next (st_meta s0) ''b'' ''k'' = 1"
    using made by (simp_all add: keys status_only_def)
  obtain m1 meta where put: "PutObject_register 8 ''b'' ''k'' ''x'' s0 = (Ok (), s0\<lparr>st_meta := m1\<rparr>)" "ms_wf m1"
    "ms_writable m1 ''b''" "ms_next m1 ''b'' ''k'' = ms_next (st_meta s0) ''b'' ''k'' + 1"
    "ms_history m1 ''b'' ''k'' = ms_history (st_meta s0) ''b'' ''k'' @ [meta]"
    by (rule register_step [OF made1(1-4) demo_names(1,2), of 8 "''x''"]) (use made1(2) in auto)
  have "FormatInt 2 = ''2''" by code_simp
  with marked_version [OF put(2,3), of "''k''" 9] put(4,5) made1(5) obtain m2 where
    del: "ms_DeleteObject 9 ''b'' ''k'' '''' m1 = (Ok ''2'', m2)" "ms_IsDeleteMarker ''b'' ''k'' ''2'' m2" by auto
  let ?B = "sy_bolt demo_sys" and ?sv1 = "sv\<lparr>sv_store := s0\<rparr>" and ?sv2 = "sv\<lparr>sv_store := s0\<lparr>st_meta := m1\<rparr>\<rparr>"
    and ?sv3 = "sv\<lparr>sv_store := s0\<lparr>st_meta := m2\<rparr>\<rparr>"
  have "sv_step ?B sv ?sv1" by (rule request [OF env(2,1) sv(6)])
  moreover have "sv_step ?B ?sv1 ?sv2" using put_registered [of 8 "''b''" "''k''" "''x''" ?sv1] put(1) by simp
  moreover have "ServeHTTP live_env (sv_handler ?sv2) (live_request ''DELETE'' ''/b/k'' '''') (sv_store ?sv2) =
      (Ok (status_only 204), s0\<lparr>st_meta := m2\<rparr>)"
    using delete_over_http [OF demo_auth_wf, of "''UNSIGNED-PAYLOAD''" "sv_handler sv" "demo_request ''DELETE'' ''/b/k'' ''''"
        "''b''" "''k''" live_env "s0\<lparr>st_meta := m1\<rparr>"] del(1)
    by (simp add: keys live_request_def st_DeleteObject_def on_meta_def live_env_def demo_env_def)
  from request [OF env(2,1) this] have "sv_step ?B ?sv2 ?sv3" by simp
  ultimately have "(sv_step ?B)\<^sup>*\<^sup>* sv ?sv3" by (meson rtranclp.rtrancl_into_rtrancl rtranclp.rtrancl_refl)
  then show ?thesis using that [OF sv(1,5) empty, of ?sv3] keys(3,4) del(2) by simp
qed

theorem request_panics_iff_witness:
  "\<exists>sv0 sv. main_start demo_sys demo_args demo_disk = Some (Ok sv0) \<and> (sv_step (sy_bolt demo_sys))\<^sup>*\<^sup>* sv0 sv \<and>
     fst (ServeHTTP live_env (sv_handler sv) marker_request (sv_store sv)) = Panic ''slice bounds out of range''"
proof -
  obtain sv0 sv where sv: "main_start demo_sys demo_args demo_disk = Some (Ok sv0)"
    "blobs_intact [cfg_DataDir (sv_cfg sv0)] demo_disk" "st_ListBuckets (sy_bolt demo_sys) (sv_store sv0) = []"
    "(sv_step (sy_bolt demo_sys))\<^sup>*\<^sup>* sv0 sv" "sv_handler sv = sv_handler sv0"
    "hd_accessKey (sv_handler sv0) = ''minioadmin''" "hd_secretKey (sv_handler sv0) = ''minioadmin''"
    "ms_IsDeleteMarker ''b'' ''k'' ''2'' (st_meta (sv_store sv))"
    by (rule live_marker)
  have signed: "fst (verifySigV4 ''minioadmin'' ''minioadmin'' marker_request)"
    using sign_request_verifies [OF demo_auth_wf, of "''UNSIGNED-PAYLOAD''" "''minioadmin''"]
    by (simp add: marker_request_def)
  have path: "u_Path (rq_URL marker_request) = ''/b/k''" by (simp add: marker_request_url object_url_def)
  have "\<not> HasPrefix ''/b/k'' ''/internal/''" "cut (CHR ''/'') (TrimPrefix ''/b/k'' ''/'') = (''b'', Some ''k'')"
    by code_simp+
  moreover have "query marker_request ''versionId'' = ''2''" "\<not> values_Has (url_Query (rq_URL marker_request)) ''uploadId''"
    by (simp_all add: query_def marker_request_query values_Get_def values_Has_def)
  ultimately have "fst (ServeHTTP live_env (sv_handler sv) marker_request (sv_store sv)) = Panic ''slice bounds out of range''"
    using request_panics_iff [OF sv(1-4), THEN conjunct1, THEN iffD2] sv(5-8) signed
    by (simp add: path marker_request_url(2))
  then show ?thesis using sv(1,4) by blast
qed

end
