(* ===== verification/Refinement.thy ===== *)
theory Refinement
  imports Concurrency
begin

text \<open>
  The store refines what it promises. The promise is a map from bucket and key to the versions of that
  key, oldest first: a version is the time it was made and its contents, none for a marker, and is named
  by its position. Writes, reads, heads, deletes and pages of the engine, in any order, answer as that map does.
  Removals of single versions are left out: they delete blobs that other versions need.
\<close>

section \<open>Refinement of sequences of calls\<close>

fun run_calls :: "('c \<Rightarrow> 's \<Rightarrow> 'r \<times> 's) \<Rightarrow> 'c list \<Rightarrow> 's \<Rightarrow> 'r list \<times> 's" where
  "run_calls step [] s = ([], s)"
| "run_calls step (c # cs) s =
     (case step c s of (r, s') \<Rightarrow> case run_calls step cs s' of (rs, s'') \<Rightarrow> (r # rs, s''))"

text \<open>One state represents another as long as no more than a number of calls follow, for the sake of
  counters that are finite.\<close>

locale call_refinement =
  fixes step :: "'c \<Rightarrow> 's \<Rightarrow> 'r \<times> 's"
    and spec :: "'c \<Rightarrow> 'a \<Rightarrow> 'r \<times> 'a"
    and represents :: "nat \<Rightarrow> 's \<Rightarrow> 'a \<Rightarrow> bool"
    and admissible :: "'c \<Rightarrow> bool"
  assumes simulates: "represents (Suc n) s a \<Longrightarrow> admissible c \<Longrightarrow>
      fst (step c s) = fst (spec c a) \<and> represents n (snd (step c s)) (snd (spec c a))"
begin

lemma runs_agree:
  assumes "represents (length cs) s a" and "\<forall>c \<in> set cs. admissible c"
  shows "fst (run_calls step cs s) = fst (run_calls spec cs a) \<and>
    represents 0 (snd (run_calls step cs s)) (snd (run_calls spec cs a))"
  using assms
proof (induction cs arbitrary: s a)
  case (Cons c cs)
  then have "fst (step c s) = fst (spec c a)" "represents (length cs) (snd (step c s)) (snd (spec c a))"
    using simulates [of "length cs" s a c] by simp_all
  with Cons.IH Cons.prems(2) show ?case by (simp add: case_prod_beta)
qed simp

end

section \<open>The promise\<close>

type_synonym version = "time \<times> bytes option"

type_synonym s3 = "string \<Rightarrow> string \<Rightarrow> version list"

text \<open>What a listing shows of an object: key, time, digest and size.\<close>

type_synonym entry = "string \<times> time \<times> string \<times> i64"

datatype call =
    PutCall time string string reader
  | GetCall string string string
  | HeadCall string string string
  | DeleteCall time string string
  | ListCall string string string int

datatype answer =
    Stored string string  \<comment> \<open>digest and version\<close>
  | Contents bytes string i64 string  \<comment> \<open>data, digest, size and version\<close>
  | Described string i64 string  \<comment> \<open>digest, size and version\<close>
  | Marked string  \<comment> \<open>version of the marker\<close>
  | Deleted string  \<comment> \<open>version of the marker\<close>
  | Page "entry list" string  \<comment> \<open>objects and the token for the next page\<close>
  | Failed err
  | Crashed string

definition version_name :: "nat \<Rightarrow> string" where
  "version_name i = FormatInt (int i + 1)"

definition size_of :: "bytes \<Rightarrow> i64" where
  "size_of d = word_of_int (int (length d))"

definition visible_keys :: "s3 \<Rightarrow> string \<Rightarrow> string \<Rightarrow> string \<Rightarrow> string list" where
  "visible_keys a b pfx after =
     sorted_list_of_set {k. prefix pfx k \<and> after < k \<and> a b k \<noteq> [] \<and> snd (last (a b k)) \<noteq> None}"

definition visible_entry :: "s3 \<Rightarrow> string \<Rightarrow> string \<Rightarrow> entry" where
  "visible_entry a b k =
     (case last (a b k) of (t, c) \<Rightarrow> (case c of None \<Rightarrow> (k, t, '''', 0) | Some d \<Rightarrow> (k, t, sha_hex d, size_of d)))"

fun version_answer :: "nat \<Rightarrow> version \<Rightarrow> answer" where
  "version_answer i (t, Some d) = Contents d (sha_hex d) (size_of d) (version_name i)"
| "version_answer i (t, None) = Crashed ''slice bounds out of range''"

fun version_head :: "nat \<Rightarrow> version \<Rightarrow> answer" where
  "version_head i (t, Some d) = Described (sha_hex d) (size_of d) (version_name i)"
| "version_head i (t, None) = Marked (version_name i)"

text \<open>The version that a read means, with its position: the newest one, unless it is a marker, or the one
  of the given name.\<close>

definition chosen :: "version list \<Rightarrow> string \<Rightarrow> (nat \<times> version) option" where
  "chosen vs v =
     (if v = '''' then if vs = [] \<or> snd (last vs) = None then None else Some (length vs - 1, last vs)
      else map_option (\<lambda>i. (i, vs ! i)) (find (\<lambda>i. version_name i = v) [0..<length vs]))"

text \<open>What the engine answers, the crash of reading a marker by its version included. Theory \<open>Promise\<close> says
  where the responses this gives are not the documented ones.\<close>

fun spec_call :: "call \<Rightarrow> s3 \<Rightarrow> answer \<times> s3" where
  "spec_call (PutCall t b k body) a =
     (case ReadAll_limit MaxObjectSize body of
        Ok d \<Rightarrow> (Stored (sha_hex d) (version_name (length (a b k))), a(b := (a b)(k := a b k @ [(t, Some d)])))
      | Err e \<Rightarrow> (Failed (ErrWrap ''read body'' e), a)
      | Panic p \<Rightarrow> (Crashed p, a))"
| "spec_call (GetCall b k v) a =
     (case chosen (a b k) v of None \<Rightarrow> Failed ErrNoKey | Some (i, c) \<Rightarrow> version_answer i c, a)"
| "spec_call (HeadCall b k v) a =
     (case chosen (a b k) v of None \<Rightarrow> Failed ErrNoKey | Some (i, c) \<Rightarrow> version_head i c, a)"
| "spec_call (DeleteCall t b k) a =
     (if a b k = [] then (Failed ErrNoKey, a)
      else (Deleted (version_name (length (a b k))), a(b := (a b)(k := a b k @ [(t, None)]))))"
| "spec_call (ListCall b pfx after n) a =
     ((let ks = visible_keys a b pfx after; m = (if n \<le> 0 then 1000 else nat n)
       in if m < length ks then Page (map (visible_entry a b) (take m ks)) (last (take m ks))
          else Page (map (visible_entry a b) ks) ''''), a)"

section \<open>The calls of the engine\<close>

fun answered :: "('a \<Rightarrow> answer) \<Rightarrow> 'a outcome \<times> 's \<Rightarrow> answer \<times> 's" where
  "answered f (Ok x, s) = (f x, s)"
| "answered f (Err e, s) = (Failed e, s)"
| "answered f (Panic p, s) = (Crashed p, s)"

definition entry_of :: "ObjectMeta \<Rightarrow> entry" where
  "entry_of m = (om_Key m, om_CreatedAt m, om_ETag m, om_Size m)"

definition head_of :: "ObjectMeta \<Rightarrow> answer" where
  "head_of m =
     (if om_IsDeleteMarker m then Marked (om_VersionID m) else Described (om_ETag m) (om_Size m) (om_VersionID m))"

fun store_call :: "os \<Rightarrow> call \<Rightarrow> 'db Store \<Rightarrow> answer \<times> 'db Store" where
  "store_call E (PutCall t b k body) s = answered (\<lambda>(etag, vid). Stored etag vid) (st_PutObject E t b k body s)"
| "store_call E (GetCall b k v) s =
     answered (\<lambda>(data, meta). Contents data (om_ETag meta) (om_Size meta) (om_VersionID meta)) (st_GetObject E b k v s, s)"
| "store_call E (HeadCall b k v) s =
     answered head_of (if v \<noteq> '''' then st_GetMetaVersion b k v s else st_GetMeta b k s, s)"
| "store_call E (DeleteCall t b k) s = answered Deleted (st_DeleteObject E t b k '''' s)"
| "store_call E (ListCall b pfx after n) s =
     (case st_ListObjectsPaged b pfx after n s of (objs, token) \<Rightarrow> (Page (map entry_of objs) token, s))"

section \<open>Which state represents which map\<close>

definition version_matches :: "path \<Rightarrow> disk \<Rightarrow> bytes set \<Rightarrow> nat \<Rightarrow> ObjectMeta \<Rightarrow> version \<Rightarrow> bool" where
  "version_matches dir dk D i v c =
     (om_VersionID v = version_name i \<and> om_IsDeleteMarker v = (snd c = None) \<and> om_CreatedAt v = fst c \<and>
      (case snd c of
         None \<Rightarrow> om_Sha256 v = ''''
       | Some d \<Rightarrow> d \<in> D \<and> om_ETag v = sha_hex d \<and> om_Sha256 v = sha_hex d \<and> om_Size v = size_of d \<and>
           blob_at dir (sha_hex d) dk = Some d))"

definition key_matches :: "path \<Rightarrow> disk \<Rightarrow> bytes set \<Rightarrow> ObjectMeta list \<Rightarrow> version list \<Rightarrow> bool" where
  "key_matches dir dk D vs cs =
     (length vs = length cs \<and> (\<forall>i < length cs. version_matches dir dk D i (vs ! i) (cs ! i)))"

definition represents :: "string set \<Rightarrow> bytes set \<Rightarrow> nat \<Rightarrow> 'db Store \<Rightarrow> s3 \<Rightarrow> bool" where
  "represents Bs D n s a =
     (inj_on sha_hex D \<and> ms_wf (st_meta s) \<and> accepts s \<and> (\<forall>b \<in> Bs. ms_writable (st_meta s) b) \<and>
      (\<forall>b k. key_matches (st_dataDir s) (st_disk s) D (ms_history (st_meta s) b k) (a b k) \<and>
         ms_next (st_meta s) b k = int (length (a b k)) + 1 \<and> length (a b k) + n < 2 ^ 63 - 2))"

fun admissible :: "string set \<Rightarrow> bytes set \<Rightarrow> call \<Rightarrow> bool" where
  "admissible Bs D (PutCall t b k body) =
     (b \<in> Bs \<and> valid_utf8 b \<and> valid_utf8 k \<and> (\<forall>d. ReadAll_limit MaxObjectSize body = Ok d \<longrightarrow> d \<in> D))"
| "admissible Bs D (DeleteCall t b k) = (b \<in> Bs)"
| "admissible Bs D (GetCall b k v) = True"
| "admissible Bs D (HeadCall b k v) = True"
| "admissible Bs D (ListCall b pfx after n) = True"

section \<open>Lemmas\<close>

lemma key_matches_append:
  "key_matches dir dk D vs cs \<Longrightarrow> version_matches dir dk D (length cs) v c \<Longrightarrow> key_matches dir dk D (vs @ [v]) (cs @ [c])"
  by (auto simp: key_matches_def nth_append less_Suc_eq)

lemma key_matches_disk:
  assumes "key_matches dir dk D vs cs"
    and "\<And>d. d \<in> D \<Longrightarrow> blob_at dir (sha_hex d) dk = Some d \<Longrightarrow> blob_at dir (sha_hex d) dk' = Some d"
  shows "key_matches dir dk' D vs cs"
proof -
  have "version_matches dir dk' D i v c" if "version_matches dir dk D i v c" for i v c
  proof (cases "snd c")
    case (Some d)
    with that have "d \<in> D" "blob_at dir (sha_hex d) dk = Some d" by (simp_all add: version_matches_def)
    from assms(2) [OF this] that show ?thesis by (simp add: version_matches_def Some)
  qed (use that in \<open>simp add: version_matches_def\<close>)
  then show ?thesis using assms(1) by (simp add: key_matches_def)
qed

lemma matches_last:
  assumes "key_matches dir dk D vs cs" and "cs \<noteq> []"
  shows "vs \<noteq> []" "version_matches dir dk D (length cs - 1) (last vs) (last cs)"
proof -
  show "vs \<noteq> []" using assms by (auto simp: key_matches_def)
  then show "version_matches dir dk D (length cs - 1) (last vs) (last cs)"
    using assms by (simp add: key_matches_def last_conv_nth)
qed

lemma find_version_upt: "find_version v vs = find (\<lambda>i. om_VersionID (vs ! i) = v) [0..<length vs]"
proof (induction vs)
  case (Cons x vs)
  have find_map: "find P (map f is) = map_option f (find (\<lambda>i. P (f i)) is)" for P and f :: "nat \<Rightarrow> nat" and "is"
    by (induction "is") auto
  have "[0..<length (x # vs)] = 0 # map Suc [0..<length vs]" by (simp add: upt_conv_Cons map_Suc_upt del: upt_Suc)
  then show ?case by (simp add: Cons find_map del: upt_Suc)
qed simp

lemma find_cong_upt:
  assumes "\<And>i. i < n \<Longrightarrow> P i = Q i"
  shows "find P [0..<n] = find Q [0..<n]"
  using assms by (intro find_cong) auto

lemma matches_find:
  assumes "key_matches dir dk D vs cs"
  shows "find_version v vs = find (\<lambda>i. version_name i = v) [0..<length cs]"
  using assms by (auto simp: find_version_upt key_matches_def version_matches_def intro: find_cong_upt)

text \<open>Reading a version answers what the map holds at its position.\<close>

lemma read_version:
  assumes "ms_GetObject b k v (st_meta s) = Ok meta" and "version_matches (st_dataDir s) (st_disk s) D i meta c"
  shows "store_call os_ok (GetCall b k v) s = (version_answer i c, s)"
proof (cases "snd c")
  case None
  then have c: "c = (fst c, None)" by (metis prod.collapse)
  have "om_Sha256 meta = ''''" using assms(2) None by (simp add: version_matches_def)
  then have "st_GetObject os_ok b k v s = Panic ''slice bounds out of range''"
    using assms(1) by (simp add: st_GetObject_def blobPath_eq)
  then show ?thesis by (subst c) simp
next
  case (Some d)
  then have c: "c = (fst c, Some d)" by (metis prod.collapse)
  have "om_Sha256 meta = sha_hex d" "blob_at (st_dataDir s) (sha_hex d) (st_disk s) = Some d"
    "om_ETag meta = sha_hex d" "om_Size meta = size_of d" "om_VersionID meta = version_name i"
    using assms(2) Some by (simp_all add: version_matches_def)
  then show ?thesis
    using st_GetObject_eq [of b k v s meta] assms(1) by (subst c) simp
qed

lemma version_id_nonempty [simp]: "version_name i \<noteq> ''''"
  by (simp add: version_name_def)

text \<open>The version that the metadata finds is the one that the map means.\<close>

lemma chosen_refines:
  assumes "represents Bs D n s a"
  obtains "chosen (a b k) v = None" and "ms_GetObject b k v (st_meta s) = Err ErrNoKey"
  | i c where "chosen (a b k) v = Some (i, c)" and "i < length (ms_history (st_meta s) b k)"
      and "ms_GetObject b k v (st_meta s) = Ok (ms_history (st_meta s) b k ! i)"
      and "version_matches (st_dataDir s) (st_disk s) D i (ms_history (st_meta s) b k ! i) c"
proof (cases "v = ''''")
  case True
  let ?h = "ms_history (st_meta s) b k"
  have wf: "ms_wf (st_meta s)" and match: "key_matches (st_dataDir s) (st_disk s) D ?h (a b k)"
    using assms by (simp_all add: represents_def)
  then have len: "length ?h = length (a b k)" by (simp add: key_matches_def)
  show ?thesis
  proof (cases "a b k = [] \<or> snd (last (a b k)) = None")
    case gone: True
    have "?h = [] \<or> om_IsDeleteMarker (last ?h)"
      using gone len matches_last(2) [OF match] by (cases "a b k = []") (auto simp: version_matches_def)
    then show ?thesis using that(1) gone ms_GetObject_current [OF wf, of b k] by (auto simp: chosen_def True)
  next
    case False
    note last = matches_last [OF match]
    have "\<not> om_IsDeleteMarker (last ?h)" using False last(2) by (auto simp: version_matches_def)
    moreover have "last ?h = ?h ! (length (a b k) - 1)" using last(1) False len by (simp add: last_conv_nth)
    ultimately show ?thesis
      using that(2) [of "length (a b k) - 1" "last (a b k)"] False last len ms_GetObject_current [OF wf, of b k]
      by (simp add: chosen_def True)
  qed
next
  case False
  let ?h = "ms_history (st_meta s) b k"
  have match: "key_matches (st_dataDir s) (st_disk s) D ?h (a b k)" using assms by (simp add: represents_def)
  have get: "ms_GetObject b k v (st_meta s) =
      (case find_version v ?h of None \<Rightarrow> Err ErrNoKey | Some i \<Rightarrow> Ok (?h ! i))"
    using ms_GetObject_version [OF False, of b k "st_meta s"] by (simp flip: find_version_find split: option.split)
  show ?thesis
  proof (cases "find_version v ?h")
    case None
    then show ?thesis using that(1) get False by (simp add: chosen_def matches_find [OF match])
  next
    case (Some i)
    then show ?thesis
      using that(2) [of i "a b k ! i"] get False match find_version_Some [OF Some]
      by (simp add: chosen_def matches_find [OF match, symmetric] key_matches_def)
  qed
qed

lemma get_refines:
  assumes "represents Bs D n s a"
  shows "store_call os_ok (GetCall b k v) s = (fst (spec_call (GetCall b k v) a), s)"
proof (rule chosen_refines [OF assms, of b k v])
  assume "chosen (a b k) v = None" "ms_GetObject b k v (st_meta s) = Err ErrNoKey"
  then show ?thesis by (simp add: st_GetObject_def)
next
  fix i c
  assume c: "chosen (a b k) v = Some (i, c)" and get: "ms_GetObject b k v (st_meta s) = Ok (ms_history (st_meta s) b k ! i)"
    and match: "version_matches (st_dataDir s) (st_disk s) D i (ms_history (st_meta s) b k ! i) c"
  show ?thesis unfolding read_version [OF get match] by (simp add: c)
qed

text \<open>The two lookups of \<^verbatim>\<open>HEAD\<close> are that of \<^verbatim>\<open>GET\<close>.\<close>

lemma head_lookup:
  "(if v \<noteq> '''' then st_GetMetaVersion b k v s else st_GetMeta b k s) = ms_GetObject b k v (st_meta s)"
  using ms_GetObject_version [of v b k "st_meta s"]
  by (simp add: st_GetMeta_def st_GetMetaVersion_def ms_GetObjectVersion_def version_ptr
      flip: find_version_find split: option.split)

lemma head_refines:
  assumes "represents Bs D n s a"
  shows "store_call os_ok (HeadCall b k v) s = (fst (spec_call (HeadCall b k v) a), s)"
proof (rule chosen_refines [OF assms, of b k v])
  fix i c
  assume "chosen (a b k) v = Some (i, c)" "ms_GetObject b k v (st_meta s) = Ok (ms_history (st_meta s) b k ! i)"
    "version_matches (st_dataDir s) (st_disk s) D i (ms_history (st_meta s) b k ! i) c"
  then show ?thesis
    by (cases c; cases "snd c") (auto simp: head_lookup head_of_def version_matches_def simp del: if_not_P if_P)
qed (simp only: store_call.simps spec_call.simps head_lookup; simp)

lemma history_key:
  assumes "ms_wf m" and "v \<in> set (ms_history m b k)"
  shows "om_Key v = k"
proof -
  have "ms_history m b k \<noteq> []" using assms(2) by auto
  then obtain ks vst where ks: "map_of (ms_objects m) b = Some ks" "map_of ks k = Some vst"
    and "ms_history m b k = vs_Versions vst" by (rule ms_historyE)
  moreover have "vs_numbered k vst" using assms(1) ks by (auto dest: ms_wf_lookup keys_wf_lookup vs_wfD)
  ultimately show ?thesis using assms(2) by (simp add: vs_numbered_def)
qed

lemma represents_key:
  assumes "represents Bs D n s a"
  shows "key_matches (st_dataDir s) (st_disk s) D (ms_history (st_meta s) b k) (a b k)"
    and "ms_history (st_meta s) b k = [] \<longleftrightarrow> a b k = []"
proof -
  show match: "key_matches (st_dataDir s) (st_disk s) D (ms_history (st_meta s) b k) (a b k)"
    using assms by (simp add: represents_def)
  then show "ms_history (st_meta s) b k = [] \<longleftrightarrow> a b k = []" by (auto simp: key_matches_def)
qed

text \<open>The current version of a key, and what a listing shows of it.\<close>

lemma represents_current:
  assumes "represents Bs D n s a"
  shows "ms_GetObject b k '''' (st_meta s) = Ok x \<longleftrightarrow>
    a b k \<noteq> [] \<and> snd (last (a b k)) \<noteq> None \<and> x = last (ms_history (st_meta s) b k)"
proof -
  have wf: "ms_wf (st_meta s)" using assms by (simp add: represents_def)
  note key = represents_key [OF assms, of b k]
  have "om_IsDeleteMarker (last (ms_history (st_meta s) b k)) = (snd (last (a b k)) = None)" if "a b k \<noteq> []"
    using matches_last(2) [OF key(1) that] by (simp add: version_matches_def)
  then show ?thesis using key(2) by (auto simp: ms_GetObject_current [OF wf])
qed

lemma current_entry:
  assumes "represents Bs D n s a" and "ms_GetObject b k '''' (st_meta s) = Ok x"
  shows "om_Key x = k" and "entry_of x = visible_entry a b k"
proof -
  have wf: "ms_wf (st_meta s)" using assms(1) by (simp add: represents_def)
  have vis: "a b k \<noteq> []" "snd (last (a b k)) \<noteq> None" "x = last (ms_history (st_meta s) b k)"
    using assms(2) unfolding represents_current [OF assms(1)] by blast+
  show key: "om_Key x = k"
    using history_key [OF wf last_in_set, of b k] represents_key(2) [OF assms(1), of b k] vis(1,3) by simp
  from matches_last(2) [OF represents_key(1) [OF assms(1)] vis(1)] vis(2) show "entry_of x = visible_entry a b k"
    by (auto simp: key vis(3) [symmetric] entry_of_def visible_entry_def version_matches_def split: prod.split)
qed

text \<open>The objects of a page are the visible keys after the token, in order.\<close>

lemma listed_objects:
  fixes pfx after :: string
  assumes "represents Bs D n s a" and "map_of (ms_objects (st_meta s)) b = Some ks"
  defines "objs \<equiv> sort_slice key_less (concat (map (listed pfx after) ks))"
  shows "map om_Key objs = visible_keys a b pfx after"
    and "map entry_of objs = map (visible_entry a b) (visible_keys a b pfx after)"
proof -
  have wf: "ms_wf (st_meta s)" using assms(1) by (simp add: represents_def)
  have strict: "sorted_wrt (<) (map om_Key objs)"
    using items_strict [OF ms_wf_lookup [OF wf assms(2)]] by (simp add: objs_def sorted_wrt_map)
  have objs: "x \<in> set objs \<longleftrightarrow> (\<exists>k. prefix pfx k \<and> after < k \<and> ms_GetObject b k '''' (st_meta s) = Ok x)" for x
    unfolding objs_def by_key.set_sort_slice by (rule items_in [OF wf assms(2)])
  have "k \<in> om_Key ` set objs \<longleftrightarrow> prefix pfx k \<and> after < k \<and> (\<exists>x. ms_GetObject b k '''' (st_meta s) = Ok x)" for k
    unfolding image_iff Bex_def objs using current_entry(1) [OF assms(1)] by blast
  then have "om_Key ` set objs = {k. prefix pfx k \<and> after < k \<and> a b k \<noteq> [] \<and> snd (last (a b k)) \<noteq> None}"
    unfolding represents_current [OF assms(1)] by blast
  then have "visible_keys a b pfx after = sorted_list_of_set (set (map om_Key objs))"
    by (simp only: visible_keys_def set_map)
  also have "\<dots> = map om_Key objs"
    using strict by (intro sorted_list_of_set.idem_if_sorted_distinct) (simp_all add: strict_sorted_iff)
  finally show keys: "map om_Key objs = visible_keys a b pfx after" by (rule sym)
  have "entry_of x = visible_entry a b (om_Key x)" if "x \<in> set objs" for x
    using that current_entry [OF assms(1)] unfolding objs by metis
  then show "map entry_of objs = map (visible_entry a b) (visible_keys a b pfx after)"
    unfolding keys [symmetric] by simp
qed

lemma list_refines:
  assumes "represents Bs D n s a"
  shows "store_call os_ok (ListCall b pfx after m) s = (fst (spec_call (ListCall b pfx after m) a), s)"
proof (cases "map_of (ms_objects (st_meta s)) b")
  case None
  have "a b k = []" for k using represents_key(2) [OF assms, of b k] by (simp add: ms_history_def None)
  then show ?thesis
    by (simp add: st_ListObjectsPaged_def ms_ListObjectsPaged_def None visible_keys_def)
next
  case (Some ks)
  define objs where "objs = sort_slice key_less (concat (map (listed pfx after) ks))"
  let ?ks = "visible_keys a b pfx after"
  have keys: "?ks = map om_Key objs" and all: "map (visible_entry a b) ?ks = map entry_of objs"
    using listed_objects [OF assms Some, of pfx after] by (simp_all add: objs_def)
  have entries: "map (visible_entry a b) (take j ?ks) = map entry_of (take j objs)" for j
    using arg_cong [OF all, of "take j"] by (simp add: take_map)
  have token: "last (take j ?ks) = om_Key (last (take j objs))" if "0 < j" "j < length objs" for j
    unfolding keys take_map using that by (intro last_map) auto
  have len: "length ?ks = length objs" by (simp add: keys)
  show ?thesis
    by (auto simp: st_ListObjectsPaged_def ms_ListObjectsPaged_def Some Let_def objs_def [symmetric] len token entries all)
qed

lemma represents_room:
  assumes "represents Bs D (Suc n) s a"
  shows "length (a b k) + n < 2 ^ 63 - 2"
proof -
  have "length (a b k) + Suc n < 2 ^ 63 - 2" using assms unfolding represents_def by blast
  then show ?thesis by simp
qed

text \<open>A new version of one key keeps the map in step.\<close>

lemma represents_append:
  assumes "represents Bs D (Suc n) s a" and "st_dataDir s' = st_dataDir s" and "st_raft s' = st_raft s"
    and "ms_wf (st_meta s')" and "\<And>b'. ms_writable (st_meta s') b' = ms_writable (st_meta s) b'"
    and "\<And>b' k'. ms_next (st_meta s') b' k' = ms_next (st_meta s) b' k' + (if b' = b \<and> k' = k then 1 else 0)"
    and "\<And>b' k'. ms_history (st_meta s') b' k' =
      (if b' = b \<and> k' = k then ms_history (st_meta s) b k @ [v] else ms_history (st_meta s) b' k')"
    and "version_matches (st_dataDir s) (st_disk s') D (length (a b k)) v c"
    and "\<And>d. d \<in> D \<Longrightarrow> blob_at (st_dataDir s) (sha_hex d) (st_disk s) = Some d \<Longrightarrow>
      blob_at (st_dataDir s) (sha_hex d) (st_disk s') = Some d"
  shows "represents Bs D n s' (a(b := (a b)(k := a b k @ [c])))"
proof -
  have old: "key_matches (st_dataDir s) (st_disk s') D (ms_history (st_meta s) b' k') (a b' k')" for b' k'
  proof (rule key_matches_disk)
    show "key_matches (st_dataDir s) (st_disk s) D (ms_history (st_meta s) b' k') (a b' k')"
      using assms(1) by (simp add: represents_def)
  qed (rule assms(9))
  moreover have "accepts s'" using assms(1,3) by (simp add: represents_def accepts_def)
  ultimately show ?thesis
    using assms key_matches_append [OF old assms(8)] represents_room [OF assms(1)] by (auto simp: represents_def)
qed

lemma represents_weaken: "represents Bs D (Suc n) s a \<Longrightarrow> represents Bs D n s a"
  using represents_room unfolding represents_def by blast

lemma put_refines:
  assumes rep: "represents Bs D (Suc n) s a" and adm: "admissible Bs D (PutCall t b k body)"
  shows "fst (store_call os_ok (PutCall t b k body) s) = fst (spec_call (PutCall t b k body) a) \<and>
    represents Bs D n (snd (store_call os_ok (PutCall t b k body) s)) (snd (spec_call (PutCall t b k body) a))"
proof (cases "ReadAll_limit MaxObjectSize body")
  case (Ok d)
  have D: "d \<in> D" "inj_on sha_hex D" using rep adm Ok by (simp_all add: represents_def)
  have rep': "ms_wf (st_meta s)" "ms_writable (st_meta s) b" "accepts s"
    "ms_next (st_meta s) b k = int (length (a b k)) + 1" "length (a b k) + Suc n < 2 ^ 63 - 2"
    using rep adm by (simp_all add: represents_def)
  obtain dk where dk: "PutObject_write os_ok body s = (Ok d, s\<lparr>st_disk := dk\<rparr>)"
    "\<And>n. blob_at (st_dataDir s) n dk = (if n = sha_hex d then Some d else blob_at (st_dataDir s) n (st_disk s))"
    using write_ok [OF Ok] by blast
  let ?s1 = "s\<lparr>st_disk := dk\<rparr>"
  have pre: "ms_wf (st_meta ?s1)" "ms_writable (st_meta ?s1) b" "ms_room (st_meta ?s1) b k" "accepts ?s1"
    using rep' by (simp_all add: ms_room_def accepts_def)
  obtain m' meta where reg: "PutObject_register t b k d ?s1 = (Ok (), ?s1\<lparr>st_meta := m'\<rparr>)" "ms_wf m'"
    "\<And>b'. ms_writable m' b' = ms_writable (st_meta s) b'"
    "\<And>b' k'. ms_next m' b' k' = ms_next (st_meta s) b' k' + (if b' = b \<and> k' = k then 1 else 0)"
    and meta: "meta = (new_meta t k (word_of_int (int (length d))) (sha_hex d))
      \<lparr>om_VersionID := FormatInt (ms_next (st_meta s) b k)\<rparr>"
    and hist: "\<And>b' k'. ms_history m' b' k' =
      (if b' = b \<and> k' = k then ms_history (st_meta s) b k @ [meta] else ms_history (st_meta s) b' k')"
    by (rule register_step [OF pre, of t d]) (use adm in simp_all)
  let ?s2 = "?s1\<lparr>st_meta := m'\<rparr>"
  have vid: "om_VersionID meta = version_name (length (a b k))"
    by (simp add: meta rep'(4) version_name_def)
  have "ms_GetObject b k '''' m' = Ok meta" using ms_GetObject_current [OF reg(2), of b k] by (simp add: hist meta)
  then have "st_PutObject os_ok t b k body s = (Ok (sha_hex d, version_name (length (a b k))), ?s2)"
    using vid by (simp add: PutObject_steps dk(1) reg(1) PutObject_version_def sha_hex_def)
  moreover have "represents Bs D n ?s2 (a(b := (a b)(k := a b k @ [(t, Some d)])))"
  proof (rule represents_append [OF rep])
    show "version_matches (st_dataDir s) (st_disk ?s2) D (length (a b k)) meta (t, Some d)"
      using D(1) vid dk(2) by (simp add: version_matches_def) (simp add: meta size_of_def)
    show "blob_at (st_dataDir s) (sha_hex e) (st_disk ?s2) = Some e"
      if "e \<in> D" "blob_at (st_dataDir s) (sha_hex e) (st_disk s) = Some e" for e
      using that D inj_onD [OF D(2), of e d] dk(2) by auto
  qed (use reg hist in simp_all)
  ultimately show ?thesis using Ok by simp
next
  case (Err e)
  then show ?thesis using represents_weaken [OF rep] by (simp add: st_PutObject_def)
next
  case (Panic p)
  then show ?thesis using represents_weaken [OF rep] by (simp add: st_PutObject_def)
qed

lemma delete_refines:
  assumes rep: "represents Bs D (Suc n) s a" and adm: "admissible Bs D (DeleteCall t b k)"
  shows "fst (store_call os_ok (DeleteCall t b k) s) = fst (spec_call (DeleteCall t b k) a) \<and>
    represents Bs D n (snd (store_call os_ok (DeleteCall t b k) s)) (snd (spec_call (DeleteCall t b k) a))"
proof -
  have rep': "ms_wf (st_meta s)" "ms_writable (st_meta s) b" "length (ms_history (st_meta s) b k) = length (a b k)"
    "ms_next (st_meta s) b k = int (length (a b k)) + 1" "length (a b k) + Suc n < 2 ^ 63 - 2"
    using rep adm by (simp_all add: represents_def key_matches_def)
  show ?thesis
  proof (cases "a b k = []")
    case True
    then have "ms_DeleteObject t b k '''' (st_meta s) = (Err ErrNoKey, st_meta s)"
      using rep'(1-3) by (auto simp: ms_DeleteObject_def ms_writable_def ms_history_def key_history_def
          dest!: ms_wf_lookup keys_wf_lookup split: option.splits) (auto simp: vs_wf_def)
    then show ?thesis using True represents_weaken [OF rep] by (simp add: st_DeleteObject_def on_meta_def)
  next
    case False
    then have "ms_room (st_meta s) b k" "ms_history (st_meta s) b k \<noteq> []" using rep' by (auto simp: ms_room_def)
    from mark_step [OF rep'(1,2) this, of t] obtain m' where
      del: "ms_DeleteObject t b k '''' (st_meta s) = (Ok (version_name (length (a b k))), m')" and
      m': "ms_wf m'" "\<And>b'. ms_writable m' b' = ms_writable (st_meta s) b'"
        "\<And>b' k'. ms_next m' b' k' = ms_next (st_meta s) b' k' + (if b' = b \<and> k' = k then 1 else 0)"
        "\<And>b' k'. ms_history m' b' k' =
          (if b' = b \<and> k' = k then ms_history (st_meta s) b k @ [(delete_marker k t)\<lparr>om_VersionID := version_name (length (a b k))\<rparr>]
           else ms_history (st_meta s) b' k')"
      unfolding rep'(4) version_name_def by metis
    have "represents Bs D n (s\<lparr>st_meta := m'\<rparr>) (a(b := (a b)(k := a b k @ [(t, None)])))"
    proof (rule represents_append [OF rep])
      show "version_matches (st_dataDir s) (st_disk (s\<lparr>st_meta := m'\<rparr>)) D (length (a b k))
          ((delete_marker k t)\<lparr>om_VersionID := version_name (length (a b k))\<rparr>) (t, None)"
        by (simp add: version_matches_def delete_marker_def zero_meta_def)
    qed (use m' in simp_all)
    then show ?thesis using False del by (simp add: st_DeleteObject_def on_meta_def)
  qed
qed

interpretation engine: call_refinement "store_call os_ok" spec_call "represents Bs D" "admissible Bs D"
  for Bs D
proof (unfold_locales, goal_cases)
  case (1 n s a c)
  then show ?case
  proof (cases c)
    case (PutCall t b k body)
    with 1 put_refines show ?thesis by blast
  next
    case (GetCall b k v)
    with get_refines [OF 1(1), of b k v] represents_weaken [OF 1(1)] show ?thesis by simp
  next
    case (HeadCall b k v)
    with head_refines [OF 1(1), of b k v] represents_weaken [OF 1(1)] show ?thesis by simp
  next
    case (DeleteCall t b k)
    with 1 delete_refines show ?thesis by blast
  next
    case (ListCall b pfx after m)
    with list_refines [OF 1(1), of b pfx after m] represents_weaken [OF 1(1)] show ?thesis by simp
  qed
qed

section \<open>Properties\<close>

text \<open>What a sequence of calls writes.\<close>

definition written :: "call list \<Rightarrow> bytes set" where
  "written cs = {d. \<exists>t b k body. PutCall t b k body \<in> set cs \<and> ReadAll_limit MaxObjectSize body = Ok d}"

text \<open>C4. The engine keeps its promise: on a store without objects that stands alone or leads and commits,
  any sequence of writes, reads, heads, deletes and listings of its buckets gives, call by call, exactly the
  answers of the map from keys to their versions: contents, digests, sizes, times, version names and
  pages. The contents written must not collide in their digests.\<close>

theorem store_refines_promise:
  assumes "ms_wf (st_meta s)" and "accepts s" and "\<forall>b \<in> Bs. ms_writable (st_meta s) b"
    and "\<forall>b k. ms_history (st_meta s) b k = [] \<and> ms_next (st_meta s) b k = 1"
    and "\<forall>c \<in> set cs. admissible Bs UNIV c" and "inj_on sha_hex (written cs)" and "length cs < 2 ^ 63 - 2"
  shows "fst (run_calls (store_call os_ok) cs s) = fst (run_calls spec_call cs (\<lambda>_ _. []))"
proof -
  have "represents Bs (written cs) (length cs) s (\<lambda>_ _. [])"
    using assms by (simp add: represents_def key_matches_def)
  moreover have "admissible Bs (written cs) c" if "c \<in> set cs" for c
  proof (cases c)
    case (PutCall t b k body)
    then show ?thesis using assms(5) that by (fastforce simp: written_def)
  qed (use assms(5) that in fastforce)+
  ultimately show ?thesis using engine.runs_agree by blast
qed

definition demo_calls :: "call list" where
  "demo_calls =
     [PutCall 9 ''b'' ''k'' \<lparr>rd_data = ''hello'', rd_err = None\<rparr>, GetCall ''b'' ''k'' '''', ListCall ''b'' '''' '''' 10,
      DeleteCall 10 ''b'' ''k'', GetCall ''b'' ''k'' '''', GetCall ''b'' ''k'' ''1'', HeadCall ''b'' ''k'' ''2'', ListCall ''b'' '''' '''' 10]"

lemma demo_visible: "visible_keys (a(''b'' := (a ''b'')(''k'' := xs))) ''b'' '''' '''' =
    (if xs \<noteq> [] \<and> snd (last xs) \<noteq> None then [''k''] else [])" if "a = (\<lambda>_ _. [])"
proof -
  have "{k. prefix '''' k \<and> '''' < k \<and> (a(''b'' := (a ''b'')(''k'' := xs))) ''b'' k \<noteq> [] \<and>
      snd (last ((a(''b'' := (a ''b'')(''k'' := xs))) ''b'' k)) \<noteq> None} = (if xs \<noteq> [] \<and> snd (last xs) \<noteq> None then {''k''} else {})"
    by (auto simp: that split: if_splits)
  then show ?thesis by (simp add: visible_keys_def)
qed

theorem store_refines_promise_witness:
  "fst (run_calls (store_call os_ok) demo_calls demo_store) =
     [Stored (sha_hex ''hello'') ''1'', Contents ''hello'' (sha_hex ''hello'') 5 ''1'', Page [(''k'', 9, sha_hex ''hello'', 5)] '''',
      Deleted ''2'', Failed ErrNoKey, Contents ''hello'' (sha_hex ''hello'') 5 ''1'', Marked ''2'', Page [] '''']"
proof -
  have body: "ReadAll_limit MaxObjectSize \<lparr>rd_data = ''hello'', rd_err = None\<rparr> = Ok ''hello''"
    by (simp add: ReadAll_limit_def MaxObjectSize_def)
  have "written demo_calls = {''hello''}" by (auto simp: written_def demo_calls_def body)
  moreover have "ms_history (st_meta demo_store) b k = [] \<and> ms_next (st_meta demo_store) b k = 1" for b k
    by (simp add: demo_store_def demo_meta_def ms_history_def key_history_def ms_next_def key_next_def)
  moreover have "\<forall>c \<in> set demo_calls. admissible {''b''} UNIV c" by (simp add: demo_calls_def)
  moreover have "length demo_calls < 2 ^ 63 - 2" by (simp add: demo_calls_def)
  ultimately have "fst (run_calls (store_call os_ok) demo_calls demo_store) =
      fst (run_calls spec_call demo_calls (\<lambda>_ _. []))"
    using store_refines_promise [OF demo_store_facts(1,4), of "{''b''}" demo_calls] demo_store_facts(2) by simp
  also have "version_name 0 = ''1''" "version_name (Suc 0) = ''2''" by code_simp+
  then have "fst (run_calls spec_call demo_calls (\<lambda>_ _. [])) =
      [Stored (sha_hex ''hello'') ''1'', Contents ''hello'' (sha_hex ''hello'') 5 ''1'', Page [(''k'', 9, sha_hex ''hello'', 5)] '''',
       Deleted ''2'', Failed ErrNoKey, Contents ''hello'' (sha_hex ''hello'') 5 ''1'', Marked ''2'', Page [] '''']"
    by (simp add: demo_calls_def body chosen_def demo_visible [OF refl, simplified] visible_entry_def size_of_def)
  finally show ?thesis .
qed

end
