(* ===== verification/Promise.thy ===== *)
theory Promise
  imports Refinement Service
begin

text \<open>
  The promise over HTTP: which request asks for which call of the engine, the documented response to it,
  the cases in which the server departs from the documents, and the simulation that makes a sequence of
  requests, signed or not, be answered from the map of keys to versions.
\<close>

section \<open>Requests as calls\<close>

definition request_call :: "'db env \<Rightarrow> request \<Rightarrow> call option" where
  "request_call V r =
     (let q = url_Query (rq_URL r); m = rq_Method r
      in case cut (CHR ''/'') (TrimPrefix (u_Path (rq_URL r)) ''/'') of
        (b, None) \<Rightarrow>
          if b \<noteq> '''' \<and> m = ''GET'' \<and> \<not> values_Has q ''uploads'' \<and> \<not> values_Has q ''versions'' then
            Some (ListCall b (query r ''prefix'')
              (if query r ''continuation-token'' \<noteq> '''' then query r ''continuation-token'' else query r ''start-after'')
              (page_size (query r ''max-keys'')))
          else None
      | (b, Some k) \<Rightarrow>
          if values_Has q ''uploadId'' then None
          else if m = ''PUT'' then Some (PutCall (ev_now V) b k (rq_Body r))
          else if m = ''GET'' then Some (GetCall b k (query r ''versionId''))
          else if m = ''HEAD'' then Some (HeadCall b k (query r ''versionId''))
          else if m = ''DELETE'' \<and> query r ''versionId'' = '''' then Some (DeleteCall (ev_now V) b k)
          else None)"

section \<open>Answers as responses\<close>

text \<open>The fields of an object that a listing shows.\<close>

fun entry_meta :: "entry \<Rightarrow> ObjectMeta" where
  "entry_meta (k, t, etag, sz) = zero_meta\<lparr>om_Key := k, om_CreatedAt := t, om_ETag := etag, om_Size := sz\<rparr>"

fun page_document :: "call \<Rightarrow> entry list \<Rightarrow> string \<Rightarrow> xml" where
  "page_document (ListCall b pfx after n) es token = listBucketResult b pfx n (map entry_meta es) token"
| "page_document c es token = XText ''''"

fun http_answer :: "call \<Rightarrow> answer \<Rightarrow> response outcome" where
  "http_answer c (Stored etag vid) =
     Ok \<lparr>rs_Status = 200, rs_Header = (''ETag'', quoted etag) # version_header vid, rs_Body = BNone\<rparr>"
| "http_answer c (Contents data etag sz vid) =
     Ok \<lparr>rs_Status = 200,
         rs_Header = (''ETag'', quoted etag) # (''Content-Length'', FormatInt (sint sz)) # version_header vid,
         rs_Body = BBytes data\<rparr>"
| "http_answer c (Described etag sz vid) =
     Ok \<lparr>rs_Status = 200,
         rs_Header = (''ETag'', quoted etag) # (''Content-Length'', FormatInt (sint sz)) # version_header vid,
         rs_Body = BNone\<rparr>"
| "http_answer c (Marked vid) =
     Ok \<lparr>rs_Status = 404, rs_Header = (''X-Amz-Delete-Marker'', ''true'') # version_header vid, rs_Body = BNone\<rparr>"
| "http_answer c (Deleted vid) = Ok (status_only 204)"
| "http_answer c (Page es token) = Ok (writeXML (page_document c es token))"
| "http_answer (HeadCall b k v) (Failed e) = Ok (status_only 404)"
| "http_answer c (Failed e) = Ok (storeError e)"
| "http_answer c (Crashed p) = Panic p"

section \<open>The documented responses, and the departures\<close>

text \<open>What a read asks for, markers included: the newest version, or the one of the given name.\<close>

definition looked :: "version list \<Rightarrow> string \<Rightarrow> (nat \<times> version) option" where
  "looked vs v =
     (if v = '''' then (if vs = [] then None else Some (length vs - 1, last vs))
      else map_option (\<lambda>i. (i, vs ! i)) (find (\<lambda>i. version_name i = v) [0..<length vs]))"

text \<open>What the README, the tests of the API and the comments of the handlers promise: a read of a marker, the
  newest version or one asked for by its name, is answered with 404 and \<^verbatim>\<open>X-Amz-Delete-Marker: true\<close>, and a
  \<^verbatim>\<open>DELETE\<close> always with 204 (the README wants the headers of versions and markers on responses where they apply, and
  does not say that a \<^verbatim>\<open>DELETE\<close> is one of them; the handler sends none). Writes and pages are answered from the map,
  where a body over the limit of 5 GiB counts as its first 5 GiB.\<close>

fun promised :: "call \<Rightarrow> s3 \<Rightarrow> response outcome" where
  "promised (GetCall b k v) a =
     Ok (case looked (a b k) v of
           None \<Rightarrow> storeError ErrNoKey
         | Some (i, t, Some d) \<Rightarrow>
             \<lparr>rs_Status = 200,
              rs_Header = (''ETag'', quoted (sha_hex d)) # (''Content-Length'', FormatInt (sint (size_of d))) #
                version_header (version_name i),
              rs_Body = BBytes d\<rparr>
         | Some (i, t, None) \<Rightarrow>
             \<lparr>rs_Status = 404, rs_Header = (''X-Amz-Delete-Marker'', ''true'') # version_header (version_name i), rs_Body = BNone\<rparr>)"
| "promised (HeadCall b k v) a =
     Ok (case looked (a b k) v of
           None \<Rightarrow> status_only 404
         | Some (i, t, Some d) \<Rightarrow>
             \<lparr>rs_Status = 200,
              rs_Header = (''ETag'', quoted (sha_hex d)) # (''Content-Length'', FormatInt (sint (size_of d))) #
                version_header (version_name i),
              rs_Body = BNone\<rparr>
         | Some (i, t, None) \<Rightarrow>
             \<lparr>rs_Status = 404, rs_Header = (''X-Amz-Delete-Marker'', ''true'') # version_header (version_name i), rs_Body = BNone\<rparr>)"
| "promised (DeleteCall t b k) a = Ok (status_only 204)"
| "promised c a = http_answer c (fst (spec_call c a))"

text \<open>Where the server departs from that, and what it answers instead: a marker that is the newest version reads
  as if the key had no versions, so the header is missing; \<^verbatim>\<open>GET\<close> of a marker by its name panics; and \<^verbatim>\<open>DELETE\<close>
  of a key without versions is refused.\<close>

definition marker_at :: "version list \<Rightarrow> string \<Rightarrow> bool" where
  "marker_at vs v = (case looked vs v of None \<Rightarrow> False | Some (i, t, c) \<Rightarrow> c = None)"

fun departure :: "call \<Rightarrow> s3 \<Rightarrow> response outcome option" where
  "departure (GetCall b k v) a =
     (if \<not> marker_at (a b k) v then None
      else Some (if v = '''' then Ok (storeError ErrNoKey) else Panic ''slice bounds out of range''))"
| "departure (HeadCall b k v) a =
     (if marker_at (a b k) v \<and> v = '''' then Some (Ok (status_only 404)) else None)"
| "departure (DeleteCall t b k) a = (if a b k = [] then Some (Ok (storeError ErrNoKey)) else None)"
| "departure c a = None"

text \<open>The response to a request: a wrong signature is refused, and what is asked for is answered as documented,
  unless it is one of the departures.\<close>

fun http_spec :: "Handler \<Rightarrow> 'db env \<times> request \<Rightarrow> s3 \<Rightarrow> response outcome \<times> s3" where
  "http_spec h (V, r) a =
     (case verifySigV4 (hd_accessKey h) (hd_secretKey h) r of
        (False, _) \<Rightarrow> (Ok (s3Error ''AccessDenied'' ''access denied''), a)
      | (True, r') \<Rightarrow>
          (case request_call V r' of
             None \<Rightarrow> (Ok (status_only 405), a)
           | Some c \<Rightarrow>
               (case departure c a of None \<Rightarrow> promised c a | Some x \<Rightarrow> x,
                snd (spec_call c a))))"

fun http_step :: "Handler \<Rightarrow> 'db env \<times> request \<Rightarrow> 'db Store \<Rightarrow> response outcome \<times> 'db Store" where
  "http_step h (V, r) s = ServeHTTP V h r s"

text \<open>The requests the promise covers: for objects and pages of the buckets, on an operating system
  without faults; unsigned ones may ask for anything.\<close>

fun lists_in :: "string set \<Rightarrow> call \<Rightarrow> bool" where
  "lists_in Bs (ListCall b pfx after n) = (b \<in> Bs)"
| "lists_in Bs c = True"

fun covered :: "Handler \<Rightarrow> 'db bolt \<Rightarrow> string set \<Rightarrow> bytes set \<Rightarrow> 'db env \<times> request \<Rightarrow> bool" where
  "covered h B Bs D (V, r) =
     (ev_os V = os_ok \<and> ev_bolt V = B \<and> \<not> HasPrefix (u_Path (rq_URL r)) ''/internal/'' \<and>
      (\<forall>r'. verifySigV4 (hd_accessKey h) (hd_secretKey h) r = (True, r') \<longrightarrow>
         (\<exists>c. request_call V r' = Some c \<and> admissible Bs D c \<and> lists_in Bs c)))"

definition represents_http :: "'db bolt \<Rightarrow> string set \<Rightarrow> bytes set \<Rightarrow> nat \<Rightarrow> 'db Store \<Rightarrow> s3 \<Rightarrow> bool" where
  "represents_http B Bs D n s a =
     (represents Bs D n s a \<and> (\<forall>b \<in> Bs. \<exists>x. BucketDB_Get B b (ms_buckets (st_meta s)) = Ok x))"

section \<open>Lemmas\<close>

text \<open>The answers of the engine, as responses, are the documented ones but for the departures, each of which
  is one.\<close>

lemma chosen_looked: "chosen vs v = (if v = '''' \<and> marker_at vs v then None else looked vs v)"
  by (auto simp: chosen_def looked_def marker_at_def split: prod.split)

lemma answer_promised: "http_answer c (fst (spec_call c a)) = (case departure c a of None \<Rightarrow> promised c a | Some x \<Rightarrow> x)"
proof (cases c)
  case (GetCall b k v)
  show ?thesis
    by (cases "looked (a b k) v") (auto simp: GetCall chosen_looked marker_at_def split: prod.split option.split)
next
  case (HeadCall b k v)
  show ?thesis
    by (cases "looked (a b k) v") (auto simp: HeadCall chosen_looked marker_at_def split: prod.split option.split)
qed simp_all

lemma departure_differs: "departure c a = Some x \<Longrightarrow> x \<noteq> promised c a"
proof (cases c)
  case (GetCall b k v)
  then show "departure c a = Some x \<Longrightarrow> x \<noteq> promised c a"
    by (auto simp: marker_at_def storeError_def s3Error_def Let_def split: if_splits option.splits prod.splits)
next
  case (HeadCall b k v)
  then show "departure c a = Some x \<Longrightarrow> x \<noteq> promised c a"
    by (auto simp: marker_at_def status_only_def split: if_splits option.splits prod.splits)
next
  case (DeleteCall t b k)
  then show "departure c a = Some x \<Longrightarrow> x \<noteq> promised c a"
    by (auto simp: status_only_def storeError_def s3Error_def Let_def split: if_splits)
qed simp_all

text \<open>Calls on objects leave the database of buckets alone.\<close>

lemma ApplyOp_buckets: "ms_buckets (snd (ApplyOp t op m)) = ms_buckets m"
  by (simp add: ApplyOp_def ms_PutObject_def ms_DeleteObject_def set_keys_def Let_def
      split: option.split sum.split prod.split)

lemma RaftNode_Apply_buckets: "ms_buckets (snd (RaftNode_Apply t n op m)) = ms_buckets m"
proof -
  have "ms_buckets (snd (fsm_Apply t data m)) = ms_buckets m" for data
    by (simp add: fsm_Apply_def ApplyOp_buckets split: sum.split)
  then have "fsm_Apply t data m = (x, m') \<Longrightarrow> ms_buckets m' = ms_buckets m" for data x m'
    by (metis snd_conv)
  then show ?thesis by (auto simp: RaftNode_Apply_def Let_def split: option.split prod.split outcome.split)
qed

lemma raftApply_buckets:
  assumes "raftApply t op s = (x, s')"
  shows "ms_buckets (st_meta s') = ms_buckets (st_meta s)"
proof -
  have "ms_buckets (st_meta (snd (raftApply t op s))) = ms_buckets (st_meta s)"
    by (simp add: raftApply_def on_meta_def case_prod_beta ApplyOp_buckets RaftNode_Apply_buckets split: option.split)
  then show ?thesis using assms by simp
qed

lemma snd_answered [simp]: "snd (answered f p) = snd p"
  by (cases p; cases "fst p") auto

lemma store_call_buckets: "ms_buckets (st_meta (snd (store_call E c s))) = ms_buckets (st_meta s)"
proof (cases c)
  case (PutCall t b k body)
  then show ?thesis
    by (auto simp: st_PutObject_def Let_def dest: raftApply_buckets split: outcome.split prod.split)
next
  case (DeleteCall t b k)
  then show ?thesis
    by (simp add: st_DeleteObject_def on_meta_def ms_DeleteObject_def set_keys_def split: option.split prod.split)
qed (simp_all split: prod.split)

lemma objectEntry_meta: "objectEntry (entry_meta (entry_of m)) = objectEntry m"
  by (simp add: objectEntry_def entry_of_def)

lemma page_entries: "listBucketResult b pfx n (map (entry_meta \<circ> entry_of) objs) token = listBucketResult b pfx n objs token"
  by (simp add: listBucketResult_def comp_def objectEntry_meta)

text \<open>In a state that represents a map, what can be read is not a marker.\<close>

lemma got_not_marker:
  assumes "represents Bs D n s a" and "st_GetObject os_ok b k v s = Ok (data, meta)"
  shows "\<not> om_IsDeleteMarker meta"
proof
  assume marker: "om_IsDeleteMarker meta"
  have get: "ms_GetObject b k v (st_meta s) = Ok meta" using st_GetObject_OkD(1) [OF assms(2)] .
  have "meta \<in> set (ms_history (st_meta s) b k)"
    using get by (auto simp: ms_GetObject_def ms_history_def key_history_def dest: find_version_Some
        split: option.splits if_splits)
  then obtain i where i: "i < length (ms_history (st_meta s) b k)" "meta = ms_history (st_meta s) b k ! i"
    by (auto simp: in_set_conv_nth)
  have "key_matches (st_dataDir s) (st_disk s) D (ms_history (st_meta s) b k) (a b k)"
    using assms(1) by (simp add: represents_def)
  then have "version_matches (st_dataDir s) (st_disk s) D i meta (a b k ! i)"
    using i by (simp add: key_matches_def)
  then have "om_Sha256 meta = ''''" using marker by (auto simp: version_matches_def)
  then show False using assms(2) get by (simp add: st_GetObject_def blobPath_eq)
qed

lemma respond_answered:
  assumes "\<And>x. fst p = Ok x \<Longrightarrow> http_answer c (f x) = Ok (g x)"
    and "\<And>e. http_answer c (Failed e) = Ok (storeError e)"
  shows "respond g p = (http_answer c (fst (answered f p)), snd p)"
  using assms by (cases p; cases "fst p") auto

text \<open>A request for a call is answered as the call is: a page of a bucket, and the calls on an object.\<close>

lemma page_answered:
  assumes call: "request_call V r = Some c" and cut: "cut (CHR ''/'') (TrimPrefix (u_Path (rq_URL r)) ''/'') = (b, None)"
    and known: "\<And>b pfx after m. c = ListCall b pfx after m \<Longrightarrow> \<exists>x. st_GetBucket (ev_bolt V) b s = Ok x"
  shows "route V r s = (http_answer c (fst (store_call os_ok c s)), snd (store_call os_ok c s))"
proof -
  have page: "b \<noteq> ''''" "rq_Method r = ''GET''" "\<not> values_Has (url_Query (rq_URL r)) ''uploads''"
      "\<not> values_Has (url_Query (rq_URL r)) ''versions''"
    and c: "c = ListCall b (query r ''prefix'')
      (if query r ''continuation-token'' \<noteq> '''' then query r ''continuation-token'' else query r ''start-after'')
      (page_size (query r ''max-keys''))"
    using call by (auto simp: request_call_def Let_def cut split: if_splits)
  obtain x where x: "st_GetBucket (ev_bolt V) b s = Ok x" using known [OF c] by blast
  have "TrimPrefix (u_Path (rq_URL r)) ''/'' \<noteq> ''''" using cut page(1) by auto
  then have "route V r s = listObjectsV2 V r b s"
    using page by (simp add: route_def Let_def cut handleBucket_def)
  then show ?thesis
    unfolding c by (simp add: listObjectsV2_def x Let_def page_entries split: prod.split)
qed

lemma object_answered:
  assumes rep: "represents Bs D n s a" and call: "request_call V r = Some c" and os: "ev_os V = os_ok"
    and cut: "cut (CHR ''/'') (TrimPrefix (u_Path (rq_URL r)) ''/'') = (b, Some k)"
  shows "route V r s = (http_answer c (fst (store_call os_ok c s)), snd (store_call os_ok c s))"
proof -
  have id: "\<not> values_Has (url_Query (rq_URL r)) ''uploadId''"
    using call by (auto simp: request_call_def Let_def cut split: if_splits)
  have "TrimPrefix (u_Path (rq_URL r)) ''/'' \<noteq> ''''" using cut by auto
  then have object: "route V r s = handleObject V r b k s" by (simp add: route_def Let_def cut)
  consider "rq_Method r = ''PUT''" "c = PutCall (ev_now V) b k (rq_Body r)"
    | "rq_Method r = ''GET''" "c = GetCall b k (query r ''versionId'')"
    | "rq_Method r = ''HEAD''" "c = HeadCall b k (query r ''versionId'')"
    | "rq_Method r = ''DELETE''" "query r ''versionId'' = ''''" "c = DeleteCall (ev_now V) b k"
    using call by (auto simp: request_call_def Let_def cut split: if_splits)
  then show ?thesis
  proof cases
    case 1
    then have "route V r s = putObject V r b k s" using id by (simp add: object handleObject_def)
    moreover have "putObject V r b k s = (http_answer c (fst (store_call os_ok c s)), snd (store_call os_ok c s))"
      unfolding 1(2) putObject_def os store_call.simps snd_answered by (rule respond_answered) auto
    ultimately show ?thesis by (rule trans)
  next
    case 2
    then have "route V r s = getObject V r b k s" using id by (simp add: object handleObject_def)
    moreover have "getObject V r b k s = (http_answer c (fst (store_call os_ok c s)), snd (store_call os_ok c s))"
      unfolding 2(2) getObject_def os store_call.simps snd_answered
      by (rule respond_answered) (auto simp: object_headers_def dest: got_not_marker [OF rep])
    ultimately show ?thesis by (rule trans)
  next
    case 3
    then have "route V r s = headObject r b k s" using id by (simp add: object handleObject_def)
    then show ?thesis unfolding 3(2) by (simp add: headObject_def Let_def head_of_def marker_response_def object_headers_def
        split: outcome.split)
  next
    case 4
    then have "route V r s = deleteObject V r b k s" using id by (simp add: object handleObject_def)
    moreover have "deleteObject V r b k s = (http_answer c (fst (store_call os_ok c s)), snd (store_call os_ok c s))"
      unfolding 4(2,3) deleteObject_def os store_call.simps snd_answered by (rule respond_answered) simp_all
    ultimately show ?thesis by (rule trans)
  qed
qed

lemma request_answered:
  assumes "represents Bs D n s a" and "request_call V r = Some c" and "ev_os V = os_ok"
    and "\<And>b pfx after m. c = ListCall b pfx after m \<Longrightarrow> \<exists>x. st_GetBucket (ev_bolt V) b s = Ok x"
  shows "route V r s = (http_answer c (fst (store_call os_ok c s)), snd (store_call os_ok c s))"
proof (cases "cut (CHR ''/'') (TrimPrefix (u_Path (rq_URL r)) ''/'')")
  case (Pair b ko)
  show ?thesis
  proof (cases ko)
    case None
    show ?thesis by (rule page_answered [OF assms(2) Pair [unfolded None]]) (rule assms(4))
  next
    case (Some k)
    show ?thesis by (rule object_answered [OF assms(1-3) Pair [unfolded Some]])
  qed
qed

lemma represents_http_weaken: "represents_http B Bs D (Suc n) s a \<Longrightarrow> represents_http B Bs D n s a"
  using represents_weaken by (auto simp: represents_http_def)

lemma http_refines:
  assumes rep: "represents_http B Bs D (Suc n) s a" and cov: "covered h B Bs D (V, r)"
  shows "fst (http_step h (V, r) s) = fst (http_spec h (V, r) a) \<and>
    represents_http B Bs D n (snd (http_step h (V, r) s)) (snd (http_spec h (V, r) a))"
proof -
  have external: "\<not> HasPrefix (u_Path (rq_URL r)) ''/internal/''" using cov by simp
  obtain ok r' where v: "verifySigV4 (hd_accessKey h) (hd_secretKey h) r = (ok, r')" by fastforce
  show ?thesis
  proof (cases ok)
    case False
    then show ?thesis using external v represents_http_weaken [OF rep] by (simp add: ServeHTTP_def)
  next
    case True
    then obtain c where c: "request_call V r' = Some c" "admissible Bs D c" "lists_in Bs c" and env: "ev_os V = os_ok" "ev_bolt V = B"
      using cov v by auto
    have eng: "represents Bs D (Suc n) s a" using rep by (simp add: represents_http_def)
    have "route V r' s = (http_answer c (fst (store_call os_ok c s)), snd (store_call os_ok c s))"
    proof (rule request_answered [OF eng c(1) env(1)])
      show "\<exists>x. st_GetBucket (ev_bolt V) b s = Ok x" if "c = ListCall b pfx after m" for b pfx after m
        using that c(3) rep env(2) by (simp add: represents_http_def st_GetBucket_def ms_GetBucket_def)
    qed
    then have step: "http_step h (V, r) s = (http_answer c (fst (store_call os_ok c s)), snd (store_call os_ok c s))"
      using external v True by (simp add: ServeHTTP_def)
    have spec: "http_spec h (V, r) a = (http_answer c (fst (spec_call c a)), snd (spec_call c a))"
      using v True c(1) by (simp add: answer_promised)
    have "\<forall>b \<in> Bs. \<exists>x. BucketDB_Get B b (ms_buckets (st_meta (snd (store_call os_ok c s)))) = Ok x"
      using rep by (simp add: represents_http_def store_call_buckets)
    then show ?thesis
      unfolding step spec using engine.simulates [OF eng c(2)] by (simp add: represents_http_def)
  qed
qed

interpretation service: call_refinement "http_step h" "http_spec h" "represents_http B Bs D" "covered h B Bs D"
  for h B Bs D
proof (unfold_locales, goal_cases)
  case (1 n s a c)
  obtain V r where c: "c = (V, r)" by (cases c)
  show ?case using http_refines 1 unfolding c by blast
qed

text \<open>What a sequence of requests writes.\<close>

definition http_written :: "Handler \<Rightarrow> ('db env \<times> request) list \<Rightarrow> bytes set" where
  "http_written h rs =
     (\<Union>(V, r) \<in> set rs. case verifySigV4 (hd_accessKey h) (hd_secretKey h) r of
        (ok, r') \<Rightarrow> if ok then written (case request_call V r' of None \<Rightarrow> [] | Some c \<Rightarrow> [c]) else {})"

lemma covered_written:
  assumes "\<forall>x \<in> set rs. covered h B Bs UNIV x" and "x \<in> set rs"
  shows "covered h B Bs (http_written h rs) x"
proof (cases x)
  case (Pair V r)
  have cov: "covered h B Bs UNIV (V, r)" using assms Pair by blast
  have "admissible Bs (http_written h rs) c"
    if "verifySigV4 (hd_accessKey h) (hd_secretKey h) r = (True, r')" "request_call V r' = Some c" "admissible Bs UNIV c" for r' c
  proof (cases c)
    case (PutCall t b k body)
    have "d \<in> http_written h rs" if "ReadAll_limit MaxObjectSize body = Ok d" for d
    proof -
      have "d \<in> written [c]" using that by (auto simp: written_def PutCall)
      then show ?thesis
        using assms(2) Pair \<open>verifySigV4 _ _ r = _\<close> \<open>request_call V r' = Some c\<close>
        by (auto simp: http_written_def intro!: bexI [of _ "(V, r)"])
    qed
    then show ?thesis using that(3) by (simp add: PutCall)
  qed (use that(3) in simp_all)
  then show ?thesis using cov unfolding Pair by (auto; metis)
qed

lemma requests_keep_promise:
  assumes "ms_wf (st_meta s)" and "accepts s" and "\<forall>b \<in> Bs. ms_writable (st_meta s) b"
    and "\<forall>b k. ms_history (st_meta s) b k = [] \<and> ms_next (st_meta s) b k = 1"
    and "\<forall>b \<in> Bs. \<exists>x. st_GetBucket B b s = Ok x"
    and "\<forall>x \<in> set rs. covered h B Bs UNIV x" and "inj_on sha_hex (http_written h rs)" and "length rs < 2 ^ 63 - 2"
  shows "fst (run_calls (http_step h) rs s) = fst (run_calls (http_spec h) rs (\<lambda>_ _. []))"
proof -
  have "represents_http B Bs (http_written h rs) (length rs) s (\<lambda>_ _. [])"
    using assms(1-5,7,8) by (simp add: represents_http_def represents_def key_matches_def st_GetBucket_def ms_GetBucket_def)
  moreover have "\<forall>x \<in> set rs. covered h B Bs (http_written h rs) x" using covered_written [OF assms(6)] by blast
  ultimately show ?thesis using service.runs_agree by blast
qed

end
