(* ===== verification/Uploads.thy ===== *)
theory Uploads
  imports Service
begin

text \<open>
  Uploads in parts over HTTP: a client that starts an upload, sends the parts, and completes it with the
  digests it was answered, against the handlers. Query strings are encoded by the client and parsed by the
  server; the upload identifier is read out of a response and the completion document is read by the
  server. The contract of an upload session is interpreted a second time, for the requests.
\<close>

section \<open>Query strings\<close>

definition encode_query :: "(string \<times> string) list \<Rightarrow> string" where
  "encode_query q = join_with ''&'' (map (\<lambda>(k, v). QueryEscape k @ CHR ''='' # QueryEscape v) q)"

lemma unhex_upper: "n < 16 \<Longrightarrow> unhex (upper_hex n) = Some n"
proof -
  assume n: "n < 16"
  have "list_all (\<lambda>n. unhex (upper_hex n) = Some n) [0..<16]" by code_simp
  then show ?thesis using n by (simp add: list_all_iff)
qed

lemma upper_hex_alnum: "n < 16 \<Longrightarrow> is_alnum (upper_hex n)"
proof -
  assume n: "n < 16"
  have "list_all (\<lambda>n. is_alnum (upper_hex n)) [0..<16]" by code_simp
  then show ?thesis using n by (simp add: list_all_iff)
qed

lemma byte_nibbles: "of_char (c :: char) div 16 < (16 :: nat)" "of_char (c :: char) mod 16 < (16 :: nat)"
  using nat_of_char_less_256 [of c] by arith simp

lemma unescape_percent: "url_unescape True (percent c @ s) = map_option ((#) c) (url_unescape True s)"
proof -
  have "16 * (of_char c div 16) + of_char c mod 16 = (of_char c :: nat)" by (rule mult_div_mod_eq)
  then show ?thesis by (simp add: percent_def unhex_upper byte_nibbles)
qed

lemma unreserved_plain: "is_unreserved c \<Longrightarrow> c \<noteq> CHR ''%'' \<and> c \<noteq> CHR ''+''"
  by (auto simp: is_unreserved_def is_alnum_def between_def is_digit_def less_eq_char_def)

lemma unescape_escape: "url_unescape True (QueryEscape s) = Some s"
proof (induction s)
  case (Cons c s)
  have "QueryEscape (c # s) = (if is_unreserved c then [c] else if c = CHR '' '' then ''+'' else percent c) @ QueryEscape s"
    by (simp add: QueryEscape_def)
  then show ?case using Cons unreserved_plain [of c] by (simp add: unescape_percent)
qed (simp add: QueryEscape_def)

lemma escape_plain: "c \<in> set (QueryEscape s) \<Longrightarrow> is_unreserved c \<or> c = CHR ''+'' \<or> c = CHR ''%''"
  by (auto simp: QueryEscape_def percent_def is_unreserved_def upper_hex_alnum byte_nibbles split: if_splits)

lemma escape_separators:
  "CHR ''&'' \<notin> set (QueryEscape s)" "CHR ''='' \<notin> set (QueryEscape s)" "CHR '';'' \<notin> set (QueryEscape s)"
proof -
  have "\<not> (is_unreserved c \<or> c = CHR ''+'' \<or> c = CHR ''%'')" if "c \<in> set ''&=;''" for c
    using that by (auto simp: is_unreserved_def is_alnum_def between_def is_digit_def less_eq_char_def)
  then show "CHR ''&'' \<notin> set (QueryEscape s)" "CHR ''='' \<notin> set (QueryEscape s)" "CHR '';'' \<notin> set (QueryEscape s)"
    using escape_plain by fastforce+
qed

lemma add_encoded:
  "k \<notin> fst ` set m \<Longrightarrow> add_setting m (QueryEscape k @ CHR ''='' # QueryEscape v) = AList.update k [v] m"
  using cut_append [OF escape_separators(2), of k "QueryEscape v"]
  by (simp add: add_setting_def escape_separators unescape_escape map_of_eq_None_iff [THEN iffD2])

lemma update_fresh: "k \<notin> fst ` set m \<Longrightarrow> AList.update k v m = m @ [(k, v)]"
  by (induction m) auto

lemma add_encoded_all:
  assumes "distinct (map fst q)" and "fst ` set q \<inter> fst ` set m = {}"
  shows "foldl add_setting m (map (\<lambda>(k, v). QueryEscape k @ CHR ''='' # QueryEscape v) q) = m @ map (\<lambda>(k, v). (k, [v])) q"
  using assms
proof (induction q arbitrary: m)
  case (Cons p q)
  obtain k v where p: "p = (k, v)" by (cases p)
  have "add_setting m (QueryEscape k @ CHR ''='' # QueryEscape v) = m @ [(k, [v])]"
    using Cons.prems by (simp add: p add_encoded update_fresh)
  moreover have "fst ` set q \<inter> fst ` set (m @ [(k, [v])]) = {}" using Cons.prems by (auto simp: p)
  ultimately show ?case using Cons.IH [of "m @ [(k, [v])]"] Cons.prems(1) by (simp add: p)
qed simp

text \<open>The server reads the pairs that the client encoded.\<close>

lemma query_encoded:
  assumes "distinct (map fst q)" and "u_RawQuery u = encode_query q"
  shows "url_Query u = map (\<lambda>(k, v). (k, [v])) q"
proof (cases "q = []")
  case True
  then show ?thesis using assms(2) by (simp add: url_Query_def encode_query_def add_setting_def)
next
  case False
  let ?ws = "map (\<lambda>(k, v). QueryEscape k @ CHR ''='' # QueryEscape v) q"
  have "\<forall>w \<in> set ?ws. CHR ''&'' \<notin> set w" by (auto simp: escape_separators)
  then have "split_on (CHR ''&'') (encode_query q) = ?ws"
    using False by (simp add: encode_query_def split_join)
  then show ?thesis using add_encoded_all [OF assms(1), of "[]"] by (simp add: url_Query_def assms(2))
qed

section \<open>The client\<close>

record client =
  cl_auth :: sigv4Auth
  cl_secret :: string
  cl_payload :: string
  cl_base :: request

definition query_url :: "string \<Rightarrow> string \<Rightarrow> (string \<times> string) list \<Rightarrow> URL" where
  "query_url b k q = (object_url b k)\<lparr>u_RawQuery := encode_query q\<rparr>"

definition ask :: "Handler \<Rightarrow> client \<Rightarrow> 'db env \<Rightarrow> string \<Rightarrow> string \<Rightarrow> string \<Rightarrow> (string \<times> string) list \<Rightarrow> reader
    \<Rightarrow> 'db Store \<Rightarrow> 'db handled" where
  "ask h c V m b k q body s =
     ServeHTTP V h (sign_request (cl_secret c) (cl_auth c) (cl_payload c)
       ((cl_base c)\<lparr>rq_Method := m, rq_URL := query_url b k q, rq_Body := body\<rparr>)) s"

text \<open>The identifier in the answer to the request that starts an upload.\<close>

fun child_text :: "string \<Rightarrow> xml list \<Rightarrow> string option" where
  "child_text n [] = None"
| "child_text n (XElem m as cs # xs) = (if m = n then Some (elem_text cs) else child_text n xs)"
| "child_text n (XText t # xs) = child_text n xs"

definition upload_id :: "response \<Rightarrow> string option" where
  "upload_id x = (case rs_Body x of BXml (XElem n as cs) \<Rightarrow> child_text ''UploadId'' cs | _ \<Rightarrow> None)"

text \<open>A part, under the environment of its number; the client keeps the \<^verbatim>\<open>ETag\<close> header of the answer.\<close>

definition send_part :: "Handler \<Rightarrow> client \<Rightarrow> (int \<Rightarrow> 'db env) \<Rightarrow> string \<Rightarrow> string \<Rightarrow> string \<Rightarrow> int \<Rightarrow> bytes
    \<Rightarrow> 'db Store \<Rightarrow> string outcome \<times> 'db Store" where
  "send_part h c V b k uid n data s =
     (case ask h c (V n) ''PUT'' b k [(''partNumber'', FormatInt n), (''uploadId'', uid)]
         \<lparr>rd_data = data, rd_err = None\<rparr> s of
        (Ok x, s') \<Rightarrow>
          (case map_of (rs_Header x) ''ETag'' of
             Some e \<Rightarrow> (Ok e, s')
           | None \<Rightarrow> (Err (ErrText ''part refused''), s'))
      | (Err e, s') \<Rightarrow> (Err e, s')
      | (Panic p, s') \<Rightarrow> (Panic p, s'))"

definition part_element :: "CompletedPart \<Rightarrow> xml" where
  "part_element cp = XElem ''Part'' []
     [xelem ''PartNumber'' (FormatInt (cp_PartNumber cp)), xelem ''ETag'' (cp_ETag cp)]"

definition complete_document :: "CompletedPart list \<Rightarrow> xml" where
  "complete_document cps = XElem ''CompleteMultipartUpload'' [] (map part_element cps)"

definition listed :: "(int \<times> bytes) list \<Rightarrow> string list \<Rightarrow> CompletedPart list" where
  "listed ps etags = map (\<lambda>((n, d), e). \<lparr>cp_PartNumber = n, cp_ETag = e\<rparr>) (zip ps etags)"

text \<open>\<open>ser\<close> is what the client writes a document as; the three environments are those of the start,
  of the parts and of the completion.\<close>

definition upload_over_http :: "Handler \<Rightarrow> client \<Rightarrow> (xml \<Rightarrow> reader) \<Rightarrow> 'db env \<Rightarrow> (int \<Rightarrow> 'db env) \<Rightarrow> 'db env
    \<Rightarrow> string \<Rightarrow> string \<Rightarrow> (int \<times> bytes) list \<Rightarrow> 'db Store \<Rightarrow> 'db handled" where
  "upload_over_http h c ser V0 V V1 b k ps s =
     (case ask h c V0 ''POST'' b k [(''uploads'', '''')] \<lparr>rd_data = '''', rd_err = None\<rparr> s of
        (Ok x, s1) \<Rightarrow>
          (case upload_id x of
             None \<Rightarrow> (Ok x, s1)
           | Some uid \<Rightarrow>
               (case upload_all (send_part h c V b k uid) ps s1 of
                  (Ok etags, s2) \<Rightarrow>
                    ask h c V1 ''POST'' b k [(''uploadId'', uid)] (ser (complete_document (listed ps etags))) s2
                | (Err e, s2) \<Rightarrow> (Err e, s2)
                | (Panic p, s2) \<Rightarrow> (Panic p, s2)))
      | (Err e, s1) \<Rightarrow> (Err e, s1)
      | (Panic p, s1) \<Rightarrow> (Panic p, s1))"

section \<open>Lemmas\<close>

lemma query_url_query: "distinct (map fst q) \<Longrightarrow> url_Query (query_url b k q) = map (\<lambda>(k, v). (k, [v])) q"
  by (rule query_encoded) (simp_all add: query_url_def)

text \<open>A request of a client that the server knows reaches the handler of the object.\<close>

definition client_ok :: "Handler \<Rightarrow> client \<Rightarrow> string \<Rightarrow> bool" where
  "client_ok h c b =
     (auth_wf (cl_auth c) \<and> cl_payload c \<noteq> '''' \<and> hd_accessKey h = sa_accessKey (cl_auth c) \<and>
      hd_secretKey h = cl_secret c \<and> CHR ''/'' \<notin> set b \<and> b \<noteq> ''internal'')"

lemma ask_handled:
  assumes "client_ok h c b"
  shows "\<exists>r. ask h c V m b k q body s = handleObject V r b k s \<and> rq_Method r = m \<and> rq_URL r = query_url b k q \<and>
    rq_Body r = body"
proof -
  let ?r = "(cl_base c)\<lparr>rq_Method := m, rq_URL := query_url b k q, rq_Body := body\<rparr>"
  note c = assms [unfolded client_ok_def]
  have path: "u_Path (query_url b k q) = ''/'' @ b @ ''/'' @ k" by (simp add: query_url_def object_url_def)
  have "\<not> HasPrefix (u_Path (rq_URL ?r)) ''/internal/''"
    using object_url_external [of b k] c by (simp add: path object_url_def)
  moreover have "route V r s = handleObject V r b k s" if "rq_URL r = query_url b k q" for r
    using cut_append [of "CHR ''/''" b k] c that by (simp add: route_def Let_def path TrimPrefix_def)
  ultimately have "ask h c V m b k q body s = handleObject V (sign_request (cl_secret c) (cl_auth c) (cl_payload c) ?r) b k s"
    using verify_signed [of "cl_auth c" "cl_payload c" h ?r V s] c by (simp add: ask_def)
  then show ?thesis by (intro exI conjI, assumption) simp_all
qed

lemma ask_start:
  assumes "client_ok h c b"
  shows "ask h c V ''POST'' b k [(''uploads'', '''')] body s = createMultipartUpload V b k s"
proof -
  obtain r where "ask h c V ''POST'' b k [(''uploads'', '''')] body s = handleObject V r b k s" "rq_Method r = ''POST''"
    "rq_URL r = query_url b k [(''uploads'', '''')]"
    using ask_handled [OF assms] by metis
  then show ?thesis by (simp add: handleObject_def query_url_query values_Has_def)
qed

lemma ask_part:
  assumes "client_ok h c b" and "1 \<le> n" and "n \<le> 10000"
  shows "ask h c V ''PUT'' b k [(''partNumber'', FormatInt n), (''uploadId'', uid)] body s =
    respond (\<lambda>etag. \<lparr>rs_Status = 200, rs_Header = [(''ETag'', quoted etag)], rs_Body = BNone\<rparr>)
      (st_UploadPart (ev_os V) (ev_now V) b k uid n body s)"
proof -
  let ?q = "[(''partNumber'', FormatInt n), (''uploadId'', uid)]"
  obtain r where r: "ask h c V ''PUT'' b k ?q body s = handleObject V r b k s" "rq_Method r = ''PUT''"
    "rq_URL r = query_url b k ?q" "rq_Body r = body"
    using ask_handled [OF assms(1)] by metis
  have "Atoi (FormatInt n) = Some n" using assms(2,3) by (intro Atoi_FormatInt) (simp add: in_int64_def)
  then show ?thesis
    using r assms(2,3)
    by (simp add: handleObject_def query_url_query values_Has_def values_Get_def query_def uploadPart_def)
qed

lemma ask_complete:
  assumes "client_ok h c b"
  shows "\<exists>r. ask h c V ''POST'' b k [(''uploadId'', uid)] body s = completeMultipartUpload V r b k s \<and>
    query r ''uploadId'' = uid \<and> rq_Body r = body"
proof -
  let ?q = "[(''uploadId'', uid)]"
  obtain r where r: "ask h c V ''POST'' b k ?q body s = handleObject V r b k s" "rq_Method r = ''POST''"
    "rq_URL r = query_url b k ?q" "rq_Body r = body"
    using ask_handled [OF assms] by metis
  then show ?thesis
    by (intro exI [of _ r]) (simp add: handleObject_def query_url_query values_Has_def values_Get_def query_def)
qed

text \<open>The server reads the parts that the client lists.\<close>

lemma TrimSpace_digits: "TrimSpace (FormatInt n) = FormatInt n"
proof -
  have digit: "is_digit c \<Longrightarrow> \<not> is_space c" for c
    by (auto simp: is_digit_def is_space_def less_eq_char_def)
  have "\<not> is_space (CHR ''-'')" by (simp add: is_space_def)
  then have "\<not> is_space c" if "c \<in> set (FormatInt n)" for c
    using that digit [of c] nat_digits_digits [of "nat n"] nat_digits_digits [of "nat (- n)"]
    by (auto simp: FormatInt_def list_all_iff split: if_splits)
  then show ?thesis by (simp add: TrimSpace_id FormatInt_nonempty)
qed

lemma dec_part_element:
  assumes "in_int64 (cp_PartNumber cp)"
  shows "dec_parts (part_element cp # xs) = map_option ((#) cp) (dec_parts xs)"
  using assms
  by (cases cp) (simp add: part_element_def xelem_def elem_text_def FormatInt_nonempty TrimSpace_digits Atoi_FormatInt
      split: option.split)

lemma dec_complete_document:
  assumes "\<forall>cp \<in> set cps. in_int64 (cp_PartNumber cp)"
  shows "dec_complete (complete_document cps) = Some cps"
proof -
  have "dec_parts (map part_element cps) = Some cps" using assms by (induction cps) (simp_all add: dec_part_element)
  then show ?thesis by (simp add: complete_document_def)
qed

lemma listed_completed: "listed ps (map (\<lambda>(n, d). quoted (sha_hex d)) ps) = map completed ps"
  by (induction ps) (auto simp: listed_def completed_def)

text \<open>The session over HTTP keeps the contract of the engine's.\<close>

interpretation sent: part_session "session b k uid" "session_part uid" "send_part h c V b k uid" same_objects
    "\<lambda>d. quoted (sha_hex d)"
    "\<lambda>n d. client_ok h c b \<and> ev_os (V n) = os_ok \<and> 1 \<le> n \<and> n \<le> 10000 \<and> length d \<le> MaxObjectSize"
  for b k uid h c V
proof (unfold_locales, goal_cases)
  case (1 s n data)
  from upload_ok [OF 1(1), of data "ev_now (V n)" n] 1(2) obtain s' where
    s': "st_UploadPart os_ok (ev_now (V n)) b k uid n \<lparr>rd_data = data, rd_err = None\<rparr> s = (Ok (sha_hex data), s')"
    "session b k uid s'" "same_objects s s'" "\<forall>m. session_part uid s' m = (if m = n then Some data else session_part uid s m)"
    by blast
  then have "send_part h c V b k uid n data s = (Ok (quoted (sha_hex data)), s')"
    using 1(2) by (simp add: send_part_def ask_part)
  with s' show ?case by blast
qed (simp_all add: same_objects_def)

text \<open>At most ten thousand parts of at most the maximum size have fewer than \<open>2 ^ 63\<close> bytes.\<close>

lemma parts_bound:
  fixes ps :: "(int \<times> bytes) list"
  assumes "distinct (map fst ps)" and "\<forall>(n, d) \<in> set ps. 1 \<le> n \<and> n \<le> 10000 \<and> length d \<le> MaxObjectSize"
  shows "int (length (concat (map snd (sort_key fst ps)))) < 2 ^ 63"
proof -
  have "fst ` set ps \<subseteq> {1..10000::int}" using assms(2) by fastforce
  then have "card (fst ` set ps) \<le> card {1..10000::int}" by (intro card_mono) simp_all
  moreover have "card (fst ` set ps) = length ps" using assms(1) distinct_card [of "map fst ps"] by simp
  ultimately have few: "length ps \<le> 10000" by simp
  have "sum_list (map (\<lambda>p. length (snd p)) qs) \<le> length qs * MaxObjectSize" if "set qs \<subseteq> set ps" for qs
    using that assms(2) by (induction qs) (auto intro: add_mono)
  from this [of "sort_key fst ps"] have "length (concat (map snd (sort_key fst ps))) \<le> length ps * MaxObjectSize"
    by (simp add: length_concat comp_def)
  also have "\<dots> \<le> 10000 * MaxObjectSize" using few by (rule mult_right_mono) simp
  finally show ?thesis by (simp add: MaxObjectSize_def)
qed

lemma upload_answered:
  assumes store: "ms_wf (st_meta s)" "ms_writable (st_meta s) b" "ms_room (st_meta s) b k" "accepts s"
      "valid_utf8 b" "valid_utf8 k" "blobs_intact (st_dataDir s) (st_disk s)"
    and client: "client_ok h c b"
      "ev_xml V1 (ser (complete_document (map completed ps))) = Some (complete_document (map completed ps))"
    and env: "st_GetBucket (ev_bolt V0) b s = Ok bk" "\<And>n. ev_os (V n) = os_ok" "ev_os V1 = os_ok"
    and parts: "ps \<noteq> []" "distinct (map fst ps)"
      "\<forall>(n, d) \<in> set ps. 1 \<le> n \<and> n \<le> 10000 \<and> length d \<le> MaxObjectSize"
    and data: "data = concat (map snd (sort_key fst ps))"
  shows "\<exists>x s' meta. upload_over_http h c ser V0 V V1 b k ps s = (Ok x, s') \<and> rs_Status x = 200 \<and>
      st_GetObject os_ok b k '''' s' = Ok (data, meta) \<and> om_ETag meta = sha_hex data \<and>
      sint (om_Size meta) = int (length data)"
proof -
  obtain uid s1 where new: "st_NewMultipartUpload (ev_bolt V0) (ev_rand V0) (ev_now V0) (ev_later V0) b k s = (Ok uid, s1)"
    and s1: "session b k uid s1" "same_objects s s1" "\<And>n. session_part uid s1 n = None"
    using new_upload [OF env(1) [unfolded st_GetBucket_def], of "ev_rand V0" "ev_now V0" "ev_later V0" k] by blast
  have id: "upload_id (writeXML (initiateMultipartUploadResult b k uid)) = Some uid"
    by (simp add: upload_id_def writeXML_def initiateMultipartUploadResult_def xroot_def xelem_def elem_text_def)
  have fits: "\<forall>(n, d) \<in> set ps. client_ok h c b \<and> ev_os (V n) = os_ok \<and> 1 \<le> n \<and> n \<le> 10000 \<and> length d \<le> MaxObjectSize"
    using parts(3) client(1) env(2) by simp
  from sent.upload_all_ok [OF s1(1) fits] obtain s2 where
    up: "upload_all (send_part h c V b k uid) ps s1 = (Ok (map (\<lambda>(n, d). quoted (sha_hex d)) ps), s2)"
    and s2: "session b k uid s2" "same_objects s1 s2"
    and got: "\<And>m. session_part uid s2 m = (case map_of (rev ps) m of Some d \<Rightarrow> Some d | None \<Rightarrow> session_part uid s1 m)"
    by blast
  have "session_part uid s2 m = map_of ps m" for m
    using parts(2) by (simp add: got s1(3) map_of_rev_distinct split: option.split)
  from uploaded_completes [OF store s2(1) same_objects_trans [OF s1(2) s2(2)] parts(2) this refl data, of "ev_now V1"]
  obtain s3 meta where fin: "st_CompleteMultipartUpload os_ok (ev_now V1) b k uid (map completed ps) s2 = (Ok (), s3)"
    "st_GetObject os_ok b k '''' s3 = Ok (data, meta)" "om_Size meta = word_of_int (int (length data))"
    "om_ETag meta = sha_hex data"
    by blast
  have "dec_complete (complete_document (map completed ps)) = Some (map completed ps)"
    using parts(3) by (intro dec_complete_document) (fastforce simp: completed_def in_int64_def)
  moreover obtain r where
    "ask h c V1 ''POST'' b k [(''uploadId'', uid)] (ser (complete_document (map completed ps))) s2 =
      completeMultipartUpload V1 r b k s2" "query r ''uploadId'' = uid"
    "rq_Body r = ser (complete_document (map completed ps))"
    using ask_complete [OF client(1)] by blast
  ultimately have "\<exists>x. ask h c V1 ''POST'' b k [(''uploadId'', uid)] (ser (complete_document (map completed ps))) s2 =
      (Ok (writeXML x), s3)"
    using parts(1) fin(1) by (auto simp: completeMultipartUpload_def client(2) env(3))
  moreover have "sint (om_Size meta) = int (length data)"
    using parts_bound [OF parts(2,3)] unfolding fin(3) data
    by (subst sint_sbintrunc') (simp add: signed_take_bit_int_eq_self)
  ultimately show ?thesis
    using new id up fin(2,4)
    by (auto simp: upload_over_http_def ask_start [OF client(1)] createMultipartUpload_def listed_completed writeXML_def)
qed

lemma ask_get:
  assumes "client_ok h c b" and "ev_os V = os_ok" and "st_GetObject os_ok b k '''' s = Ok (data, meta)"
  shows "ask h c V ''GET'' b k [] body s =
    (Ok \<lparr>rs_Status = 200, rs_Header = object_headers meta, rs_Body = BBytes data\<rparr>, s)"
proof -
  obtain r where r: "ask h c V ''GET'' b k [] body s = handleObject V r b k s" "rq_Method r = ''GET''"
    "rq_URL r = query_url b k []"
    using ask_handled [OF assms(1)] by metis
  have "\<not> om_IsDeleteMarker meta" using st_GetObject_OkD(1) [OF assms(3)] by (rule ms_GetObject_not_marker)
  then show ?thesis
    using r by (simp add: handleObject_def query_url_query query_def getObject_def assms(2,3))
qed

section \<open>Properties\<close>

text \<open>C6. Uploads in parts work over HTTP: on a server that has started, leads its cluster and commits,
  and where a signed \<^verbatim>\<open>PUT\<close> of a bucket was answered with 200 and the database has the bucket, a client that
  starts an upload, sends any parts with numbers from 1 to 10000 in any order under the identifier it was
  answered, and completes it with the digests it was answered, is answered with 200; a \<^verbatim>\<open>GET\<close> then gives
  the parts joined by ascending number, with their number of bytes and the digest of the whole. The XML
  tokenizer must read the completion document as the client wrote it.\<close>

theorem server_multipart:
  assumes start: "main_start S args dk = Some (Ok sv)" "blobs_intact [cfg_DataDir (sv_cfg sv)] dk"
    and leads: "RaftNode_IsLeader (sv_node sv)" "\<And>entry. rl_apply (rn_raft (sv_node sv)) entry = None"
    and client: "auth_wf (cl_auth c)" "sa_accessKey (cl_auth c) = cfg_AccessKey (sv_cfg sv)"
      "cl_secret c = cfg_SecretKey (sv_cfg sv)" "cl_payload c \<noteq> ''''"
    and names: "valid_utf8 b" "valid_utf8 k" "CHR ''/'' \<notin> set b" "b \<noteq> ''internal''"
    and r: "rq_Method r = ''PUT''" "rq_URL r = bucket_url b"
    and created: "ServeHTTP V' (sv_handler sv) (sign_request (cl_secret c) (cl_auth c) (cl_payload c) r) (sv_store sv) = (Ok x0, s)"
      "rs_Status x0 = 200" "st_GetBucket (ev_bolt V0) b s = Ok bk"
    and env: "\<And>n. ev_os (V n) = os_ok" "ev_os V1 = os_ok" "ev_os V2 = os_ok"
      "ev_xml V1 (ser (complete_document (map completed ps))) = Some (complete_document (map completed ps))"
    and parts: "ps \<noteq> []" "distinct (map fst ps)"
      "\<forall>(n, d) \<in> set ps. 1 \<le> n \<and> n \<le> 10000 \<and> length d \<le> MaxObjectSize"
    and data: "data = concat (map snd (sort_key fst ps))"
  shows "\<exists>x x2 s'. upload_over_http (sv_handler sv) c ser V0 V V1 b k ps s = (Ok x, s') \<and> rs_Status x = 200 \<and>
      ask (sv_handler sv) c V2 ''GET'' b k [] body s' = (Ok x2, s') \<and> rs_Status x2 = 200 \<and>
      rs_Body x2 = BBytes data \<and> map_of (rs_Header x2) ''ETag'' = Some (quoted (sha_hex data)) \<and>
      map_of (rs_Header x2) ''Content-Length'' = Some (FormatInt (int (length data)))"
proof -
  note made = created_state [OF start(1) leads client(1,2,4) names(3) r created(1) [unfolded client(3)] created(2)]
  have ok: "client_ok (sv_handler sv) c b"
    using started_state(5,6) [OF start(1) leads] client names by (simp add: client_ok_def)
  from upload_answered [where V = V, OF made(1-4) names(1,2) made(7) [OF start(2)] ok _ created(3) env(1,2) parts data, of ser] env(4)
  obtain x s' meta where up: "upload_over_http (sv_handler sv) c ser V0 V V1 b k ps s = (Ok x, s')" "rs_Status x = 200"
    and got: "st_GetObject os_ok b k '''' s' = Ok (data, meta)" "om_ETag meta = sha_hex data"
      "sint (om_Size meta) = int (length data)"
    by blast
  show ?thesis
    using up ask_get [OF ok env(3) got(1), of body] got(2,3) by (simp add: object_headers_def)
qed

text \<open>Two parts, sent in descending order.\<close>

definition demo_parts :: "(int \<times> bytes) list" where
  "demo_parts = [(2, ''world''), (1, ''hello '')]"

definition demo_client :: client where
  "demo_client = \<lparr>cl_auth = demo_auth, cl_secret = ''minioadmin'', cl_payload = ''UNSIGNED-PAYLOAD'',
     cl_base = demo_request ''PUT'' ''/b'' ''''\<rparr>"

definition xml_env :: "(string, json) gomap env" where
  "xml_env = live_env\<lparr>ev_xml := (\<lambda>body. if rd_data body = ''<complete/>'' then
     Some (complete_document (map completed demo_parts)) else None)\<rparr>"

theorem server_multipart_witness:
  "\<exists>sv s x x2 s'. main_start demo_sys demo_args demo_disk = Some (Ok sv) \<and>
     ServeHTTP live_env (sv_handler sv) (live_request ''PUT'' ''/b'' '''') (sv_store sv) = (Ok (status_only 200), s) \<and>
     upload_over_http (sv_handler sv) demo_client (\<lambda>_. \<lparr>rd_data = ''<complete/>'', rd_err = None\<rparr>)
       live_env (\<lambda>_. live_env) xml_env ''b'' ''k'' demo_parts s = (Ok x, s') \<and>
     ask (sv_handler sv) demo_client live_env ''GET'' ''b'' ''k'' [] \<lparr>rd_data = '''', rd_err = None\<rparr> s' = (Ok x2, s') \<and>
     rs_Body x2 = BBytes ''hello world''"
proof -
  obtain sv s where sv: "main_start demo_sys demo_args demo_disk = Some (Ok sv)" "sv_cfg sv = demo_config"
    "RaftNode_IsLeader (sv_node sv)" "\<forall>entry. rl_apply (rn_raft (sv_node sv)) entry = None"
    "blobs_intact [cfg_DataDir (sv_cfg sv)] demo_disk"
    "ServeHTTP live_env (sv_handler sv) (live_request ''PUT'' ''/b'' '''') (sv_store sv) = (Ok (status_only 200), s)"
    "\<exists>bk. st_GetBucket (sy_bolt demo_sys) ''b'' s = Ok bk"
    by (rule live_server) blast
  then obtain bk where bk: "st_GetBucket (ev_bolt live_env) ''b'' s = Ok bk" by (auto simp: live_env_def)
  have client: "auth_wf (cl_auth demo_client)" "sa_accessKey (cl_auth demo_client) = cfg_AccessKey (sv_cfg sv)"
    "cl_secret demo_client = cfg_SecretKey (sv_cfg sv)" "cl_payload demo_client \<noteq> ''''"
    by (simp_all add: demo_client_def demo_auth_wf sv(2))
  have created: "ServeHTTP live_env (sv_handler sv) (sign_request (cl_secret demo_client) (cl_auth demo_client)
      (cl_payload demo_client) (demo_request ''PUT'' ''/b'' '''')) (sv_store sv) = (Ok (status_only 200), s)"
    using sv(6) by (simp add: demo_client_def live_request_def)
  have env: "\<And>n :: int. ev_os live_env = os_ok" "ev_os xml_env = os_ok" "ev_os live_env = os_ok"
    "ev_xml xml_env \<lparr>rd_data = ''<complete/>'', rd_err = None\<rparr> = Some (complete_document (map completed demo_parts))"
    by (simp_all add: xml_env_def live_env_def demo_env_def)
  have parts: "demo_parts \<noteq> []" "distinct (map fst demo_parts)"
    "\<forall>(n, d) \<in> set demo_parts. 1 \<le> n \<and> n \<le> 10000 \<and> length d \<le> MaxObjectSize"
    by (simp_all add: demo_parts_def MaxObjectSize_def)
  have data: "''hello world'' = concat (map snd (sort_key fst demo_parts))" by (simp add: demo_parts_def)
  from server_multipart [OF sv(1,5,3) sv(4) [rule_format] client demo_names(1,2) _ _ _ demo_request_bucket created _ bk env parts data,
      of "\<lparr>rd_data = '''', rd_err = None\<rparr>"] sv(1,6)
  show ?thesis by (simp add: status_only_def) blast
qed

end
