(* ===== verification/Cluster.thy ===== *)
theory Cluster
  imports Concurrency
begin

text \<open>
  Two nodes of a cluster: a leader that takes a write, and a node that applies the entry the leader has
  committed. The log carries metadata; buckets and blobs stay where they were made.
\<close>

section \<open>Entries on other nodes\<close>

text \<open>The entry that the Raft node of the leader hands to the library for a write.\<close>

definition put_entry :: "time \<Rightarrow> string \<Rightarrow> string \<Rightarrow> bytes \<Rightarrow> json" where
  "put_entry now b k data = enc_RaftOp (put_op b k (new_meta now k (word_of_int (int (length data))) (sha_hex data)))"

text \<open>The library of another node calls \<^verbatim>\<open>fsm.Apply\<close> with it; what that returns has no caller to go to.\<close>

definition apply_committed :: "time \<Rightarrow> json \<Rightarrow> 'db Store \<Rightarrow> 'db Store" where
  "apply_committed now entry s = s\<lparr>st_meta := snd (fsm_Apply now entry (st_meta s))\<rparr>"

lemma put_entry_apply:
  assumes "valid_utf8 b" and "valid_utf8 k"
  shows "fsm_Apply t (put_entry now b k data) m =
    drop_value (ms_PutObject b k (new_meta now k (word_of_int (int (length data))) (sha_hex data)) m)"
  unfolding put_entry_def by (rule fsm_Apply_put [OF assms]) (simp add: assms(2))

lemma entry_applied:
  assumes "ms_wf m" and "ms_writable m b" and "ms_room m b k" and "valid_utf8 b" and "valid_utf8 k"
  obtains m' meta where "\<And>t. fsm_Apply t (put_entry now b k data) m = (Ok (), m')"
    and "ms_GetObject b k '''' m' = Ok meta" and "om_ETag meta = sha_hex data" and "om_Sha256 meta = sha_hex data"
proof -
  let ?meta = "new_meta now k (word_of_int (int (length data))) (sha_hex data)"
  from versions.put_then_get [OF assms(1-3), of ?meta] obtain vid m' where
    "ms_PutObject b k ?meta m = (Ok vid, m')" "ms_GetObject b k '''' m' = Ok (?meta\<lparr>om_VersionID := vid\<rparr>)"
    by auto
  then show ?thesis
    using that [of m' "?meta\<lparr>om_VersionID := vid\<rparr>"] by (simp add: put_entry_apply [OF assms(4,5)])
qed

section \<open>Properties\<close>

text \<open>C28. A node that does not lead has the metadata of an object and not its data: after a write that the
  leader has acknowledged and can read back, a node that applies the committed entry tells the object
  with the digest of its contents, but a read of it fails, since no node sends blobs; and a node on
  which the bucket was not created ignores the entry.\<close>

theorem follower_serves_no_data:
  assumes leader: "ms_wf (st_meta l)" "ms_writable (st_meta l) b" "ms_room (st_meta l) b k" "accepts l"
      "blobs_intact (st_dataDir l) (st_disk l)"
    and call: "valid_utf8 b" "valid_utf8 k" "ReadAll_limit MaxObjectSize body = Ok data"
    and follower: "ms_wf (st_meta f)" "ms_writable (st_meta f) b" "ms_room (st_meta f) b k"
      "blob_at (st_dataDir f) (sha_hex data) (st_disk f) = None"
    and other: "\<not> map_bool (ms_cache (st_meta g)) b"
  shows "\<exists>vid l' meta meta'. st_PutObject os_ok now b k body l = (Ok (sha_hex data, vid), l') \<and>
      fsm_Apply now (put_entry now b k data) (st_meta l) = (Ok (), st_meta l') \<and>
      st_GetObject os_ok b k '''' l' = Ok (data, meta) \<and>
      st_GetMeta b k (apply_committed t (put_entry now b k data) f) = Ok meta' \<and> om_ETag meta' = sha_hex data \<and>
      st_GetObject os_ok b k '''' (apply_committed t (put_entry now b k data) f) =
        Err (ErrWrap (''open blob '' @ take 8 (sha_hex data)) no_such_file) \<and>
      apply_committed t (put_entry now b k data) g = g"
proof -
  obtain vid l' meta where put: "st_PutObject os_ok now b k body l = (Ok (sha_hex data, vid), l')"
    "st_GetObject os_ok b k '''' l' = Ok (data, meta)"
    using put_reads_back [OF leader(1-4) call(1-3) leader(5), of now] by blast
  let ?meta = "new_meta now k (word_of_int (int (length data))) (sha_hex data)"
  obtain v m' dk where m': "writeBlob os_ok (st_dataDir l) (sha_hex data) data (st_disk l) = (Ok (), dk)"
    "ms_PutObject b k ?meta (st_meta l) = (Ok v, m')"
    "raftApply now (put_op b k ?meta) (l\<lparr>st_disk := dk\<rparr>) = (Ok (), l\<lparr>st_disk := dk, st_meta := m'\<rparr>)"
    by (rule register_object [OF leader(1-4) call(1,2) refl])
  have "st_meta l' = m'"
    using put(1) call(3) m'(1,3)
    by (auto simp: st_PutObject_def Let_def sha_hex_def [symmetric] put_op_def split: outcome.splits)
  then have "fsm_Apply now (put_entry now b k data) (st_meta l) = (Ok (), st_meta l')"
    using m'(2) by (simp add: put_entry_apply [OF call(1,2)])
  note entry = this
  obtain mf meta' where f: "\<And>t. fsm_Apply t (put_entry now b k data) (st_meta f) = (Ok (), mf)"
    "ms_GetObject b k '''' mf = Ok meta'" "om_ETag meta' = sha_hex data" "om_Sha256 meta' = sha_hex data"
    by (rule entry_applied [OF follower(1-3) call(1,2), of now data]) blast
  let ?f = "f\<lparr>st_meta := mf\<rparr>"
  have "st_GetObject os_ok b k '''' ?f = Err (ErrWrap (''open blob '' @ take 8 (sha_hex data)) no_such_file)"
    using st_GetObject_eq [of b k "''''" ?f meta'] f(2,4) follower(4) by simp
  moreover have "fsm_Apply t (put_entry now b k data) (st_meta g) = (Err ErrNoBucket, st_meta g)"
    using other by (simp add: put_entry_apply [OF call(1,2)] ms_PutObject_def)
  ultimately show ?thesis
    using put entry f by (simp add: apply_committed_def st_GetMeta_def)
qed

theorem follower_serves_no_data_witness:
  "\<exists>vid l' meta'. st_PutObject os_ok 8 ''b'' ''k'' \<lparr>rd_data = ''hello'', rd_err = None\<rparr> (st_SetRaft demo_node demo_store) =
       (Ok (sha_hex ''hello'', vid), l') \<and>
     st_GetMeta ''b'' ''k'' (apply_committed 9 (put_entry 8 ''b'' ''k'' ''hello'') (st_SetRaft follower demo_store)) = Ok meta' \<and>
     st_GetObject os_ok ''b'' ''k'' '''' (apply_committed 9 (put_entry 8 ''b'' ''k'' ''hello'') (st_SetRaft follower demo_store)) =
       Err (ErrWrap (''open blob '' @ take 8 (sha_hex ''hello'')) no_such_file)"
proof -
  let ?l = "st_SetRaft demo_node demo_store" and ?f = "st_SetRaft follower demo_store"
    and ?g = "demo_store\<lparr>st_meta := demo_meta\<lparr>ms_cache := [], ms_objects := []\<rparr>\<rparr>"
  have l: "ms_wf (st_meta ?l)" "ms_writable (st_meta ?l) ''b''" "ms_room (st_meta ?l) ''b'' ''k''" "accepts ?l"
    "blobs_intact (st_dataDir ?l) (st_disk ?l)"
    using demo_store_facts by (simp_all add: st_SetRaft_def accepts_def demo_node_def demo_lib_def RaftNode_IsLeader_def)
  have f: "ms_wf (st_meta ?f)" "ms_writable (st_meta ?f) ''b''" "ms_room (st_meta ?f) ''b'' ''k''"
    "blob_at (st_dataDir ?f) (sha_hex ''hello'') (st_disk ?f) = None"
    using demo_store_facts by (simp_all add: st_SetRaft_def) (simp add: demo_store_def blob_at_def)
  have body: "ReadAll_limit MaxObjectSize \<lparr>rd_data = ''hello'', rd_err = None\<rparr> = Ok ''hello''"
    by (simp add: ReadAll_limit_def MaxObjectSize_def)
  have g: "\<not> map_bool (ms_cache (st_meta ?g)) ''b''" by (simp add: map_bool_def)
  show ?thesis using follower_serves_no_data [OF l demo_names(1,2) body f g, of 8 9] by blast
qed

section \<open>Names that are not UTF-8\<close>

lemma coerce_empty: "utf8_coerce k = '''' \<longleftrightarrow> k = ''''"
  using utf8_coerce.simps(2) by (cases k) (auto simp: Let_def rune_error_def)

text \<open>The entry for a key that is not UTF-8 is the entry for its coercion.\<close>

lemma entry_coerced:
  "enc_RaftOp (put_op b k (new_meta now k sz (sha_hex data))) =
     enc_RaftOp (put_op b (utf8_coerce k) (new_meta now (utf8_coerce k) sz (sha_hex data)))"
  by (simp add: enc_RaftOp_def put_op_def omitempty_def enc_ObjectMeta_def json_string_def new_meta_def coerce_empty)

text \<open>C29. The log renames keys: on a leader, a write under a key that is not valid UTF-8, as a path with
  an escaped byte gives, is acknowledged but without a version; nothing is found under the key, and the
  object is under the key with the offending bytes replaced, where it becomes the current version
  whatever was there.\<close>

theorem invalid_key_renamed:
  assumes "ms_wf (st_meta s)" and "ms_writable (st_meta s) b" and "ms_room (st_meta s) b (utf8_coerce k)"
    and "accepts s" and "st_raft s = Some r" and "valid_utf8 b" and "\<not> valid_utf8 k"
    and "ms_history (st_meta s) b k = []" and "ReadAll_limit MaxObjectSize body = Ok data"
    and "blobs_intact (st_dataDir s) (st_disk s)"
  shows "\<exists>s' meta. st_PutObject os_ok now b k body s = (Ok (sha_hex data, ''''), s') \<and>
      st_GetObject os_ok b k '''' s' = Err ErrNoKey \<and>
      st_GetObject os_ok b (utf8_coerce k) '''' s' = Ok (data, meta) \<and>
      ms_history (st_meta s') b (utf8_coerce k) = ms_history (st_meta s) b (utf8_coerce k) @ [meta]"
proof -
  let ?k = "utf8_coerce k" and ?sz = "word_of_int (int (length data)) :: i64"
  have ne: "k \<noteq> ?k" using assms(7) by (auto simp: valid_utf8_def)
  define meta where "meta = new_meta now ?k ?sz (sha_hex data)"
  obtain dk where dk: "writeBlob os_ok (st_dataDir s) (sha_hex data) data (st_disk s) = (Ok (), dk)"
    "blob_at (st_dataDir s) (sha_hex data) dk = Some data"
    using blobs.write_ok [of "st_dataDir s" data "st_disk s"] by auto
  have key: "om_Key meta = ?k" by (simp add: meta_def)
  obtain vid m' where m': "ms_PutObject b ?k meta (st_meta s) = (Ok vid, m')" "ms_wf m'"
    "\<And>b' k'. ms_history m' b' k' =
      (if b' = b \<and> k' = ?k then ms_history (st_meta s) b ?k @ [meta\<lparr>om_VersionID := vid\<rparr>] else ms_history (st_meta s) b' k')"
    using versions.put_ok [OF assms(1-3) key] by blast
  let ?s = "s\<lparr>st_disk := dk, st_meta := m'\<rparr>" and ?v = "meta\<lparr>om_VersionID := vid\<rparr>"
  have fsm: "fsm_Apply now (enc_RaftOp (put_op b k (new_meta now k ?sz (sha_hex data)))) (st_meta s) = (Ok (), m')"
    by (subst entry_coerced, subst fsm_Apply_put [OF assms(6) valid_utf8_coerce])
      (use m'(1) in \<open>simp_all add: meta_def valid_utf8_coerce\<close>)
  then have "raftApply now (put_op b k (new_meta now k ?sz (sha_hex data))) (s\<lparr>st_disk := dk\<rparr>) = (Ok (), ?s)"
    using assms(4,5) by (simp add: raftApply_def accepts_def on_meta_def RaftNode_Apply_def Let_def)
  moreover have gone: "ms_GetObject b k '''' m' = Err ErrNoKey"
    using assms(8) ne ms_GetObject_current [OF m'(2), of b k] by (simp add: m'(3))
  ultimately have "st_PutObject os_ok now b k body s = (Ok (sha_hex data, ''''), ?s)"
    using dk(1) by (simp add: st_PutObject_def assms(9) Let_def sha_hex_def [symmetric] put_op_def)
  moreover have "ms_GetObject b ?k '''' m' = Ok ?v"
    using ms_GetObject_current [OF m'(2), of b ?k] by (simp add: m'(3) meta_def)
  then have "st_GetObject os_ok b ?k '''' ?s = Ok (data, ?v)"
    using st_GetObject_eq [of b ?k "''''" ?s ?v] dk(2) by (simp add: meta_def)
  ultimately show ?thesis
    using gone m'(3) by (intro exI [of _ ?s] exI [of _ ?v]) (simp add: st_GetObject_def)
qed

theorem invalid_key_renamed_witness:
  "\<exists>s' meta. st_PutObject os_ok 9 ''b'' [CHR 0xFF] \<lparr>rd_data = ''hello'', rd_err = None\<rparr> (st_SetRaft demo_node demo_store) =
       (Ok (sha_hex ''hello'', ''''), s') \<and>
     st_GetObject os_ok ''b'' [CHR 0xFF] '''' s' = Err ErrNoKey \<and>
     st_GetObject os_ok ''b'' rune_error '''' s' = Ok (''hello'', meta)"
proof -
  let ?s = "st_SetRaft demo_node demo_store"
  have bad: "utf8_coerce [CHR 0xFF] = rune_error" by code_simp
  have "[CHR 0xFF] \<noteq> rune_error" by (simp add: rune_error_def)
  then have invalid: "\<not> valid_utf8 [CHR 0xFF]" by (simp add: valid_utf8_def bad)
  have s: "ms_wf (st_meta ?s)" "ms_writable (st_meta ?s) ''b''" "ms_room (st_meta ?s) ''b'' (utf8_coerce [CHR 0xFF])"
    "accepts ?s" "st_raft ?s = Some demo_node" "blobs_intact (st_dataDir ?s) (st_disk ?s)"
    "ms_history (st_meta ?s) ''b'' [CHR 0xFF] = []"
    using demo_store_facts by (simp_all add: st_SetRaft_def accepts_def demo_node_def demo_lib_def RaftNode_IsLeader_def)
      (simp add: demo_store_def demo_meta_def ms_history_def key_history_def)
  have body: "ReadAll_limit MaxObjectSize \<lparr>rd_data = ''hello'', rd_err = None\<rparr> = Ok ''hello''"
    by (simp add: ReadAll_limit_def MaxObjectSize_def)
  show ?thesis
    using invalid_key_renamed [OF s(1-5) demo_names(1) invalid s(7) body s(6), of 9] by (auto simp: bad)
qed

end
