(* ===== verification/Recovery.thy ===== *)
theory Recovery
  imports Raft
begin

text \<open>
  Recovery from a snapshot: a node that restores the document of another and applies the entries that
  follow it answers every read as the node that has been there all along. A restored map may be in
  another order than the one it was written from, so that what the nodes agree on is what lookups find.
\<close>

section \<open>What lookups find\<close>

definition lookup_view :: "'db MetaStore \<Rightarrow> (string \<Rightarrow> bool) \<times> (string \<Rightarrow> bool) \<times> (string \<Rightarrow> string \<Rightarrow> versionState option)" where
  "lookup_view m = (map_bool (ms_cache m), \<lambda>b. map_of (ms_objects m) b = None, ms_lookup m)"

lemma lookup_viewD:
  assumes "lookup_view m = lookup_view m'"
  shows "map_bool (ms_cache m) b = map_bool (ms_cache m') b"
    and "map_of (ms_objects m) b = None \<longleftrightarrow> map_of (ms_objects m') b = None"
    and "ms_lookup m b k = ms_lookup m' b k"
  using assms by (auto simp: lookup_view_def fun_eq_iff)

text \<open>Replacing the keys of a bucket, seen through lookups.\<close>

lemma lookup_set_keys: "ms_lookup (set_keys b ks m) b' k = (if b' = b then map_of ks k else ms_lookup m b' k)"
  by (simp add: ms_lookup_def set_keys_def)

lemma view_set_keys:
  assumes "lookup_view m = lookup_view m'" and "map_of ks = map_of ks'"
  shows "lookup_view (set_keys b ks m) = lookup_view (set_keys b ks' m')"
proof -
  note view = lookup_viewD [OF assms(1)]
  have "map_bool (ms_cache m) = map_bool (ms_cache m')" using view(1) by auto
  then show ?thesis
    using view(2,3) assms(2) by (simp add: lookup_view_def fun_eq_iff lookup_set_keys)
qed

lemma keys_view:
  assumes "lookup_view m = lookup_view m'" and "map_of (ms_objects m) b = Some ks"
  obtains ks' where "map_of (ms_objects m') b = Some ks'" and "map_of ks = map_of ks'"
proof -
  obtain ks' where "map_of (ms_objects m') b = Some ks'" using lookup_viewD(2) [OF assms(1), of b] assms(2) by auto
  then show ?thesis using that lookup_viewD(3) [OF assms(1), of b] assms(2) by (simp add: ms_lookup_def fun_eq_iff)
qed

lemma put_lookup_view:
  assumes "lookup_view m = lookup_view m'"
  shows "fst (ms_PutObject b k meta m) = fst (ms_PutObject b k meta m') \<and>
    lookup_view (snd (ms_PutObject b k meta m)) = lookup_view (snd (ms_PutObject b k meta m'))"
proof (cases "map_of (ms_objects m) b")
  case None
  then show ?thesis using lookup_viewD(1,2) [OF assms, of b] assms by (simp add: ms_PutObject_def)
next
  case (Some ks)
  then obtain ks' where ks': "map_of (ms_objects m') b = Some ks'" "map_of ks = map_of ks'"
    by (rule keys_view [OF assms])
  have "map_of (AList.update k vs ks) = map_of (AList.update k vs ks')" for vs
    using ks'(2) by (simp add: AList.update_conv')
  then show ?thesis
    using lookup_viewD(1) [OF assms, of b] assms view_set_keys [OF assms] ks'
    by (simp add: ms_PutObject_def Some Let_def split: prod.split)
qed

lemma remove_lookup:
  "map_of ks = map_of ks' \<Longrightarrow> map_of (remove_version k i vst ks) = map_of (remove_version k i vst ks')"
  by (simp add: remove_version_def Let_def AList.update_conv' AList.delete_conv')

lemma delete_lookup_view:
  assumes "lookup_view m = lookup_view m'" and "vid \<noteq> ''''"
  shows "fst (ms_DeleteObject t b k vid m) = fst (ms_DeleteObject t' b k vid m') \<and>
    lookup_view (snd (ms_DeleteObject t b k vid m)) = lookup_view (snd (ms_DeleteObject t' b k vid m'))"
proof (cases "map_of (ms_objects m) b")
  case None
  then show ?thesis using lookup_viewD(1,2) [OF assms(1), of b] assms by (simp add: ms_DeleteObject_def)
next
  case (Some ks)
  then obtain ks' where ks': "map_of (ms_objects m') b = Some ks'" "map_of ks = map_of ks'"
    by (rule keys_view [OF assms(1)])
  show ?thesis
    using lookup_viewD(1) [OF assms(1), of b] assms view_set_keys [OF assms(1) remove_lookup [OF ks'(2)]] ks'
    by (simp add: ms_DeleteObject_def Some split: option.split)
qed

lemma apply_lookup_view:
  assumes "lookup_view m = lookup_view m'" and "clock_free data"
  shows "fst (fsm_Apply t data m) = fst (fsm_Apply t' data m') \<and>
    lookup_view (snd (fsm_Apply t data m)) = lookup_view (snd (fsm_Apply t' data m'))"
proof (cases "dec_RaftOp data")
  case (Inl e)
  with assms(1) show ?thesis by (simp add: fsm_Apply_def)
next
  case (Inr op)
  with assms(2) have no: "op_Kind op \<noteq> ''delete_object''"
    and vid: "op_Kind op = ''delete_version'' \<Longrightarrow> op_VersionID op \<noteq> ''''"
    by (simp_all add: clock_free_def)
  show ?thesis
    using assms(1) no put_lookup_view [OF assms(1)] delete_lookup_view [OF assms(1) vid, of t "op_Bucket op" "op_Key op" t']
    by (simp add: fsm_Apply_def Inr ApplyOp_def split: option.split sum.split)
qed

interpretation lookups: replicated_machine fsm_Apply lookup_view clock_free
  by unfold_locales (rule apply_lookup_view)

section \<open>Properties\<close>

text \<open>C8. A snapshot and the entries after it make up for the whole log: a node without objects that
  restores the snapshot of another (whose strings are valid UTF-8), has the same buckets, and applies the
  entries that follow, at times of its own, ends with the same result and answers every read as the other does after the same entries,
  as long as none of them makes a delete marker.\<close>

theorem recovery_equals_replay:
  fixes m m0 :: "'db MetaStore"
  assumes "ms_wf m" and "ms_serial m" and "fsm_Persist write None m = (Ok (), SinkClosed doc)"
    and "ms_objects m0 = []"
    and "map_bool (cache_of (fst (BucketDB_List B (ms_buckets m0)))) = map_bool (ms_cache m)"
    and "map snd log = map snd log'" and "\<forall>data \<in> snd ` set log. clock_free data"
  shows "\<exists>m1. fsm_Restore B doc m0 = (Ok (), m1) \<and> fst (replay log m1) = fst (replay log' m) \<and>
      (\<forall>b k v. ms_GetObject b k v (snd (replay log m1)) = ms_GetObject b k v (snd (replay log' m)))"
proof -
  have doc: "doc = ms_Snapshot m" using assms(3) by (auto simp: fsm_Persist_def split: option.splits)
  from ms_Restore_lookup [OF assms(1,2), of B m0] obtain m1 where
    m1: "ms_Restore B (ms_Snapshot m) m0 = (Ok (), m1)" "ms_cache m1 = cache_of (fst (BucketDB_List B (ms_buckets m0)))"
      "\<And>b. map_of (ms_objects m1) b = None \<longleftrightarrow> map_of (ms_objects m) b = None \<and> map_of (ms_objects m0) b = None"
      "\<And>b k. ms_lookup m1 b k = (case ms_lookup m b k of None \<Rightarrow> ms_lookup m0 b k | Some vs \<Rightarrow> Some vs)"
    by blast
  have "ms_lookup m0 b k = None" for b k by (simp add: ms_lookup_def assms(4))
  then have "lookup_view m1 = lookup_view m"
    using m1(2-4) assms(4,5) by (auto simp: lookup_view_def fun_eq_iff split: option.split)
  from lookups.runs_agree [OF this assms(6,7), of is_panic "Ok ()"]
  have "fst (replay log m1) = fst (replay log' m)"
    and view: "lookup_view (snd (replay log m1)) = lookup_view (snd (replay log' m))"
    by (simp_all add: replay_run_log)
  moreover have "ms_GetObject b k v (snd (replay log m1)) = ms_GetObject b k v (snd (replay log' m))" for b k v
    by (rule ms_GetObject_lookup) (rule lookup_viewD(3) [OF view])
  ultimately show ?thesis using m1(1) by (auto simp: fsm_Restore_def doc)
qed

theorem recovery_equals_replay_witness:
  "\<exists>m1. fsm_Restore alist_bolt (ms_Snapshot demo_one) (demo_meta\<lparr>ms_objects := []\<rparr>) = (Ok (), m1) \<and>
     (\<forall>b k v. ms_GetObject b k v (snd (replay [(7, enc_RaftOp (put_op ''b'' ''k'' (demo_object ''k'')))] m1)) =
        ms_GetObject b k v (snd (replay [(3, enc_RaftOp (put_op ''b'' ''k'' (demo_object ''k'')))] demo_one)))"
proof -
  let ?e = "enc_RaftOp (put_op ''b'' ''k'' (demo_object ''k''))"
  have "op_valid (put_op ''b'' ''k'' (demo_object ''k''))" by (simp add: op_valid_def put_op_def valid_utf8_ascii)
  then have free: "clock_free ?e" by (simp add: clock_free_def dec_enc_RaftOp put_op_def)
  have cache: "map_bool (cache_of (fst (BucketDB_List alist_bolt (ms_buckets (demo_meta\<lparr>ms_objects := []\<rparr>))))) =
      map_bool (ms_cache demo_one)"
    by (simp add: demo_one_eq demo_meta_def BucketDB_List_def alist_bolt_def ordered_entries_def dec_enc_BucketMeta
        utf8_coerce_ascii cache_of_def)
  show ?thesis
    using recovery_equals_replay [OF demo_one_facts(1) demo_one_serial, of "\<lambda>_. None" "ms_Snapshot demo_one"
        "demo_meta\<lparr>ms_objects := []\<rparr>" alist_bolt "[(7, ?e)]" "[(3, ?e)]"] cache free
    by (auto simp: fsm_Persist_def)
qed

end
