(* ===== verification/Spec2Isabelle.thy ===== *)
theory Spec2Isabelle
  imports Buckets Crashes Promise Uploads Cluster Recovery
begin

text \<open>
  A model of \<^verbatim>\<open>jario\<close>, an S3-compatible object store written in Go, with the theorems that hold of it.

  \<^bold>\<open>The program.\<close> A request enters \<^verbatim>\<open>internal/api\<close>, which checks its signature, routes it, and calls the
  storage engine of \<^verbatim>\<open>internal/store\<close>. The engine keeps the data of objects in files named by their
  SHA-256 and the metadata in a store of versioned keys, whose changes go through a Raft log
  (\<^verbatim>\<open>internal/raft\<close>) when the engine is wired to a node. Buckets are in a local \<^verbatim>\<open>bbolt\<close> database. The
  process (\<^verbatim>\<open>cmd/server\<close>, \<^verbatim>\<open>internal/config\<close>) reads the configuration, builds the parts, wires them, joins
  a cluster when asked, and aborts stale uploads in the background.

  \<^bold>\<open>The theories\<close>, each with its definitions in the order of the source, then lemmas, then properties:

  \<^item> \<open>Prelude\<close>: errors, outcomes (a value, an error, or a panic), Go maps as association lists,
    sorting of slices (locale \<open>slice_order\<close>), decimal numbers; \<open>Json\<close>: JSON trees, UTF-8 coercion,
    encoding and decoding of structs; \<open>GoTime\<close>: RFC 3339 times; \<open>Sha256\<close>: SHA-256 and HMAC, bit by bit.
  \<^item> \<open>BucketDB\<close> (\<^verbatim>\<open>bucketdb.go\<close>): the bucket database over a record \<open>bolt\<close> of what \<^verbatim>\<open>bbolt\<close> answers; its laws are the
    locale \<open>bolt_kv\<close>, which is a sublocale of the contract \<open>bucket_registry\<close>.
  \<^item> \<open>MetaStore\<close> (\<^verbatim>\<open>meta.go\<close>): versions, delete markers, the bucket cache. The abstract state is the history
    of every key; the locale \<open>versioned_store\<close> states what writes and deletes do to it.
  \<^item> \<open>Listing\<close> (\<^verbatim>\<open>meta.go\<close>): pages and version listings; locale \<open>paged_listing\<close> for the client that follows
    continuation tokens.
  \<^item> \<open>Snapshot\<close> (\<^verbatim>\<open>meta.go\<close>): snapshots as JSON and their restoration; the states a metadata store reaches over its
    life, by calls and by restores.
  \<^item> \<open>Raft\<close> (\<^verbatim>\<open>fsm.go\<close>, \<^verbatim>\<open>raft.go\<close>, \<^verbatim>\<open>ApplyOp\<close> of \<^verbatim>\<open>store.go\<close>): log entries, the state machine, the node over a record
    \<open>raft_lib\<close> of what \<^verbatim>\<open>hashicorp/raft\<close> answers; locale \<open>replicated_machine\<close> for replicas of one log.
  \<^item> \<open>Store\<close> (\<^verbatim>\<open>store.go\<close>): the disk, blobs (locale \<open>blob_store\<close>), objects. \<open>Multipart\<close> (\<^verbatim>\<open>multipart.go\<close>): uploads in
    parts (locale \<open>part_session\<close>), with \<^verbatim>\<open>UploadPart\<close> in two halves so that interleavings can be stated.
  \<^item> \<open>Buckets\<close>: the life of a bucket in the engine. \<open>Concurrency\<close>: \<^verbatim>\<open>PutObject\<close> in three steps, and writes
    that overlap. \<open>Integrity\<close>: the store as a transition system whose steps are its calls and the steps of
    calls, and its invariant.
  \<^item> \<open>Refinement\<close>: the promise of the engine, a map from keys to the contents of their versions, and the
    simulation (locale \<open>call_refinement\<close>) that makes every sequence of calls answer as the map does. \<open>Promise\<close>: the
    same for requests: which request asks for which call, the documented response to it, the departures of
    the server from the documents, and a second interpretation of the locale, for the handler.
  \<^item> \<open>Uploads\<close>: a client that uploads in parts over HTTP: encoded queries, the identifier read out of a response,
    the completion document; a second interpretation of \<open>part_session\<close>, for the requests.
  \<^item> \<open>Recovery\<close>: a snapshot and the entries after it make up for the whole log; a second interpretation of
    \<open>replicated_machine\<close>, over what lookups find.
  \<^item> \<open>Cluster\<close>: the committed entry of a write on a node that did not propose it.
  \<^item> \<open>Http\<close>: the parts of \<^verbatim>\<open>net/http\<close>, \<^verbatim>\<open>net/url\<close> and \<^verbatim>\<open>strings\<close> the handlers use; \<open>SigV4\<close> (\<^verbatim>\<open>sigv4.go\<close>): signatures, and a
    client that signs; \<open>Api\<close> (\<^verbatim>\<open>api.go\<close>, \<^verbatim>\<open>xml.go\<close>, \<^verbatim>\<open>join.go\<close>): documents, error responses, every handler, routing,
    cluster membership.
  \<^item> \<open>Server\<close> (\<^verbatim>\<open>config.go\<close>, \<^verbatim>\<open>main.go\<close>): configuration, flags, the start and the end of the process.
  \<^item> \<open>Service\<close>: the running server as a transition system whose requests are sequences of calls of the store.
  \<^item> \<open>Crashes\<close>: which requests, halves of requests and log entries panic in the states a server reaches.
  \<^item> This theory: properties of the running server, from the command line to the bytes of a response.

  A struct is a record with the field names of the source, prefixed; a method on a state is a function
  from the state to the result and the new state; an error is \<open>Err\<close>, a panic \<open>Panic\<close>. The database, the
  operating system, the Raft library, the TOML decoder, the network, clocks and random bytes are
  arguments, and what is relied on is a hypothesis or a locale. Decoders of JSON match field names exactly, as the
  program writes them, and reads of the engine return metadata by value.

  \<^bold>\<open>What is shown.\<close> What is written is read back, at the level of the metadata, of the engine, of uploads in
  parts, and over HTTP; the engine refines a map from keys to the contents of their versions, and the
  running server answers requests with the documented responses for that map, but for departures that the
  theorem lists; deletes and markers do to the history what S3 says; listings are complete and
  independent of map order; snapshots restore, and a node without objects and with the same
  buckets recovers from one and the entries after it; replicas that start with the same buckets and
  versions (buckets are local, and never replicated) agree after the same clock-free entries; the metadata is
  well formed in every state that calls and restores reach; in every state that a server reaches, the bytes of a response have the digest of its ETag; only authenticated writes change the store; a
  signature fixes what it covers; every response is well formed; the configuration follows its
  precedence; the join loop ends exactly when the node is admitted. Where the code does not do what it
  says, the theorem states what it does instead: crashes after a restart and on a first start,
  blobs removed that are still in use, errors of the state machine that are dropped, markers that differ
  between replicas and are not shown as markers to readers, keys without a bucket after a restore, deletes
  that a follower carries out alone, data that only the leader has, keys that the log renames, overlapping writes that
  are told one version, bodies that are not authenticated. On a server that starts
  without buckets, a request that is served on its own panics exactly when it reads a delete marker by its
  version; where requests overlap, recording a part whose upload has ended panics too, and no other half does.

  \<^bold>\<open>Bounds.\<close> Sizes and version counters are 64-bit words; theorems about writes assume that the counter of the
  key has not reached the largest value (\<open>ms_room\<close>). Loops are structural or have a measure; following
  pages has fuel, and \<open>pages_complete\<close> shows that one more than the number of objects is enough. The join
  loop is a partial function whose termination is proved as an equivalence.

  \<^bold>\<open>Not modelled.\<close> Locks and goroutines, except the interleavings of \<^verbatim>\<open>PutObject\<close>, of \<^verbatim>\<open>UploadPart\<close> and of a
  snapshot with the log; a snapshot installed into a server while it serves (its effect on the metadata is); the
  text of XML and JSON, which are trees; log lines; sockets, TLS and signals; the floating-point
  product in \<^verbatim>\<open>time.ParseDuration\<close>, a parameter; everything outside the repository.
\<close>

section \<open>The running server\<close>

text \<open>The server stores objects: on a server that has started, leads its cluster and commits, a
  signed \<^verbatim>\<open>PUT\<close> of a bucket that is answered with 200 makes the bucket usable at once; a signed \<^verbatim>\<open>PUT\<close> of
  an object in it is then answered with 200 and the digest of the body, and a signed \<^verbatim>\<open>GET\<close> of it with
  200, exactly the bytes of the body, their digest and their number.\<close>

theorem server_round_trip:
  assumes start: "main_start S args dk = Some (Ok sv)" and cfg: "cfg = sv_cfg sv" and h: "h = sv_handler sv"
    and leads: "RaftNode_IsLeader (sv_node sv)" "\<And>entry. rl_apply (rn_raft (sv_node sv)) entry = None"
    and disk: "blobs_intact [cfg_DataDir cfg] dk"
    and client: "auth_wf a" "sa_accessKey a = cfg_AccessKey cfg" "p0 \<noteq> ''''" "p1 \<noteq> ''''" "p2 \<noteq> ''''"
    and names: "valid_utf8 b" "valid_utf8 k" "CHR ''/'' \<notin> set b" "b \<noteq> ''internal''"
    and r0: "rq_Method r0 = ''PUT''" "rq_URL r0 = bucket_url b"
    and r1: "rq_Method r1 = ''PUT''" "rq_URL r1 = object_url b k" "rq_Body r1 = \<lparr>rd_data = data, rd_err = None\<rparr>"
      "length data \<le> MaxObjectSize"
    and r2: "rq_Method r2 = ''GET''" "rq_URL r2 = object_url b k"
    and env: "ev_os V1 = os_ok" "ev_os V2 = os_ok"
    and created: "ServeHTTP V0 h (sign_request (cfg_SecretKey cfg) a p0 r0) (sv_store sv) = (Ok x0, s0)" "rs_Status x0 = 200"
  shows "\<exists>x1 x2 s1. ServeHTTP V1 h (sign_request (cfg_SecretKey cfg) a p1 r1) s0 = (Ok x1, s1) \<and>
      rs_Status x1 = 200 \<and> map_of (rs_Header x1) ''ETag'' = Some (quoted (sha_hex data)) \<and>
      ServeHTTP V2 h (sign_request (cfg_SecretKey cfg) a p2 r2) s1 = (Ok x2, s1) \<and>
      rs_Status x2 = 200 \<and> rs_Body x2 = BBytes data \<and>
      map_of (rs_Header x2) ''ETag'' = Some (quoted (sha_hex data)) \<and>
      map_of (rs_Header x2) ''Content-Length'' = Some (FormatInt (int (length data)))"
proof -
  note made = created_state [OF start leads client(1) _ client(3) names(3) r0, folded cfg h, OF client(2) created]
  have "hd_accessKey h = sa_accessKey a" "hd_secretKey h = cfg_SecretKey cfg"
    using started_state(5,6) [OF start leads] client(2) by (simp_all add: cfg h)
  with http_put_get [OF made(1-4) names(1,2) r1(4) made(7) [OF disk] client(1,4,5) _ r1(2) r2(2) names(3,4) r1(1,3) r2(1) env, of h]
  show ?thesis by simp
qed

theorem server_round_trip_witness:
  "\<exists>sv s0 x1 s1 x2. main_start demo_sys demo_args demo_disk = Some (Ok sv) \<and>
     ServeHTTP live_env (sv_handler sv) (live_request ''PUT'' ''/b'' '''') (sv_store sv) = (Ok (status_only 200), s0) \<and>
     ServeHTTP live_env (sv_handler sv) (live_request ''PUT'' ''/b/k'' ''hello'') s0 = (Ok x1, s1) \<and>
     ServeHTTP live_env (sv_handler sv) (live_request ''GET'' ''/b/k'' '''') s1 = (Ok x2, s1) \<and>
     rs_Body x2 = BBytes ''hello''"
proof -
  obtain sv s0 where sv: "main_start demo_sys demo_args demo_disk = Some (Ok sv)" "sv_cfg sv = demo_config"
    "RaftNode_IsLeader (sv_node sv)" "\<forall>entry. rl_apply (rn_raft (sv_node sv)) entry = None"
    "blobs_intact [cfg_DataDir (sv_cfg sv)] demo_disk"
    "ServeHTTP live_env (sv_handler sv) (live_request ''PUT'' ''/b'' '''') (sv_store sv) = (Ok (status_only 200), s0)"
    by (rule live_server) blast
  have len: "length ''hello'' \<le> MaxObjectSize" by (simp add: MaxObjectSize_pos)
  have "cfg_SecretKey (sv_cfg sv) = ''minioadmin''" "cfg_AccessKey (sv_cfg sv) = ''minioadmin''" by (simp_all add: sv(2))
  from server_round_trip [OF sv(1) refl refl sv(3) sv(4) [rule_format] sv(5) demo_auth_wf _ _ _ _ demo_names(1,2) _ _ _ demo_request_bucket
      _ _ _ len _ _ _ _ sv(6) [unfolded live_request_def, folded this(1)],
      of "''UNSIGNED-PAYLOAD''" "''UNSIGNED-PAYLOAD''" "demo_request ''PUT'' ''/b/k'' ''hello''"
      "demo_request ''GET'' ''/b/k'' ''''" live_env live_env] this sv(1,6)
  show ?thesis by (auto simp: status_only_def live_env_def demo_env_def live_request_def)
qed

text \<open>C11. What is served is what was stored: in every state that a server reaches from its start, by any
  requests, writes and parts in progress, ticks of the reaper and log entries, and with any failures of the file
  system other than torn writes, the bytes of a successful response have exactly the digest that its
  \<^verbatim>\<open>ETag\<close> header states.\<close>

theorem served_reads_match_etag:
  assumes "sv_reach S sv" and "ServeHTTP V (sv_handler sv) r (sv_store sv) = (Ok x, s')"
    and "rs_Status x = 200" and "rs_Body x = BBytes data"
  shows "map_of (rs_Header x) ''ETag'' = Some (quoted (hex_EncodeToString (sha256_Sum256 data)))"
proof -
  obtain b k v meta where "st_GetObject (ev_os V) b k v (sv_store sv) = Ok (data, meta)" "rs_Header x = object_headers meta"
    using served_bytes [OF assms(2-4)] by blast
  with sound_reads [OF sv_reach_sound [OF assms(1)]] show ?thesis by (simp add: object_headers_def)
qed

theorem served_reads_match_etag_witness:
  "\<exists>sv x. sv_reach demo_sys sv \<and>
     ServeHTTP live_env (sv_handler sv) (live_request ''GET'' ''/b/k'' '''') (sv_store sv) = (Ok x, sv_store sv) \<and>
     rs_Body x = BBytes ''hello'' \<and>
     map_of (rs_Header x) ''ETag'' = Some (quoted (hex_EncodeToString (sha256_Sum256 ''hello'')))"
proof -
  obtain sv s0 where sv: "main_start demo_sys demo_args demo_disk = Some (Ok sv)" "sv_cfg sv = demo_config"
    "RaftNode_IsLeader (sv_node sv)" "\<forall>entry. rl_apply (rn_raft (sv_node sv)) entry = None"
    "blobs_intact [cfg_DataDir (sv_cfg sv)] demo_disk"
    "ServeHTTP live_env (sv_handler sv) (live_request ''PUT'' ''/b'' '''') (sv_store sv) = (Ok (status_only 200), s0)"
    by (rule live_server) blast
  have keys: "cfg_SecretKey (sv_cfg sv) = ''minioadmin''" "cfg_AccessKey (sv_cfg sv) = ''minioadmin''"
    "hd_accessKey (sv_handler sv) = ''minioadmin''" "hd_secretKey (sv_handler sv) = ''minioadmin''"
    using started_state(5,6) [OF sv(1,3) sv(4) [rule_format]] by (simp_all add: sv(2))
  have os: "os_atomic (ev_os live_env)" "ev_os live_env = os_ok" "ev_bolt live_env = sy_bolt demo_sys"
    by (simp_all add: live_env_def demo_env_def os_atomic_def os_ok_def)
  have len: "length ''hello'' \<le> MaxObjectSize" by (simp add: MaxObjectSize_pos)
  note made = created_state [OF sv(1,3) sv(4) [rule_format] demo_auth_wf _ _ _ _ demo_request_bucket
      sv(6) [unfolded live_request_def, folded keys(1)]]
  obtain x1 s1 x2 where put: "ServeHTTP live_env (sv_handler sv) (live_request ''PUT'' ''/b/k'' ''hello'') s0 = (Ok x1, s1)"
    and get: "ServeHTTP live_env (sv_handler sv) (live_request ''GET'' ''/b/k'' '''') s1 = (Ok x2, s1)"
      "rs_Status x2 = 200" "rs_Body x2 = BBytes ''hello''"
    using http_put_get [OF made(1-4) demo_names(1,2) len made(7) [OF _ _ _ _ _ sv(5)] demo_auth_wf,
        of "''UNSIGNED-PAYLOAD''" "''UNSIGNED-PAYLOAD''" "sv_handler sv" "demo_request ''PUT'' ''/b/k'' ''hello''"
        "demo_request ''GET'' ''/b/k'' ''''" live_env live_env]
    by (auto simp: keys os status_only_def live_request_def)
  have r0: "sv_reach demo_sys sv" using sv(1,5) by (rule booted)
  have r1: "sv_reach demo_sys (sv\<lparr>sv_store := s0\<rparr>)"
    by (rule served [OF r0 request [OF os(3,1) sv(6)]])
  have "sv_step (sy_bolt demo_sys) (sv\<lparr>sv_store := s0\<rparr>) (sv\<lparr>sv_store := s0\<rparr>\<lparr>sv_store := s1\<rparr>)"
    using request [OF os(3,1), of "sv\<lparr>sv_store := s0\<rparr>" "live_request ''PUT'' ''/b/k'' ''hello''" "Ok x1" s1] put by simp
  with r1 have r2: "sv_reach demo_sys (sv\<lparr>sv_store := s1\<rparr>)" by (auto dest: served)
  have "ServeHTTP live_env (sv_handler (sv\<lparr>sv_store := s1\<rparr>)) (live_request ''GET'' ''/b/k'' '''') (sv_store (sv\<lparr>sv_store := s1\<rparr>)) =
      (Ok x2, s1)" using get(1) by simp
  from served_reads_match_etag [OF r2 this get(2,3)] r2 get show ?thesis
    by (intro exI [of _ "sv\<lparr>sv_store := s1\<rparr>"] exI [of _ x2]) simp
qed


text \<open>Seven requests, one of them unsigned, and the responses: the sixth, a \<^verbatim>\<open>GET\<close> after the \<^verbatim>\<open>DELETE\<close>, is a departure.\<close>

definition unsigned_request :: request where
  "unsigned_request = demo_request ''DELETE'' ''/b/k'' ''''"

definition demo_requests :: "((string, json) gomap env \<times> request) list" where
  "demo_requests =
     [(live_env, live_request ''PUT'' ''/b/k'' ''hello''), (live_env, unsigned_request), (live_env, live_request ''GET'' ''/b/k'' ''''),
      (live_env, live_request ''HEAD'' ''/b/k'' ''''), (live_env, live_request ''DELETE'' ''/b/k'' ''''), (live_env, live_request ''GET'' ''/b/k'' ''''),
      (live_env, live_request ''GET'' ''/b'' '''')]"

lemma live_request_parts [simp]:
  "rq_URL (live_request m q d) = rq_URL (demo_request m q d)" "rq_Method (live_request m q d) = m"
  "rq_Body (live_request m q d) = \<lparr>rd_data = d, rd_err = None\<rparr>"
  by (simp_all add: live_request_def demo_request_def)

lemma live_request_verifies [simp]:
  "verifySigV4 ''minioadmin'' ''minioadmin'' (live_request m q d) = (True, live_request m q d)"
  using sign_request_verifies [OF demo_auth_wf, of "''UNSIGNED-PAYLOAD''" "''minioadmin''"] by (simp add: live_request_def)

lemma unsigned_refused [simp]: "verifySigV4 ''minioadmin'' ''minioadmin'' unsigned_request = (False, unsigned_request)"
  by (simp add: unsigned_request_def demo_request_def verifySigV4_def parseSigV4_def header_Get_def Let_def
      HasPrefix_def algorithm_def)

lemma hello_read: "ReadAll_limit MaxObjectSize \<lparr>rd_data = ''hello'', rd_err = None\<rparr> = Ok ''hello''"
  by (simp add: ReadAll_limit_def MaxObjectSize_def)

lemma demo_request_calls:
  "request_call live_env (live_request ''PUT'' ''/b/k'' d) = Some (PutCall 9 ''b'' ''k'' \<lparr>rd_data = d, rd_err = None\<rparr>)"
  "request_call live_env (live_request ''GET'' ''/b/k'' d) = Some (GetCall ''b'' ''k'' '''')"
  "request_call live_env (live_request ''HEAD'' ''/b/k'' d) = Some (HeadCall ''b'' ''k'' '''')"
  "request_call live_env (live_request ''DELETE'' ''/b/k'' d) = Some (DeleteCall 9 ''b'' ''k'')"
  "request_call live_env (live_request ''GET'' ''/b'' d) = Some (ListCall ''b'' '''' '''' 1000)"
proof -
  have "cut (CHR ''/'') (TrimPrefix ''/b/k'' ''/'') = (''b'', Some ''k'')" "cut (CHR ''/'') (TrimPrefix ''/b'' ''/'') = (''b'', None)"
    by code_simp+
  moreover have "page_size '''' = 1000" by code_simp
  ultimately show
    "request_call live_env (live_request ''PUT'' ''/b/k'' d) = Some (PutCall 9 ''b'' ''k'' \<lparr>rd_data = d, rd_err = None\<rparr>)"
    "request_call live_env (live_request ''GET'' ''/b/k'' d) = Some (GetCall ''b'' ''k'' '''')"
    "request_call live_env (live_request ''HEAD'' ''/b/k'' d) = Some (HeadCall ''b'' ''k'' '''')"
    "request_call live_env (live_request ''DELETE'' ''/b/k'' d) = Some (DeleteCall 9 ''b'' ''k'')"
    "request_call live_env (live_request ''GET'' ''/b'' d) = Some (ListCall ''b'' '''' '''' 1000)"
    by (simp_all add: request_call_def demo_request_def query_def url_Query_def add_setting_def values_Has_def values_Get_def
        live_env_def demo_env_def)
qed

lemma demo_requests_covered:
  assumes "hd_accessKey h = ''minioadmin''" and "hd_secretKey h = ''minioadmin''"
  shows "\<forall>x \<in> set demo_requests. covered h (sy_bolt demo_sys) {''b''} UNIV x" and "http_written h demo_requests = {''hello''}"
proof -
  have "\<not> HasPrefix ''/b/k'' ''/internal/''" "\<not> HasPrefix ''/b'' ''/internal/''" by code_simp+
  moreover have "u_Path (rq_URL (demo_request m q d)) = q" "u_Path (rq_URL unsigned_request) = ''/b/k''"
      "u_Path (object_url ''b'' ''k'') = ''/b/k''" for m q d
    by (simp_all add: unsigned_request_def demo_request_def object_url_def)
  moreover have "ev_os live_env = os_ok" "ev_bolt live_env = sy_bolt demo_sys"
    by (simp_all add: live_env_def demo_env_def)
  moreover have "valid_utf8 ''b''" "valid_utf8 ''k''" by (rule demo_names)+
  ultimately show "\<forall>x \<in> set demo_requests. covered h (sy_bolt demo_sys) {''b''} UNIV x"
    by (simp add: demo_requests_def assms demo_request_calls)
  show "http_written h demo_requests = {''hello''}"
    by (auto simp: http_written_def demo_requests_def assms demo_request_calls written_def hello_read)
qed

lemma demo_requests_answers:
  assumes "hd_accessKey h = ''minioadmin''" and "hd_secretKey h = ''minioadmin''"
  shows "fst (run_calls (http_spec h) demo_requests (\<lambda>_ _. [])) =
    [Ok \<lparr>rs_Status = 200, rs_Header = (''ETag'', quoted (sha_hex ''hello'')) # version_header ''1'', rs_Body = BNone\<rparr>,
     Ok (s3Error ''AccessDenied'' ''access denied''),
     Ok \<lparr>rs_Status = 200,
       rs_Header = (''ETag'', quoted (sha_hex ''hello'')) # (''Content-Length'', ''5'') # version_header ''1'',
       rs_Body = BBytes ''hello''\<rparr>,
     Ok \<lparr>rs_Status = 200,
       rs_Header = (''ETag'', quoted (sha_hex ''hello'')) # (''Content-Length'', ''5'') # version_header ''1'',
       rs_Body = BNone\<rparr>,
     Ok (status_only 204), Ok (storeError ErrNoKey), Ok (writeXML (listBucketResult ''b'' '''' 1000 [] ''''))]"
proof -
  have "version_name 0 = ''1''" "version_name (Suc 0) = ''2''" "FormatInt 5 = ''5''" by code_simp+
  then show ?thesis
    by (simp add: demo_requests_def assms demo_request_calls hello_read looked_def marker_at_def demo_visible [OF refl, simplified]
        visible_entry_def size_of_def)
qed


end
